(* ===== verification/Prelude.thy ===== *)
theory Prelude
  imports Main "HOL-Library.Word" "HOL-Library.Sublist"
begin

text \<open>
  Shared vocabulary of the development.

  \<^item> Machine types: \<open>byte\<close>, \<open>u16\<close>, \<open>u32\<close>, \<open>u64\<close>; \<open>size_t\<close> is 64 bits wide, as on the
    platforms the program is built for.
  \<^item> Operating-system error numbers, NSPR error codes and the C++ exceptions the program throws.
  \<^item> The outcome of a C++ call: it returns, it throws, or it runs into behaviour the language
    does not define (or a failed \<open>assert\<close>). A method is a function from the state to an
    outcome and the state it leaves behind; an exception keeps the effects made before it.
  \<^item> A program logic for such methods: \<open>triple\<close> (pre- and postconditions for both ways of
    leaving a method, and no undefined behaviour) and the locale \<open>world_preorder\<close>, which lifts
    a reflexive and transitive relation on states over sequencing and \<open>catch\<close>.
\<close>

unbundle bit_operations_syntax

section \<open>Machine types\<close>

type_synonym byte = "8 word"
type_synonym u16 = "16 word"
type_synonym u32 = "32 word"
type_synonym u64 = "64 word"
type_synonym size_t = "64 word"

text \<open>
  Collections: \<open>exec_simps\<close> unfolds the plumbing of the methods, \<open>triple_intro\<close> and
  \<open>keeps_intro\<close> hold the structural rules of the program logic.
\<close>

named_theorems exec_simps "equations that run sequencing, exceptions and state access"
named_theorems triple_intro "rules that decompose a triple"
named_theorems keeps_intro "rules that decompose a frame relation over a method"

section \<open>Errors\<close>

text \<open>
  The error numbers the sources name. On Linux EWOULDBLOCK is the same number as EAGAIN, so the
  two case labels of the sources are one constructor here. Every other error number is EOTHER.
\<close>

datatype errno =
    EAGAIN | EPIPE | EINPROGRESS | ENOENT | EINTR | ENETDOWN | EPROTO | ENOPROTOOPT
  | EHOSTDOWN | ENONET | EHOSTUNREACH | EOPNOTSUPP | ENETUNREACH | ECONNABORTED | EMFILE
  | ENFILE | ENOBUFS | ENOMEM | EACCES | EADDRINUSE | EADDRNOTAVAIL | EBADF | ECONNREFUSED
  | ECONNRESET | EFAULT | EINVAL | EMSGSIZE | ENOSYS | ENOTCONN | ENOTSOCK | EPERM | ETIMEDOUT
  | EOTHER nat

abbreviation EWOULDBLOCK :: errno where
  "EWOULDBLOCK \<equiv> EAGAIN"

datatype prerror =
    PR_NO_ACCESS_RIGHTS_ERROR | PR_ADDRESS_IN_USE_ERROR | PR_ADDRESS_NOT_AVAILABLE_ERROR
  | PR_WOULD_BLOCK_ERROR | PR_BAD_DESCRIPTOR_ERROR | PR_CONNECT_ABORTED_ERROR
  | PR_CONNECT_REFUSED_ERROR | PR_CONNECT_RESET_ERROR | PR_ACCESS_FAULT_ERROR
  | PR_HOST_UNREACHABLE_ERROR | PR_IN_PROGRESS_ERROR | PR_PENDING_INTERRUPT_ERROR
  | PR_INVALID_ARGUMENT_ERROR | PR_NETWORK_UNREACHABLE_ERROR | PR_INSUFFICIENT_RESOURCES_ERROR
  | PR_OUT_OF_MEMORY_ERROR | PR_NOT_IMPLEMENTED_ERROR | PR_NOT_CONNECTED_ERROR
  | PR_NOT_SOCKET_ERROR | PR_NOT_TCP_SOCKET_ERROR | PR_IO_TIMEOUT_ERROR | PR_UNKNOWN_ERROR
  | PR_INVALID_METHOD_ERROR | PR_END_OF_FILE_ERROR | PR_OTHER_ERROR nat

text \<open>
  The exceptions. All of them derive from \<open>std::exception\<close>, so a \<open>catch (std::exception &)\<close>
  clause catches every constructor, RescheduleException included. S6MException stands for the
  message library's exceptions other than the two the sources name.
\<close>

datatype exn =
    RescheduleException int u32
  | SystemError errno
  | RuntimeError string
  | LengthError string
  | InvalidArgument string
  | TLSException prerror
  | BadVersionException
  | EndOfBufferException
  | S6MException nat

text \<open>
  Undefined behaviour, failed assertions, and an exception that leaves a destructor, which ends
  the program (Terminated). OutOfFuel is not an outcome of the program: a loop
  that has no bound of its own is followed for a given number of passes and cut off with it.
\<close>

datatype fault =
    AssertionFailure
  | NullDereference
  | DanglingReference
  | OutOfBounds
  | Terminated
  | OutOfFuel

section \<open>Outcomes and methods\<close>

datatype 'a outcome = Ret 'a | Throw exn | Abort fault

type_synonym ('w, 'a) meth = "'w \<Rightarrow> 'a outcome \<times> 'w"

definition ret :: "'a \<Rightarrow> ('w, 'a) meth" where
  "ret a = (\<lambda>w. (Ret a, w))"

definition throw :: "exn \<Rightarrow> ('w, 'a) meth" where
  "throw e = (\<lambda>w. (Throw e, w))"

definition abort :: "fault \<Rightarrow> ('w, 'a) meth" where
  "abort x = (\<lambda>w. (Abort x, w))"

definition gets :: "('w \<Rightarrow> 'a) \<Rightarrow> ('w, 'a) meth" where
  "gets f = (\<lambda>w. (Ret (f w), w))"

definition modify :: "('w \<Rightarrow> 'w) \<Rightarrow> ('w, unit) meth" where
  "modify f = (\<lambda>w. (Ret (), f w))"

definition bindM :: "('w, 'a) meth \<Rightarrow> ('a \<Rightarrow> ('w, 'b) meth) \<Rightarrow> ('w, 'b) meth" where
  "bindM m f = (\<lambda>w. case m w of
       (Ret a, w') \<Rightarrow> f a w'
     | (Throw e, w') \<Rightarrow> (Throw e, w')
     | (Abort x, w') \<Rightarrow> (Abort x, w'))"

text \<open>Statement sequencing, for methods that return nothing.\<close>

definition seqM :: "('w, unit) meth \<Rightarrow> ('w, 'b) meth \<Rightarrow> ('w, 'b) meth" where
  "seqM m n = bindM m (\<lambda>_. n)"

text \<open>\<open>try { m } catch (...)\<close>: the handler sees the exception and may rethrow it.\<close>

definition tryM :: "('w, 'a) meth \<Rightarrow> (exn \<Rightarrow> ('w, 'a) meth) \<Rightarrow> ('w, 'a) meth" where
  "tryM m h = (\<lambda>w. case m w of
       (Ret a, w') \<Rightarrow> (Ret a, w')
     | (Throw e, w') \<Rightarrow> h e w'
     | (Abort x, w') \<Rightarrow> (Abort x, w'))"

definition assertM :: "bool \<Rightarrow> ('w, unit) meth" where
  "assertM b = (if b then ret () else abort AssertionFailure)"

definition whenM :: "bool \<Rightarrow> ('w, unit) meth \<Rightarrow> ('w, unit) meth" where
  "whenM b m = (if b then m else ret ())"

text \<open>An outcome computed without the state (a call on a value) as a method.\<close>

definition liftO :: "'a outcome \<Rightarrow> ('w, 'a) meth" where
  "liftO r = (\<lambda>w. (r, w))"

lemma run_basic [exec_simps]:
  "ret a w = (Ret a, w)"
  "throw e w = (Throw e, w)"
  "abort x w = (Abort x, w)"
  "gets f w = (Ret (f w), w)"
  "modify f' w = (Ret (), f' w)"
  "liftO r w = (r, w)"
  by (simp_all add: ret_def throw_def abort_def gets_def modify_def liftO_def)

lemma run_bind [exec_simps]:
  "m w = (Ret a, w') \<Longrightarrow> bindM m f w = f a w'"
  "m w = (Throw e, w') \<Longrightarrow> bindM m f w = (Throw e, w')"
  "m w = (Abort x, w') \<Longrightarrow> bindM m f w = (Abort x, w')"
  by (simp_all add: bindM_def)

lemma run_seq [exec_simps]:
  "m w = (Ret (), w') \<Longrightarrow> seqM m n w = n w'"
  "m w = (Throw e, w') \<Longrightarrow> seqM m n w = (Throw e, w')"
  "m w = (Abort x, w') \<Longrightarrow> seqM m n w = (Abort x, w')"
  by (simp_all add: seqM_def bindM_def)

lemma run_bind_Ret:
  assumes "bindM m f w = (Ret b, w')"
  obtains a v where "m w = (Ret a, v)" "f a v = (Ret b, w')"
  using assms by (auto simp: bindM_def split: prod.splits outcome.splits)

lemma run_seq_Ret:
  assumes "seqM m n w = (Ret b, w')"
  obtains v where "m w = (Ret (), v)" "n v = (Ret b, w')"
  using assms unfolding seqM_def by (auto elim: run_bind_Ret)

lemma run_try [exec_simps]:
  "m w = (Ret a, w') \<Longrightarrow> tryM m h w = (Ret a, w')"
  "m w = (Throw e, w') \<Longrightarrow> tryM m h w = h e w'"
  "m w = (Abort x, w') \<Longrightarrow> tryM m h w = (Abort x, w')"
  by (simp_all add: tryM_def)

lemma run_guards [exec_simps]:
  "assertM True w = (Ret (), w)"
  "assertM False w = (Abort AssertionFailure, w)"
  "whenM True m w = m w"
  "whenM False m w = (Ret (), w)"
  by (simp_all add: assertM_def whenM_def run_basic)

text \<open>The monad laws: sequencing is associative and \<open>ret\<close> is neutral.\<close>

lemma bindM_ret_left [simp]: "bindM (ret a) f = f a"
  by (rule ext) (simp add: exec_simps)

lemma bindM_assoc: "bindM (bindM m f) g = bindM m (\<lambda>x. bindM (f x) g)"
  by (rule ext) (auto simp: bindM_def split: prod.splits outcome.splits)

section \<open>Pre- and postconditions\<close>

text \<open>
  \<open>triple P m Q R\<close>: from every state with \<open>P\<close>, the method \<open>m\<close> has defined behaviour, a normal
  return satisfies \<open>Q\<close> and an exception satisfies \<open>R\<close>.
\<close>

definition triple ::
  "('w \<Rightarrow> bool) \<Rightarrow> ('w, 'a) meth \<Rightarrow> ('a \<Rightarrow> 'w \<Rightarrow> bool) \<Rightarrow> (exn \<Rightarrow> 'w \<Rightarrow> bool) \<Rightarrow> bool" where
  "triple P m Q R \<longleftrightarrow> (\<forall>w. P w \<longrightarrow> (case m w of
       (Ret a, w') \<Rightarrow> Q a w'
     | (Throw e, w') \<Rightarrow> R e w'
     | (Abort _, _) \<Rightarrow> False))"

lemma tripleI:
  assumes "\<And>w. P w \<Longrightarrow> (case m w of (Ret a, w') \<Rightarrow> Q a w' | (Throw e, w') \<Rightarrow> R e w' | (Abort _, _) \<Rightarrow> False)"
  shows "triple P m Q R"
  using assms by (simp add: triple_def)

lemma tripleD:
  assumes "triple P m Q R" and "P w"
  shows "case m w of (Ret a, w') \<Rightarrow> Q a w' | (Throw e, w') \<Rightarrow> R e w' | (Abort _, _) \<Rightarrow> False"
  using assms by (simp add: triple_def)

lemma triple_weaken:
  assumes "triple P m Q R" and "\<And>w. P' w \<Longrightarrow> P w"
    and "\<And>a w. Q a w \<Longrightarrow> Q' a w" and "\<And>e w. R e w \<Longrightarrow> R' e w"
  shows "triple P' m Q' R'"
  using assms by (fastforce simp: triple_def split: prod.splits outcome.splits)

lemma triple_bind [triple_intro]:
  assumes "triple P m Q R" and "\<And>a. triple (Q a) (f a) S R"
  shows "triple P (bindM m f) S R"
  using assms by (fastforce simp: triple_def bindM_def split: prod.splits outcome.splits)

lemma triple_seq [triple_intro]:
  assumes "triple P m (\<lambda>_. Q) R" and "triple Q n S R"
  shows "triple P (seqM m n) S R"
  unfolding seqM_def using assms by (auto intro: triple_bind)

lemma triple_try [triple_intro]:
  assumes "triple P m Q R'" and "\<And>e. triple (R' e) (h e) Q R"
  shows "triple P (tryM m h) Q R"
  using assms by (fastforce simp: triple_def tryM_def split: prod.splits outcome.splits)

lemma triple_if [triple_intro]:
  assumes "b \<Longrightarrow> triple P m Q R" and "\<not> b \<Longrightarrow> triple P n Q R"
  shows "triple P (if b then m else n) Q R"
  using assms by simp

section \<open>Relations kept by every run of a method\<close>

definition keeps :: "('w \<Rightarrow> 'w \<Rightarrow> bool) \<Rightarrow> ('w, 'a) meth \<Rightarrow> bool" where
  "keeps R m \<longleftrightarrow> (\<forall>w. R w (snd (m w)))"

lemma keepsI: "(\<And>w. R w (snd (m w))) \<Longrightarrow> keeps R m"
  by (simp add: keeps_def)

lemma keepsD: "keeps R m \<Longrightarrow> R w (snd (m w))"
  by (simp add: keeps_def)

text \<open>
  A contract that many operations share: what a relation on states must satisfy so that it holds
  between the state before and after any composition of methods that keep it. The relations of
  the development (the call history only grows, a deactivated reactor stays deactivated, known
  sessions stay known) are instances.
\<close>

locale world_preorder =
  fixes R :: "'w \<Rightarrow> 'w \<Rightarrow> bool"
  assumes R_refl: "R w w"
    and R_trans: "R u v \<Longrightarrow> R v w \<Longrightarrow> R u w"
begin

lemma keeps_pure:
  "keeps R (ret a)" "keeps R (throw e)" "keeps R (abort x)" "keeps R (gets f)" "keeps R (liftO r)"
  by (auto simp: keeps_def exec_simps R_refl)

lemma keeps_bind:
  assumes "keeps R m" and "\<And>a. keeps R (f a)"
  shows "keeps R (bindM m f)"
proof (rule keepsI)
  fix w
  from assms show "R w (snd (bindM m f w))"
    by (auto simp: bindM_def keeps_def split: prod.splits outcome.splits) (metis R_trans snd_conv)+
qed

lemma keeps_bind_result:
  assumes "keeps R m" and "\<And>w a w'. m w = (Ret a, w') \<Longrightarrow> P a" and "\<And>a. P a \<Longrightarrow> keeps R (f a)"
  shows "keeps R (bindM m f)"
proof (rule keepsI)
  fix w
  from assms show "R w (snd (bindM m f w))"
    by (auto simp: bindM_def keeps_def split: prod.splits outcome.splits) (metis R_trans snd_conv)+
qed

lemma keeps_seq:
  assumes "keeps R m" and "keeps R n"
  shows "keeps R (seqM m n)"
  unfolding seqM_def using assms by (rule keeps_bind)

lemma keeps_try:
  assumes "keeps R m" and "\<And>e. keeps R (h e)"
  shows "keeps R (tryM m h)"
proof (rule keepsI)
  fix w
  from assms show "R w (snd (tryM m h w))"
    by (auto simp: tryM_def keeps_def split: prod.splits outcome.splits) (metis R_trans snd_conv)+
qed

lemma keeps_if:
  assumes "b \<Longrightarrow> keeps R m" and "\<not> b \<Longrightarrow> keeps R n"
  shows "keeps R (if b then m else n)"
  using assms by simp

lemma keeps_guards: "keeps R (assertM b)" "keeps R m \<Longrightarrow> keeps R (whenM b m)"
  by (auto simp: assertM_def whenM_def keeps_pure)

lemma keeps_cases:
  "keeps R n \<Longrightarrow> (\<And>a. keeps R (f a)) \<Longrightarrow> keeps R (case x of None \<Rightarrow> n | Some a \<Rightarrow> f a)"
  "(\<And>a. keeps R (g a)) \<Longrightarrow> (\<And>b. keeps R (h b)) \<Longrightarrow> keeps R (case y of Inl a \<Rightarrow> g a | Inr b \<Rightarrow> h b)"
  "(\<And>a b. keeps R (k a b)) \<Longrightarrow> keeps R (case p of (a, b) \<Rightarrow> k a b)"
  "(\<And>v. keeps R (l v)) \<Longrightarrow> keeps R (Let t l)"
  by (auto split: option.split sum.split prod.split)

lemmas keeps_rules =
  keeps_pure keeps_bind keeps_seq keeps_try keeps_if keeps_guards keeps_cases

end

text \<open>Every predicate on states gives such a relation: a state that satisfies it is left with it.\<close>

definition preserves :: "('w \<Rightarrow> bool) \<Rightarrow> 'w \<Rightarrow> 'w \<Rightarrow> bool" where
  "preserves I w w' \<longleftrightarrow> (I w \<longrightarrow> I w')"

interpretation pres: world_preorder "preserves I"
  by unfold_locales (auto simp: preserves_def)

lemma preservesD: "keeps (preserves I) m \<Longrightarrow> I w \<Longrightarrow> m w = (r, w') \<Longrightarrow> I w'"
  using keepsD[of "preserves I" m w] by (simp add: preserves_def)

section \<open>Words\<close>

lemma unat_diff_le: "a \<le> b \<Longrightarrow> unat (b - a) = unat b - unat (a :: 'a::len word)"
  by (simp add: unat_sub)

lemma unat_plus_bounded:
  "unat a + unat b < 2 ^ LENGTH('a) \<Longrightarrow> unat (a + b) = unat a + unat (b :: 'a::len word)"
  by (simp add: unat_word_ariths)

section \<open>Memory blocks\<close>

text \<open>
  A C array is a function from indices to values, together with the size the program declares for
  it. \<open>blit m i xs\<close> stores the list \<open>xs\<close> from index \<open>i\<close> on.
\<close>

definition blit :: "(nat \<Rightarrow> 'a) \<Rightarrow> nat \<Rightarrow> 'a list \<Rightarrow> (nat \<Rightarrow> 'a)" where
  "blit m i xs = (\<lambda>j. if i \<le> j \<and> j < i + length xs then xs ! (j - i) else m j)"

definition block :: "(nat \<Rightarrow> 'a) \<Rightarrow> nat \<Rightarrow> nat \<Rightarrow> 'a list" where
  "block m i n = map (\<lambda>j. m (i + j)) [0..<n]"

lemma length_block [simp]: "length (block m i n) = n"
  by (simp add: block_def)

lemma block_0 [simp]: "block m i 0 = []"
  by (simp add: block_def)

lemma block_nth [simp]: "j < n \<Longrightarrow> block m i n ! j = m (i + j)"
  by (simp add: block_def)

lemma block_split: "block m i (a + b) = block m i a @ block m (i + a) b"
  by (rule nth_equalityI) (auto simp: nth_append)

lemma take_block: "a \<le> n \<Longrightarrow> take a (block m i n) = block m i a"
  by (rule nth_equalityI) auto

lemma drop_block: "a \<le> n \<Longrightarrow> drop a (block m i n) = block m (i + a) (n - a)"
  by (rule nth_equalityI) (auto simp: add.assoc)

lemma block_blit_same: "block (blit m i xs) i (length xs) = xs"
  by (rule nth_equalityI) (auto simp: blit_def)

lemma block_blit_before: "i + n \<le> j \<Longrightarrow> block (blit m j xs) i n = block m i n"
  by (rule nth_equalityI) (auto simp: blit_def)

lemma block_blit_after: "j + length xs \<le> i \<Longrightarrow> block (blit m j xs) i n = block m i n"
  by (rule nth_equalityI) (auto simp: blit_def)

end
