(* ===== verification/StreamBuffer.thy ===== *)
theory StreamBuffer
  imports Prelude
begin

text \<open>
  \<^verbatim>\<open>core/streambuffer.hh\<close>: the byte buffer of every stream. The class keeps an array of
  \<open>BUF_SIZE\<close> bytes and two \<open>size_t\<close> indices; data sit between \<open>head\<close> and \<open>tail\<close>. The indices
  are 64-bit words, so that the subtractions and additions of the class wrap around as in C++.

  The array is shown against an abstract queue of bytes (\<open>contents\<close>): the locale \<open>byte_fifo\<close>
  states what the stream reactors rely on, and the interpretation \<open>sb\<close> discharges it for the
  class. \<open>prepend\<close> takes its size as \<open>uint8_t\<close>, and the development shows what that does to a
  longer argument.
\<close>

section \<open>The class\<close>

definition BUF_SIZE :: size_t where
  "BUF_SIZE = 35 * 1024"

record streambuf =
  cells :: "nat \<Rightarrow> byte"
  head :: size_t
  tail :: size_t

definition new_buffer :: streambuf where
  "new_buffer = \<lparr>cells = (\<lambda>_. 0), head = 0, tail = 0\<rparr>"

definition usedSize :: "streambuf \<Rightarrow> size_t" where
  "usedSize b = tail b - head b"

definition unuse :: "size_t \<Rightarrow> streambuf \<Rightarrow> streambuf" where
  "unuse count b =
     (let b' = b\<lparr>head := head b + count\<rparr>
      in if head b' = tail b' then b'\<lparr>head := 0, tail := 0\<rparr> else b')"

definition availSize :: "streambuf \<Rightarrow> size_t" where
  "availSize b = BUF_SIZE - tail b"

definition use_bytes :: "size_t \<Rightarrow> streambuf \<Rightarrow> streambuf" where
  "use_bytes count b = b\<lparr>tail := tail b + count\<rparr>"

text \<open>
  The two pointer accessors: a caller of \<open>getHead\<close> reads \<open>n\<close> bytes from there, a caller of
  \<open>getTail\<close> stores bytes there. An access outside the array is undefined behaviour.
\<close>

definition getHead :: "streambuf \<Rightarrow> nat \<Rightarrow> byte list outcome" where
  "getHead b n =
     (if unat (head b) + n \<le> unat BUF_SIZE then Ret (block (cells b) (unat (head b)) n)
      else Abort OutOfBounds)"

definition getTail_store :: "byte list \<Rightarrow> streambuf \<Rightarrow> streambuf outcome" where
  "getTail_store xs b =
     (if unat (tail b) + length xs \<le> unat BUF_SIZE
      then Ret (b\<lparr>cells := blit (cells b) (unat (tail b)) xs\<rparr>)
      else Abort OutOfBounds)"

definition makeHeadroom :: "size_t \<Rightarrow> streambuf \<Rightarrow> streambuf outcome" where
  "makeHeadroom sz b =
     (let dataSize = usedSize b
      in if BUF_SIZE - dataSize < sz then Throw (RuntimeError ''No room in stream buffer'')
         else if sz > head b then
           (if unat sz + unat dataSize \<le> unat BUF_SIZE \<and>
               unat (head b) + unat dataSize \<le> unat BUF_SIZE
            then Ret (b\<lparr>cells := blit (cells b) (unat sz)
                                   (block (cells b) (unat (head b)) (unat dataSize)),
                        tail := tail b + (sz - head b),
                        head := sz\<rparr>)
            else Abort OutOfBounds)
         else Ret b)"

definition prepend :: "byte list \<Rightarrow> 8 word \<Rightarrow> streambuf \<Rightarrow> streambuf outcome" where
  "prepend stuff sz b =
     (case makeHeadroom (ucast sz) b of
        Ret b1 \<Rightarrow>
          (let p = head b1 - ucast sz; n = unat sz
           in if unat p + n \<le> unat BUF_SIZE \<and> n \<le> length stuff
              then Ret (b1\<lparr>cells := blit (cells b1) (unat p) (take n stuff), head := p\<rparr>)
              else Abort OutOfBounds)
      | Throw e \<Rightarrow> Throw e
      | Abort x \<Rightarrow> Abort x)"

section \<open>Well-formed buffers and their contents\<close>

definition sb_ok :: "streambuf \<Rightarrow> bool" where
  "sb_ok b \<longleftrightarrow> head b \<le> tail b \<and> tail b \<le> BUF_SIZE \<and> (head b = tail b \<longrightarrow> tail b < BUF_SIZE)"

definition contents :: "streambuf \<Rightarrow> byte list" where
  "contents b = block (cells b) (unat (head b)) (unat (usedSize b))"

text \<open>Bytes arriving behind the data: stored at the tail, then counted.\<close>

definition store :: "byte list \<Rightarrow> streambuf \<Rightarrow> streambuf" where
  "store xs b = use_bytes (of_nat (length xs)) (b\<lparr>cells := blit (cells b) (unat (tail b)) xs\<rparr>)"

lemma unat_BUF_SIZE [simp]: "unat BUF_SIZE = 35840"
  by (simp add: BUF_SIZE_def)

lemma sb_ok_unat:
  assumes "sb_ok b"
  shows "unat (head b) \<le> unat (tail b)" "unat (tail b) \<le> 35840"
    "unat (head b) = unat (tail b) \<Longrightarrow> unat (tail b) < 35840"
proof -
  from assms show "unat (head b) \<le> unat (tail b)"
    by (simp add: sb_ok_def word_le_nat_alt)
  from assms show "unat (tail b) \<le> 35840"
    using unat_BUF_SIZE by (simp add: sb_ok_def word_le_nat_alt)
  assume "unat (head b) = unat (tail b)"
  then have "head b = tail b" by (simp add: word_unat_eq_iff)
  with assms show "unat (tail b) < 35840"
    using unat_BUF_SIZE by (simp add: sb_ok_def word_less_nat_alt)
qed

lemma sb_okI:
  assumes "unat (head b) \<le> unat (tail b)" "unat (tail b) \<le> 35840"
    "unat (head b) = unat (tail b) \<Longrightarrow> unat (tail b) < 35840"
  shows "sb_ok b"
  using assms unat_BUF_SIZE by (auto simp: sb_ok_def word_le_nat_alt word_less_nat_alt)

lemma unat_usedSize: "sb_ok b \<Longrightarrow> unat (usedSize b) = unat (tail b) - unat (head b)"
  by (simp add: usedSize_def sb_ok_def unat_diff_le)

lemma unat_availSize: "sb_ok b \<Longrightarrow> unat (availSize b) = 35840 - unat (tail b)"
  by (simp add: availSize_def sb_ok_def unat_diff_le)

lemma length_contents: "length (contents b) = unat (usedSize b)"
  by (simp add: contents_def)

lemma usedSize_0_iff: "usedSize b = 0 \<longleftrightarrow> contents b = []"
  by (metis length_0_conv length_contents unat_0 unat_eq_zero)

lemma avail_if_empty: "sb_ok b \<Longrightarrow> contents b = [] \<Longrightarrow> 0 < unat (availSize b)"
  using sb_ok_unat[of b] by (auto simp: unat_availSize usedSize_0_iff[symmetric] usedSize_def)

lemma new_buffer_ok [simp]: "sb_ok new_buffer" "contents new_buffer = []"
  by (auto simp: new_buffer_def sb_ok_def BUF_SIZE_def contents_def usedSize_def)

subsection \<open>Taking bytes off the front\<close>

lemma unuse_ok:
  assumes "sb_ok b" "unat n \<le> length (contents b)"
  shows "sb_ok (unuse n b)" "contents (unuse n b) = drop (unat n) (contents b)"
proof -
  note u = sb_ok_unat[OF assms(1)] unat_usedSize[OF assms(1)]
  have n: "unat (head b + n) = unat (head b) + unat n"
    using assms(2) u by (intro unat_plus_bounded) (simp add: length_contents)
  have eq: "head b + n = tail b \<longleftrightarrow> unat n = length (contents b)"
    using n u by (metis length_contents le_add_diff_inverse add_left_cancel word_unat_eq_iff)
  show "sb_ok (unuse n b)"
  proof (cases "head b + n = tail b")
    case True
    then show ?thesis by (simp add: unuse_def sb_ok_def BUF_SIZE_def)
  next
    case False
    with n u assms(2) show ?thesis
      by (intro sb_okI) (auto simp: unuse_def length_contents word_unat_eq_iff)
  qed
  show "contents (unuse n b) = drop (unat n) (contents b)"
  proof (cases "head b + n = tail b")
    case True
    with eq show ?thesis
      by (simp add: unuse_def contents_def usedSize_def)
  next
    case False
    have "unat (tail b - (head b + n)) = unat (usedSize b) - unat n"
      using n u assms(2) by (subst unat_diff_le) (auto simp: word_le_nat_alt length_contents)
    with False n assms(2) show ?thesis
      by (simp add: unuse_def contents_def usedSize_def drop_block length_contents)
  qed
qed

subsection \<open>Adding bytes at the back\<close>

lemma getTail_store_Ret:
  assumes "sb_ok b" "length xs \<le> unat (availSize b)"
  shows "getTail_store xs b = Ret (b\<lparr>cells := blit (cells b) (unat (tail b)) xs\<rparr>)"
  using assms sb_ok_unat[of b] by (simp add: getTail_store_def unat_availSize)

lemma store_ok:
  assumes "sb_ok b" "length xs \<le> unat (availSize b)"
  shows "sb_ok (store xs b)" "contents (store xs b) = contents b @ xs"
proof -
  note u = sb_ok_unat[OF assms(1)] unat_usedSize[OF assms(1)] unat_availSize[OF assms(1)]
  have l: "unat (of_nat (length xs) :: size_t) = length xs"
    using assms(2) u by (simp add: unat_of_nat)
  have t: "unat (tail b + of_nat (length xs)) = unat (tail b) + length xs"
    using assms(2) u l by (subst unat_plus_bounded) auto
  show "sb_ok (store xs b)"
    using t u assms(2) by (intro sb_okI) (auto simp: store_def use_bytes_def)
  have "unat (tail b + of_nat (length xs) - head b) = unat (usedSize b) + length xs"
    using t u by (subst unat_diff_le) (auto simp: word_le_nat_alt)
  moreover have "block (blit (cells b) (unat (tail b)) xs) (unat (head b)) (unat (usedSize b)) = contents b"
    using u by (simp add: contents_def block_blit_before)
  moreover have "unat (head b) + unat (usedSize b) = unat (tail b)"
    using u by simp
  ultimately show "contents (store xs b) = contents b @ xs"
    by (simp add: store_def use_bytes_def contents_def usedSize_def block_split block_blit_same)
qed

subsection \<open>Room in front\<close>

lemma makeHeadroom_full:
  assumes "sb_ok b" "35840 < unat sz + length (contents b)"
  shows "makeHeadroom sz b = Throw (RuntimeError ''No room in stream buffer'')"
proof -
  note u = sb_ok_unat[OF assms(1)] unat_usedSize[OF assms(1)]
  have "unat (BUF_SIZE - usedSize b) = 35840 - unat (usedSize b)"
    using u by (subst unat_diff_le) (auto simp: word_le_nat_alt)
  then have "BUF_SIZE - usedSize b < sz"
    using assms(2) u by (simp add: word_less_nat_alt length_contents)
  then show ?thesis by (simp add: makeHeadroom_def Let_def)
qed

lemma makeHeadroom_ok:
  assumes "sb_ok b" "unat sz + length (contents b) \<le> 35840" "unat sz < 35840"
  obtains b' where "makeHeadroom sz b = Ret b'" "sb_ok b'" "contents b' = contents b"
    "unat sz \<le> unat (head b')"
proof -
  note u = sb_ok_unat[OF assms(1)] unat_usedSize[OF assms(1)]
  have "unat (BUF_SIZE - usedSize b) = 35840 - unat (usedSize b)"
    using u by (subst unat_diff_le) (auto simp: word_le_nat_alt)
  then have room: "\<not> BUF_SIZE - usedSize b < sz"
    using assms(2) u by (simp add: word_less_nat_alt length_contents)
  show thesis
  proof (cases "sz > head b")
    case False
    with room have "makeHeadroom sz b = Ret b"
      by (simp add: makeHeadroom_def Let_def)
    with False assms(1) show thesis by (intro that) (auto simp: word_less_nat_alt)
  next
    case True
    define b' where "b' = b\<lparr>cells := blit (cells b) (unat sz) (contents b),
      tail := tail b + (sz - head b), head := sz\<rparr>"
    have bounds: "unat sz + unat (usedSize b) \<le> 35840" "unat (head b) + unat (usedSize b) \<le> 35840"
      using assms(2) u by (auto simp: length_contents)
    have run: "makeHeadroom sz b = Ret b'"
      using room True bounds by (simp add: makeHeadroom_def Let_def b'_def contents_def)
    have "unat (sz - head b) = unat sz - unat (head b)"
      using True by (simp add: unat_diff_le)
    then have t: "unat (tail b') = unat sz + unat (usedSize b)"
      using True u bounds by (simp add: b'_def unat_plus_bounded word_less_nat_alt)
    then have ok: "sb_ok b'"
      using assms(3) bounds by (intro sb_okI) (auto simp: b'_def)
    have "unat (usedSize b') = length (contents b)"
      using t unat_usedSize[OF ok] by (simp add: b'_def length_contents)
    then have "contents b' = contents b"
      by (simp add: contents_def[of b']) (simp add: b'_def block_blit_same)
    moreover have "unat sz \<le> unat (head b')" by (simp add: b'_def)
    ultimately show thesis using run ok by (intro that)
  qed
qed

lemma prepend_ok:
  assumes "sb_ok b" "unat sz \<le> length stuff" "unat sz + length (contents b) \<le> 35840"
  obtains b' where "prepend stuff sz b = Ret b'" "sb_ok b'"
    "contents b' = take (unat sz) stuff @ contents b"
proof -
  have sz: "unat (ucast sz :: size_t) = unat sz" "unat sz < 256"
    using unsigned_less[of sz, where ?'a = nat] by (auto simp: unsigned_ucast_eq take_bit_nat_eq_self)
  obtain b1 where b1: "makeHeadroom (ucast sz) b = Ret b1" "sb_ok b1" "contents b1 = contents b"
    "unat sz \<le> unat (head b1)"
    using makeHeadroom_ok[of b "ucast sz"] assms sz by auto
  note u = sb_ok_unat[OF b1(2)] unat_usedSize[OF b1(2)]
  let ?p = "head b1 - ucast sz"
  define b' where "b' = b1\<lparr>cells := blit (cells b1) (unat ?p) (take (unat sz) stuff), head := ?p\<rparr>"
  have p: "unat ?p = unat (head b1) - unat sz"
    using b1(4) sz by (simp add: unat_diff_le word_le_nat_alt)
  have run: "prepend stuff sz b = Ret b'"
    using b1 u p assms(2) by (simp add: prepend_def Let_def b'_def)
  have "unat (tail b1 - ?p) = unat sz + unat (usedSize b1)"
    using p u b1(4) by (subst unat_diff_le) (auto simp: word_le_nat_alt)
  then have used: "unat (usedSize b') = unat sz + unat (usedSize b1)"
    by (simp add: usedSize_def b'_def)
  have len: "length (take (unat sz) stuff) = unat sz"
    using assms(2) by simp
  have ok: "sb_ok b'"
    using p u b1(4) by (intro sb_okI) (auto simp: b'_def)
  have "block (cells b') (unat (head b')) (unat sz) = take (unat sz) stuff"
    using len block_blit_same[of "cells b1" "unat ?p" "take (unat sz) stuff"] by (simp add: b'_def)
  moreover have "block (cells b') (unat (head b') + unat sz) (unat (usedSize b1)) = contents b1"
    using len p b1(4) by (simp add: b'_def contents_def block_blit_after)
  ultimately have "contents b' = take (unat sz) stuff @ contents b"
    using used b1(3) by (simp add: contents_def[of b'] block_split)
  with run ok show thesis by (rule that)
qed

section \<open>The buffer as a queue of bytes\<close>

text \<open>
  What the stream reactors rely on. The operations are those they perform: take the front bytes
  off after sending them, store received bytes behind the data. \<open>room\<close> is the number of bytes a
  caller may store. A run of such operations hands out a prefix of what was put in, whatever
  the sizes of the pieces: the lemma of the locale that makes a relay lossless.
\<close>

datatype 'a fifo_op = Arrive "'a list" | Leave nat

locale byte_fifo =
  fixes invar :: "'b \<Rightarrow> bool"
    and bytes :: "'b \<Rightarrow> 'a list"
    and room :: "'b \<Rightarrow> nat"
    and arrive :: "'a list \<Rightarrow> 'b \<Rightarrow> 'b"
    and leave :: "nat \<Rightarrow> 'b \<Rightarrow> 'b"
  assumes invar_arrive: "invar b \<Longrightarrow> length xs \<le> room b \<Longrightarrow> invar (arrive xs b)"
    and bytes_arrive: "invar b \<Longrightarrow> length xs \<le> room b \<Longrightarrow> bytes (arrive xs b) = bytes b @ xs"
    and invar_leave: "invar b \<Longrightarrow> n \<le> length (bytes b) \<Longrightarrow> invar (leave n b)"
    and bytes_leave: "invar b \<Longrightarrow> n \<le> length (bytes b) \<Longrightarrow> bytes (leave n b) = drop n (bytes b)"
    and room_if_empty: "invar b \<Longrightarrow> bytes b = [] \<Longrightarrow> 0 < room b"
begin

fun legal :: "'b \<Rightarrow> 'a fifo_op list \<Rightarrow> bool" where
  "legal b [] = True"
| "legal b (Arrive xs # ops) = (length xs \<le> room b \<and> legal (arrive xs b) ops)"
| "legal b (Leave n # ops) = (n \<le> length (bytes b) \<and> legal (leave n b) ops)"

fun final :: "'b \<Rightarrow> 'a fifo_op list \<Rightarrow> 'b" where
  "final b [] = b"
| "final b (Arrive xs # ops) = final (arrive xs b) ops"
| "final b (Leave n # ops) = final (leave n b) ops"

fun arrived :: "'a fifo_op list \<Rightarrow> 'a list" where
  "arrived [] = []"
| "arrived (Arrive xs # ops) = xs @ arrived ops"
| "arrived (Leave n # ops) = arrived ops"

fun left :: "'b \<Rightarrow> 'a fifo_op list \<Rightarrow> 'a list" where
  "left b [] = []"
| "left b (Arrive xs # ops) = left (arrive xs b) ops"
| "left b (Leave n # ops) = take n (bytes b) @ left (leave n b) ops"

lemma fifo_run:
  "invar b \<Longrightarrow> legal b ops \<Longrightarrow>
   invar (final b ops) \<and> bytes b @ arrived ops = left b ops @ bytes (final b ops)"
proof (induction ops arbitrary: b)
  case Nil
  then show ?case by simp
next
  case (Cons a ops)
  show ?case
  proof (cases a)
    case (Arrive xs)
    with Cons.prems have "invar (arrive xs b)" "bytes (arrive xs b) = bytes b @ xs"
      by (auto intro: invar_arrive bytes_arrive)
    with Cons Arrive show ?thesis by force
  next
    case (Leave n)
    with Cons.prems have i: "invar (leave n b)" and d: "bytes (leave n b) = drop n (bytes b)"
      by (auto intro: invar_leave bytes_leave)
    with Cons.IH[OF i] Cons.prems Leave
    have "drop n (bytes b) @ arrived ops = left (leave n b) ops @ bytes (final (leave n b) ops)"
      "invar (final (leave n b) ops)" by auto
    moreover have "bytes b = take n (bytes b) @ drop n (bytes b)" by simp
    ultimately show ?thesis using Leave by (metis append.assoc arrived.simps(3) final.simps(3) left.simps(3))
  qed
qed

lemma fifo_prefix:
  assumes "invar b" "legal b ops" "bytes b = []"
  shows "prefix (left b ops) (arrived ops)"
  using fifo_run[OF assms(1,2)] assms(3) by (metis append_Nil prefixI)

end

definition leave_bytes :: "nat \<Rightarrow> streambuf \<Rightarrow> streambuf" where
  "leave_bytes n b = unuse (of_nat n) b"

interpretation sb: byte_fifo sb_ok contents "\<lambda>b. unat (availSize b)" store leave_bytes
proof unfold_locales
  have n: "unat (of_nat n :: size_t) = n" if "sb_ok b" "n \<le> length (contents b)" for n b
    using that sb_ok_unat[of b] by (simp add: length_contents unat_usedSize unat_of_nat)
  fix b n assume "sb_ok b" "n \<le> length (contents b)"
  with n[OF this] show "sb_ok (leave_bytes n b)" "contents (leave_bytes n b) = drop n (contents b)"
    by (auto simp: leave_bytes_def unuse_ok)
qed (auto intro: store_ok avail_if_empty)

end
