(* ===== verification/World.thy ===== *)
theory World
  imports StreamBuffer
begin

text \<open>
  The data of the program: one record or datatype per class of the sources, the heap that holds
  the objects, and the interface to everything that is not program code.

  \<^item> \<open>call\<close> lists the calls into the operating system, into NSS and into the stateful classes of
    libsocks6util; \<open>cret\<close> is what such a call gives back. The environment \<open>env\<close> answers a call
    as a function of the whole history of calls and answers, so an arbitrary deterministic
    environment is a value of \<open>env\<close>, and a theorem for every \<open>env\<close> is a theorem for every
    behaviour of the surroundings. Pure functions of libsocks6msg and libsocks6util (parsing and
    packing messages, recommendations) are further fields of \<open>env\<close>.
    \<open>NssRecv\<close> and \<open>NssSend\<close> are \<open>recv\<close> and \<open>send\<close> issued from the I/O layer below NSS: they are
    recorded apart because they carry ciphertext.
  \<^item> \<open>request\<close>, \<open>authrep_view\<close>: what the getters of a parsed message return. \<open>authreply\<close>,
    \<open>opreply\<close>, \<open>client_request\<close>: a message under construction, with the setter calls made on it.
  \<^item> \<open>reactor\<close> has the fields of the abstract bases Reactor, ListenReactor, StickReactor and
    StreamReactor side by side (a class without one of these bases leaves its fields at the
    values of an empty member) and, in \<open>cls\<close>, its dynamic class with the fields of that class.
  \<^item> \<open>world\<close>: the call history, the poller, and the heap of reactors, TLS objects, sessions,
    supplicants and timers. Objects are named by numbers; a name is never used twice.
\<close>

section \<open>Addresses and messages\<close>

type_synonym rid = nat

datatype address = IPv4 u32 | IPv6 "byte list" | Domain string

record sockaddr =
  sa_addr :: address
  sa_port :: u16

datatype family = AF_INET | AF_INET6 | AF_UNSPEC

datatype reqcode = SOCKS6_REQUEST_NOOP | SOCKS6_REQUEST_CONNECT | SOCKS6_REQUEST_OTHER nat

record request =
  rq_code :: reqcode
  rq_address :: address
  rq_port :: u16
  rq_sessionID :: "byte list option"
  rq_sessionRequested :: bool
  rq_credentials :: "string \<times> string"
  rq_requestedSize :: u32
  rq_token :: "u32 option"
  rq_tfo :: "u16 option"

datatype authcode = SOCKS6_AUTH_REPLY_SUCCESS | SOCKS6_AUTH_REPLY_FAILURE

datatype authopt =
    SessionReject
  | SessionOK
  | SessionSetID "byte list"
  | UserPasswordReply bool
  | IdempotenceAdvertise "u32 \<times> u32"
  | IdempotenceReply bool

record authreply =
  ar_code :: authcode
  ar_opts :: "authopt list"

record authrep_view =
  av_code :: authcode
  av_rejected :: bool
  av_isOK :: bool
  av_sessionID :: "byte list option"
  av_untrusted :: bool
  av_advertised :: "u32 \<times> u32"

datatype opcode =
    SOCKS6_OPERATION_REPLY_SUCCESS
  | SOCKS6_OPERATION_REPLY_FAILURE
  | SOCKS6_OPERATION_REPLY_HOST_UNREACH
  | SOCKS6_OPERATION_REPLY_CMD_NOT_SUPPORTED
  | SOCKS6_OPERATION_REPLY_ADDR_NOT_SUPPORTED
  | SOCKS6_OPERATION_REPLY_OTHER nat

record opreply =
  or_code :: opcode
  or_bind :: "(address \<times> u16) option"
  or_mp :: bool

datatype reqopt =
    OptTFO int
  | OptSessionID "byte list"
  | OptCredentials string string
  | OptSessionRequest
  | OptIdempotenceRequest u32
  | OptToken u32

record client_request =
  cq_code :: reqcode
  cq_dest :: sockaddr
  cq_opts :: "reqopt list"

record recommendation =
  rec_useToken :: bool
  rec_tfoPayload :: size_t
  rec_earlyData :: bool

section \<open>The surroundings\<close>

datatype sockopt =
    SO_REUSEADDR | SO_KEEPALIVE | TCP_FASTOPEN | TCP_FASTOPEN_CONNECT | TCP_NODELAY

datatype shuthow = SHUT_RD | SHUT_WR

datatype epollop = EPOLL_CTL_ADD | EPOLL_CTL_MOD | EPOLL_CTL_DEL

datatype ssl_option =
    SSL_ENABLE_FDX | SSL_ENABLE_SESSION_TICKETS | SSL_ENABLE_FALSE_START | SSL_ENABLE_0RTT_DATA

text \<open>Calls that set up NSS as a whole, and undo that.\<close>

datatype nss_global =
    PR_Init
  | NSS_Init string
  | NSS_Shutdown
  | SSL_ClearSessionCache
  | PR_Cleanup
  | SSL_VersionRangeSetDefault
  | SSL_OptionSetDefault ssl_option
  | SSL_ConfigServerSessionIDCache nat
  | PK11_FindCertFromNickname string
  | PK11_FindKeyByAnyCert
  | SSL_CreateAntiReplayContext
  | CERT_DestroyCertificate
  | SECKEY_DestroyPrivateKey
  | SSL_ReleaseAntiReplayContext

datatype call =
    Recv int nat
  | Send int "byte list"
  | SendToTFO int "byte list" sockaddr
  | NssRecv int nat
  | NssSend int "byte list"
  | Connect int sockaddr
  | SetSockOpt int sockopt int
  | GetSockError int
  | GetSockName int
  | GetPeerName int
  | DupFD int
  | CloseFD int
  | ShutdownFD int shuthow
  | SocketFD family
  | BindFD int sockaddr
  | ListenFD int int
  | Accept4 int
  | EpollCreate
  | EpollCtl epollop int u32
  | EpollWait
  | TimerfdCreate
  | TimerfdSettime int
  | ReadFD int nat
  | ClockNow
  | Rand
  | HasMPTCP int
  | TfoPayloadSize int
  | GetOriginalDestination int
  | SaveSYN int
  | BankNew u32 u32 u32 u32
  | BankGetWindow nat
  | BankWithdraw nat u32
  | WalletNew "u32 \<times> u32"
  | WalletUpdateWindow nat "u32 \<times> u32"
  | WalletExtract nat
  | PR_Read nat nat
  | PR_Write nat "byte list"
  | SSL_ForceHandshake nat
  | SSL_GetChannelInfo nat
  | SSL_Disable0RTT nat
  | SSL_ImportFD nat
  | SSL_ConfigServerCert nat
  | SSL_SetAntiReplayContext nat
  | SSL_SetURL nat string
  | SSL_SetCanFalseStart nat
  | SSL_ResetHandshake nat bool
  | PR_Close nat
  | NssGlobal nss_global

text \<open>
  The answer: \<open>c_rc\<close> is the return value (negative for failure, with the error in \<open>c_errno\<close>, or in
  \<open>c_prerr\<close> for an NSS call), the other fields are output parameters.
\<close>

record cret =
  c_rc :: int
  c_errno :: errno
  c_data :: "byte list"
  c_window :: "u32 \<times> u32"
  c_addr :: sockaddr
  c_prerr :: prerror
  c_flag :: bool
  c_out :: "int \<times> u32"

type_synonym history = "(call \<times> cret) list"

text \<open>
  What an NSS function does before it returns: it calls back into the I/O layer the program
  registered for the descriptor.
\<close>

datatype nss_callback =
    CbRecv nat
  | CbRead nat
  | CbSend "byte list"
  | CbWrite "byte list"
  | CbGetName
  | CbGetPeerName
  | CbGetSocketOption bool
  | CbOther

record env =
  os :: "history \<Rightarrow> call \<Rightarrow> cret"
  nssCallbacks :: "history \<Rightarrow> call \<Rightarrow> nss_callback list"
  parseRequest :: "byte list \<Rightarrow> exn + request \<times> nat"
  parseAuthReply :: "byte list \<Rightarrow> exn + authrep_view \<times> nat"
  parseOpReply :: "byte list \<Rightarrow> exn + opcode \<times> nat"
  packAuthReply :: "authreply \<Rightarrow> nat \<Rightarrow> exn + byte list"
  packOpReply :: "opreply \<Rightarrow> nat \<Rightarrow> exn + byte list"
  packRequest :: "client_request \<Rightarrow> nat \<Rightarrow> exn + byte list"
  versionBytes :: "byte list"
  addrIsZero :: "address \<Rightarrow> bool"
  saFamily :: "sockaddr \<Rightarrow> family"
  connectErrnoToReplyCode :: "int \<Rightarrow> opcode"
  recommend :: "client_request \<Rightarrow> bool \<Rightarrow> size_t \<Rightarrow> recommendation"
  tokenSpent :: "recommendation \<Rightarrow> bool \<Rightarrow> recommendation"
  quadZero :: address
  emptySockAddr :: sockaddr
  inetAddr :: "string \<Rightarrow> u32"
  fuel :: nat

text \<open>
  \<open>fuel\<close> is the number of passes for which loops without a bound of their own are followed. The
  theorems hold for every value of it.

  What the manual pages promise of the calls that move data, and of NSS's counterparts: no more
  is transferred than was asked for, and a descriptor that does not exist transfers nothing.
\<close>

definition recv_ok :: "call \<Rightarrow> cret \<Rightarrow> bool" where
  "recv_ok c r \<longleftrightarrow> (case c of
       Recv fd n \<Rightarrow> 0 \<le> c_rc r \<longrightarrow>
         0 \<le> fd \<and> nat (c_rc r) \<le> n \<and> length (c_data r) = nat (c_rc r)
     | PR_Read _ n \<Rightarrow> 0 \<le> c_rc r \<longrightarrow> nat (c_rc r) \<le> n \<and> length (c_data r) = nat (c_rc r)
     | _ \<Rightarrow> True)"

definition send_ok :: "call \<Rightarrow> cret \<Rightarrow> bool" where
  "send_ok c r \<longleftrightarrow> (case c of
       Send fd xs \<Rightarrow> 0 \<le> c_rc r \<longrightarrow> 0 \<le> fd \<and> c_rc r \<le> int (length xs)
     | SendToTFO fd xs _ \<Rightarrow> 0 \<le> c_rc r \<longrightarrow> 0 \<le> fd \<and> c_rc r \<le> int (length xs)
     | PR_Write _ xs \<Rightarrow> 0 \<le> c_rc r \<longrightarrow> c_rc r \<le> int (length xs)
     | _ \<Rightarrow> True)"

definition io_ok :: "env \<Rightarrow> bool" where
  "io_ok E \<longleftrightarrow> (\<forall>h c. recv_ok c (os E h c) \<and> send_ok c (os E h c))"

section \<open>Objects\<close>

record tlscontext =
  tc_server :: bool
  tc_antiReplay :: bool
  tc_sni :: string

datatype HandshakeState = S_WANT_EARLY | S_WANT_HANDSHAKE | S_LAISEZ_FAIRE

record tls_object =
  hs_state :: HandshakeState
  earlyWritten :: int
  readFD :: int
  writeFD :: int

record socket =
  sk_fd :: int
  sk_tls :: "nat option"

datatype StreamState = SS_RECEIVING | SS_SENDING

record password_checker =
  pc_user :: string
  pc_password :: string

record server_session =
  ss_id :: u64
  ss_tokenBank :: "nat option"

record client_session =
  cs_id :: "byte list"
  cs_untrusted :: bool
  cs_wallet :: "nat option"

record session_supplicant =
  sp_proxifier :: rid
  sp_done :: bool

record timer_object =
  tm_tracker :: "rid option"
  tm_arm :: int
  tm_interval :: int
  tm_reactor :: rid

record proxy_data =
  px_checker :: "password_checker option"
  px_sessions :: "u64 \<rightharpoonup> nat"
  px_banks :: "string \<rightharpoonup> nat option"
  px_serverCtx :: "tlscontext option"

datatype ProxyUpState = PU_READING_REQ | PU_READING_TFO_PAYLOAD | PU_CONNECTING | PU_STREAM

record proxyup_data =
  pu_proxy :: rid
  pu_state :: ProxyUpState
  pu_tfoPayload :: size_t
  pu_request :: "request option"
  pu_reply :: opreply
  pu_addr :: "address option"

record authserver_data =
  as_upstreamer :: rid
  as_reply :: "authreply option"

record proxifier_data =
  pf_proxyAddr :: sockaddr
  pf_defer :: bool
  pf_username :: string
  pf_password :: string
  pf_session :: "nat option"
  pf_supplicationLock :: bool
  pf_clientCtx :: "tlscontext option"

datatype ProxifierUpState = XU_CONNECTING | XU_HANDSHAKING | XU_SENDING_REQ | XU_STREAM

record proxifierup_data =
  xu_proxifier :: rid
  xu_state :: ProxifierUpState
  xu_session :: "nat option"
  xu_dest :: sockaddr
  xu_supplicant :: "nat option"

datatype ProxifierDownState = XD_WAITING_FOR_AUTH_REP | XD_WAITING_FOR_OP_REP | XD_STREAM

record proxifierdown_data =
  xd_proxifier :: rid
  xd_upstreamer :: "rid option"
  xd_state :: ProxifierDownState
  xd_supplicant :: "nat option"

datatype AgentState = SA_CONNECTING | SA_SENDING_REQ | SA_RECEIVING_AUTH_REP

record agent_data =
  sg_proxifier :: rid
  sg_state :: AgentState
  sg_supplicant :: nat

datatype rclass =
    CProxy proxy_data
  | CProxifier proxifier_data
  | CProxyUpstreamer proxyup_data
  | CAuthServer authserver_data
  | CSimpleProxyDownstreamer
  | CConnectProxyDownstreamer rid
  | CProxifierUpstreamer proxifierup_data
  | CProxifierDownstreamer proxifierdown_data
  | CReadableDeferReactor rid
  | CSessionSupplicationAgent agent_data
  | CTFOCookieSupplicationAgent rid
  | CTimeoutReactor "(int \<times> nat list) list"
  | CResolver

record reactor =
  active :: bool
  listenFD :: int
  sock :: socket
  srcSock :: socket
  dstSock :: socket
  buf :: streambuf
  streamState :: StreamState
  cls :: rclass

definition no_socket :: socket where
  "no_socket = \<lparr>sk_fd = -1, sk_tls = None\<rparr>"

definition new_reactor :: "rclass \<Rightarrow> reactor" where
  "new_reactor c = \<lparr>active = True, listenFD = -1, sock = no_socket, srcSock = no_socket,
     dstSock = no_socket, buf = new_buffer, streamState = SS_RECEIVING, cls = c\<rparr>"

section \<open>The state of the program\<close>

record fd_entry =
  fe_reactor :: "rid option"
  fe_registered :: bool

datatype BlockDirection = BD_IN | BD_OUT

record world =
  hist :: history
  fdEntries :: "nat \<Rightarrow> fd_entry"
  fdCount :: nat
  alive :: bool
  reactors :: "rid \<rightharpoonup> reactor"
  nextRid :: rid
  tlsObjs :: "nat \<rightharpoonup> tls_object"
  nextTls :: nat
  ssessions :: "nat \<rightharpoonup> server_session"
  nextSS :: nat
  csessions :: "nat \<rightharpoonup> client_session"
  nextCS :: nat
  supplicants :: "nat \<rightharpoonup> session_supplicant"
  nextSP :: nat
  timers :: "nat \<rightharpoonup> timer_object"
  nextTM :: nat
  blockDirection :: BlockDirection
  prError :: prerror

type_synonym 'a M = "(world, 'a) meth"

definition no_entry :: fd_entry where
  "no_entry = \<lparr>fe_reactor = None, fe_registered = False\<rparr>"

section \<open>Access to the surroundings and the heap\<close>

definition extcall :: "env \<Rightarrow> call \<Rightarrow> cret M" where
  "extcall E c = (\<lambda>w. let r = os E (hist w) c in (Ret r, w\<lparr>hist := hist w @ [(c, r)]\<rparr>))"

text \<open>A call whose failure is reported as \<open>std::system_error\<close>.\<close>

definition checked :: "env \<Rightarrow> call \<Rightarrow> cret M" where
  "checked E c = bindM (extcall E c) (\<lambda>r.
     if c_rc r < 0 then throw (SystemError (c_errno r)) else ret r)"

definition getR :: "rid \<Rightarrow> reactor M" where
  "getR r = (\<lambda>w. case reactors w r of
     None \<Rightarrow> (Abort DanglingReference, w) | Some x \<Rightarrow> (Ret x, w))"

definition modR :: "rid \<Rightarrow> (reactor \<Rightarrow> reactor) \<Rightarrow> unit M" where
  "modR r f = (\<lambda>w. case reactors w r of
     None \<Rightarrow> (Abort DanglingReference, w)
   | Some x \<Rightarrow> (Ret (), w\<lparr>reactors := (reactors w)(r \<mapsto> f x)\<rparr>))"

definition newR :: "reactor \<Rightarrow> rid M" where
  "newR x = (\<lambda>w. (Ret (nextRid w),
     w\<lparr>reactors := (reactors w)(nextRid w \<mapsto> x), nextRid := Suc (nextRid w)\<rparr>))"

definition deleteR :: "rid \<Rightarrow> unit M" where
  "deleteR r = modify (\<lambda>w. w\<lparr>reactors := (reactors w)(r := None)\<rparr>)"

definition modBuf :: "rid \<Rightarrow> (streambuf \<Rightarrow> streambuf) \<Rightarrow> unit M" where
  "modBuf r f = modR r (\<lambda>x. x\<lparr>buf := f (buf x)\<rparr>)"

lemma run_extcall [exec_simps]:
  "extcall E c w = (Ret (os E (hist w) c), w\<lparr>hist := hist w @ [(c, os E (hist w) c)]\<rparr>)"
  by (simp add: extcall_def Let_def)

lemma run_getR [exec_simps]:
  "reactors w r = Some x \<Longrightarrow> getR r w = (Ret x, w)"
  "reactors w r = None \<Longrightarrow> getR r w = (Abort DanglingReference, w)"
  by (simp_all add: getR_def)

lemma run_modR [exec_simps]:
  "reactors w r = Some x \<Longrightarrow> modR r f w = (Ret (), w\<lparr>reactors := (reactors w)(r \<mapsto> f x)\<rparr>)"
  "reactors w r = None \<Longrightarrow> modR r f w = (Abort DanglingReference, w)"
  by (simp_all add: modR_def)

lemma run_newR [exec_simps]:
  "newR x w = (Ret (nextRid w),
     w\<lparr>reactors := (reactors w)(nextRid w \<mapsto> x), nextRid := Suc (nextRid w)\<rparr>)"
  by (simp add: newR_def)

section \<open>Histories\<close>

text \<open>The history only grows: the first instance of the contract on relations between states.\<close>

definition hist_grows :: "world \<Rightarrow> world \<Rightarrow> bool" where
  "hist_grows w w' \<longleftrightarrow> prefix (hist w) (hist w')"

interpretation hg: world_preorder hist_grows
  by unfold_locales (auto simp: hist_grows_def)

definition new_calls :: "world \<Rightarrow> world \<Rightarrow> history" where
  "new_calls w w' = drop (length (hist w)) (hist w')"

lemma hist_grows_new_calls: "hist_grows w w' \<Longrightarrow> hist w' = hist w @ new_calls w w'"
  by (auto simp: hist_grows_def new_calls_def prefix_def)

lemma new_calls_append [simp]: "hist w' = hist w @ h \<Longrightarrow> new_calls w w' = h"
  by (simp add: new_calls_def)

lemma new_calls_trans:
  "hist_grows u v \<Longrightarrow> hist_grows v w \<Longrightarrow> new_calls u w = new_calls u v @ new_calls v w"
  by (auto simp: hist_grows_def new_calls_def prefix_def)

end
