(* ===== verification/Reactor.thy ===== *)
theory Reactor
  imports World
begin

text \<open>
  \<^verbatim>\<open>core/uniqfd.hh\<close>, \<^verbatim>\<open>core/reactor.{hh,cc}\<close>, \<^verbatim>\<open>core/poller.{hh,cc}\<close>,
  \<^verbatim>\<open>core/rescheduleexception.hh\<close> and every \<open>deactivate\<close> method: file-descriptor owners, the
  activity flag, the poller with its table of descriptors, and \<open>runAs\<close>, which turns an
  exception of a reactor into a registration or into the end of the reactor.

  The program runs its event loop on one thread (\<open>main\<close> calls \<open>threadFun\<close> itself and starts no
  other thread), so the critical sections of its spin mutexes are single steps here.
\<close>

section \<open>Owners of file descriptors\<close>

definition UniqFD_assign :: "int \<Rightarrow> int \<Rightarrow> int M" where
  "UniqFD_assign this fd = seqM (assertM (this = -1)) (ret fd)"

definition UniqFD_move :: "int \<Rightarrow> int \<times> int" where
  "UniqFD_move other = (other, -1)"

definition UniqFD_reset :: "env \<Rightarrow> int \<Rightarrow> int M" where
  "UniqFD_reset E fd =
     (if fd \<noteq> -1 then bindM (extcall E (CloseFD fd)) (\<lambda>_. ret (-1)) else ret fd)"

definition UniqFD_destroy :: "env \<Rightarrow> int \<Rightarrow> unit M" where
  "UniqFD_destroy E fd =
     (if fd \<noteq> -1 then bindM (extcall E (CloseFD fd)) (\<lambda>_. ret ()) else ret ())"

definition UniqRecvFD_move_assign :: "int \<Rightarrow> int \<Rightarrow> (int \<times> int) M" where
  "UniqRecvFD_move_assign this other = seqM (assertM (this = -1)) (ret (other, -1))"

definition UniqRecvFD_reset :: "env \<Rightarrow> int \<Rightarrow> int M" where
  "UniqRecvFD_reset E fd =
     (if fd \<noteq> -1
      then bindM (extcall E (ShutdownFD fd SHUT_RD)) (\<lambda>_.
           bindM (extcall E (CloseFD fd)) (\<lambda>_. ret (-1)))
      else ret fd)"

definition UniqRecvFD_destroy :: "env \<Rightarrow> int \<Rightarrow> unit M" where
  "UniqRecvFD_destroy E fd =
     seqM (if fd \<noteq> -1 then bindM (extcall E (ShutdownFD fd SHUT_RD)) (\<lambda>_. ret ()) else ret ())
          (UniqFD_destroy E fd)"

definition UniqSendFD_move_assign :: "int \<Rightarrow> int \<Rightarrow> (int \<times> int) M" where
  "UniqSendFD_move_assign this other = seqM (assertM (this = -1)) (ret (other, -1))"

definition UniqSendFD_reset :: "env \<Rightarrow> int \<Rightarrow> int M" where
  "UniqSendFD_reset E fd =
     (if fd \<noteq> -1
      then bindM (extcall E (ShutdownFD fd SHUT_WR)) (\<lambda>_.
           bindM (extcall E (CloseFD fd)) (\<lambda>_. ret (-1)))
      else ret fd)"

definition UniqSendFD_destroy :: "env \<Rightarrow> int \<Rightarrow> unit M" where
  "UniqSendFD_destroy E fd =
     seqM (if fd \<noteq> -1 then bindM (extcall E (ShutdownFD fd SHUT_WR)) (\<lambda>_. ret ()) else ret ())
          (UniqFD_destroy E fd)"

section \<open>The poller's table\<close>

definition EPOLLIN :: u32 where "EPOLLIN = 1"
definition EPOLLOUT :: u32 where "EPOLLOUT = 4"
definition EPOLLRDHUP :: u32 where "EPOLLRDHUP = 0x2000"
definition EPOLLONESHOT :: u32 where "EPOLLONESHOT = 0x40000000"

definition IN_EVENTS :: u32 where
  "IN_EVENTS = EPOLLIN OR EPOLLRDHUP"

definition OUT_EVENTS :: u32 where
  "OUT_EVENTS = EPOLLOUT"

definition Poller_new :: "env \<Rightarrow> nat \<Rightarrow> unit M" where
  "Poller_new E expectedFDs =
     bindM (extcall E EpollCreate) (\<lambda>r.
       if c_rc r < 0 then throw (SystemError (c_errno r))
       else modify (\<lambda>w. w\<lparr>fdEntries := (\<lambda>_. no_entry), fdCount := expectedFDs, alive := True\<rparr>))"

definition isActive :: "rid \<Rightarrow> bool M" where
  "isActive r = bindM (getR r) (\<lambda>x. ret (active x))"

definition runIfActive :: "rid \<Rightarrow> unit M \<Rightarrow> bool M" where
  "runIfActive r lambda = bindM (isActive r) (\<lambda>a.
     if \<not> a then ret False else seqM lambda (ret True))"

definition set_entry :: "nat \<Rightarrow> fd_entry \<Rightarrow> unit M" where
  "set_entry n e = modify (\<lambda>w. w\<lparr>fdEntries := (fdEntries w)(n := e)\<rparr>)"

definition Poller_add :: "env \<Rightarrow> rid \<Rightarrow> int \<Rightarrow> u32 \<Rightarrow> unit M" where
  "Poller_add E r fd events = bindM (runIfActive r (
     if fd < 0 then ret ()
     else bindM (gets fdCount) (\<lambda>size.
       if int size \<le> fd then throw (RuntimeError ''Maximum number of FDs exceeded'')
       else bindM (gets (\<lambda>w. fe_registered (fdEntries w (nat fd)))) (\<lambda>registered.
         let epollOp = (if registered then EPOLL_CTL_MOD else EPOLL_CTL_ADD)
         in bindM (extcall E (EpollCtl epollOp fd (events OR EPOLLONESHOT))) (\<lambda>rc.
              if c_rc rc < 0 then throw (SystemError (c_errno rc))
              else set_entry (nat fd) \<lparr>fe_reactor = Some r, fe_registered = True\<rparr>)))))
     (\<lambda>_. ret ())"

text \<open>
  The vector access \<open>fdEntries[fd]\<close> is unchecked in C++: an index outside the vector is undefined
  behaviour. \<open>entry_at\<close> makes that visible.
\<close>

definition entry_at :: "int \<Rightarrow> fd_entry M" where
  "entry_at fd = (\<lambda>w. if 0 \<le> fd \<and> fd < int (fdCount w) then (Ret (fdEntries w (nat fd)), w)
                      else (Abort OutOfBounds, w))"

definition Poller_remove :: "env \<Rightarrow> int \<Rightarrow> bool \<Rightarrow> unit M" where
  "Poller_remove E fd force =
     bindM (if fd < 0 then ret True
            else bindM (entry_at fd) (\<lambda>e. ret (\<not> fe_registered e))) (\<lambda>unregistered.
       if unregistered \<and> \<not> force then ret ()
       else bindM (extcall E (EpollCtl EPOLL_CTL_DEL fd 0)) (\<lambda>rc.
         if c_rc rc < 0 \<and> c_errno rc \<noteq> ENOENT then throw (SystemError (c_errno rc))
         else bindM (entry_at fd) (\<lambda>_. set_entry (nat fd) no_entry)))"

definition Poller_stop :: "unit M" where
  "Poller_stop = modify (\<lambda>w. w\<lparr>alive := False\<rparr>)"

section \<open>Deactivation\<close>

definition Reactor_deactivate :: "rid \<Rightarrow> unit M" where
  "Reactor_deactivate r = modR r (\<lambda>x. x\<lparr>active := False\<rparr>)"

definition ListenReactor_deactivate :: "env \<Rightarrow> rid \<Rightarrow> unit M" where
  "ListenReactor_deactivate E r = seqM (Reactor_deactivate r)
     (bindM (getR r) (\<lambda>x. Poller_remove E (listenFD x) False))"

definition StickReactor_deactivate :: "env \<Rightarrow> rid \<Rightarrow> unit M" where
  "StickReactor_deactivate E r = seqM (Reactor_deactivate r)
     (bindM (getR r) (\<lambda>x. Poller_remove E (sk_fd (sock x)) False))"

definition StreamReactor_deactivate :: "env \<Rightarrow> rid \<Rightarrow> unit M" where
  "StreamReactor_deactivate E r = seqM (Reactor_deactivate r)
     (bindM (getR r) (\<lambda>x. seqM (Poller_remove E (sk_fd (srcSock x)) False)
                              (Poller_remove E (sk_fd (dstSock x)) False)))"

definition TimeoutReactor_deactivate :: "env \<Rightarrow> rid \<Rightarrow> unit M" where
  "TimeoutReactor_deactivate E r = seqM (Reactor_deactivate r)
     (bindM (getR r) (\<lambda>x. Poller_remove E (listenFD x) False))"

definition AuthServer_deactivate :: "env \<Rightarrow> rid \<Rightarrow> rid \<Rightarrow> unit M" where
  "AuthServer_deactivate E r upstreamer =
     seqM (StickReactor_deactivate E r) (StreamReactor_deactivate E upstreamer)"

text \<open>The virtual method: which override runs is decided by the dynamic class.\<close>

definition deactivate :: "env \<Rightarrow> rid \<Rightarrow> unit M" where
  "deactivate E r = bindM (getR r) (\<lambda>x. case cls x of
       CProxy _ \<Rightarrow> ListenReactor_deactivate E r
     | CProxifier _ \<Rightarrow> ListenReactor_deactivate E r
     | CAuthServer a \<Rightarrow> AuthServer_deactivate E r (as_upstreamer a)
     | CSessionSupplicationAgent _ \<Rightarrow> StickReactor_deactivate E r
     | CTFOCookieSupplicationAgent _ \<Rightarrow> StickReactor_deactivate E r
     | CTimeoutReactor _ \<Rightarrow> TimeoutReactor_deactivate E r
     | CReadableDeferReactor _ \<Rightarrow> Reactor_deactivate r
     | CResolver \<Rightarrow> Reactor_deactivate r
     | _ \<Rightarrow> StreamReactor_deactivate E r)"

section \<open>Running a reactor\<close>

definition Poller_runAs :: "env \<Rightarrow> rid \<Rightarrow> unit M \<Rightarrow> unit M" where
  "Poller_runAs E r functor = tryM functor (\<lambda>e. case e of
       RescheduleException fd events \<Rightarrow> Poller_add E r fd events
     | _ \<Rightarrow> deactivate E r)"

definition Poller_assign :: "env \<Rightarrow> rid \<Rightarrow> unit M \<Rightarrow> unit M" where
  "Poller_assign E r start = Poller_runAs E r start"

fun Poller_join_loop :: "env \<Rightarrow> nat list \<Rightarrow> unit M" where
  "Poller_join_loop E [] = ret ()"
| "Poller_join_loop E (n # ns) =
     seqM (bindM (gets (\<lambda>w. fe_reactor (fdEntries w n))) (\<lambda>e.
             case e of None \<Rightarrow> ret () | Some r \<Rightarrow> deactivate E r))
          (Poller_join_loop E ns)"

definition Poller_join :: "env \<Rightarrow> unit M" where
  "Poller_join E = bindM (gets fdCount) (\<lambda>size. Poller_join_loop E [0..<size])"

text \<open>
  One pass of the event loop. \<open>process\<close> is the virtual method of the reactors. The value says
  whether the loop goes on: the \<open>return\<close> on an inactive reactor leaves the loop for good.
\<close>

definition threadFun_pass :: "env \<Rightarrow> (rid \<Rightarrow> int \<Rightarrow> u32 \<Rightarrow> unit M) \<Rightarrow> bool M" where
  "threadFun_pass E process =
     bindM (extcall E EpollWait) (\<lambda>rc.
       if c_rc rc = 0 then ret True
       else if c_rc rc < 0 then
         (if c_errno rc = EINTR then ret True else throw (SystemError (c_errno rc)))
       else let (fd, events) = c_out rc
         in bindM (entry_at fd) (\<lambda>e.
            seqM (set_entry (nat fd) (e\<lparr>fe_reactor := None\<rparr>))
            (case fe_reactor e of
               None \<Rightarrow> abort NullDereference
             | Some r \<Rightarrow> bindM (isActive r) (\<lambda>a.
                 if \<not> a then ret False
                 else seqM (Poller_runAs E r (process r fd events)) (ret True)))))"

text \<open>
  The loop, cut off after \<open>n\<close> passes: \<open>Ret True\<close> is a loop that is still running, \<open>Ret False\<close>
  one that has returned.
\<close>

fun threadFun :: "env \<Rightarrow> (rid \<Rightarrow> int \<Rightarrow> u32 \<Rightarrow> unit M) \<Rightarrow> nat \<Rightarrow> bool M" where
  "threadFun E process 0 = ret True"
| "threadFun E process (Suc n) = bindM (gets alive) (\<lambda>a.
     if \<not> a then ret False
     else bindM (threadFun_pass E process) (\<lambda>go.
       if go then threadFun E process n else ret False))"

section \<open>Closed forms of the poller's operations\<close>

lemma Poller_add_eq:
  assumes "reactors w r = Some x"
  shows "Poller_add E r fd ev w =
     (if \<not> active x \<or> fd < 0 then (Ret (), w)
      else if int (fdCount w) \<le> fd
        then (Throw (RuntimeError ''Maximum number of FDs exceeded''), w)
      else let c = EpollCtl (if fe_registered (fdEntries w (nat fd)) then EPOLL_CTL_MOD
                             else EPOLL_CTL_ADD) fd (ev OR EPOLLONESHOT);
               rc = os E (hist w) c;
               w' = w\<lparr>hist := hist w @ [(c, rc)]\<rparr>
           in if c_rc rc < 0 then (Throw (SystemError (c_errno rc)), w')
              else (Ret (), w'\<lparr>fdEntries := (fdEntries w)
                     (nat fd := \<lparr>fe_reactor = Some r, fe_registered = True\<rparr>)\<rparr>))"
  using assms
  by (simp add: Poller_add_def runIfActive_def isActive_def bindM_def seqM_def run_basic run_getR
      run_extcall set_entry_def Let_def)

lemma Poller_remove_eq:
  "Poller_remove E fd False w =
     (if fd < 0 then (Ret (), w)
      else if int (fdCount w) \<le> fd then (Abort OutOfBounds, w)
      else if \<not> fe_registered (fdEntries w (nat fd)) then (Ret (), w)
      else let c = EpollCtl EPOLL_CTL_DEL fd 0;
               rc = os E (hist w) c;
               w' = w\<lparr>hist := hist w @ [(c, rc)]\<rparr>
           in if c_rc rc < 0 \<and> c_errno rc \<noteq> ENOENT then (Throw (SystemError (c_errno rc)), w')
              else (Ret (), w'\<lparr>fdEntries := (fdEntries w)(nat fd := no_entry)\<rparr>))"
  by (simp add: Poller_remove_def entry_at_def bindM_def run_basic run_extcall set_entry_def Let_def)

lemmas uniqfd_defs = UniqFD_assign_def UniqFD_reset_def UniqFD_destroy_def
  UniqRecvFD_move_assign_def UniqRecvFD_reset_def UniqRecvFD_destroy_def
  UniqSendFD_move_assign_def UniqSendFD_reset_def UniqSendFD_destroy_def

lemmas deactivate_defs = Reactor_deactivate_def ListenReactor_deactivate_def
  StickReactor_deactivate_def StreamReactor_deactivate_def TimeoutReactor_deactivate_def
  AuthServer_deactivate_def

section \<open>Names and activity: what no method undoes\<close>

text \<open>
  Which class an object has, as a number. The relation \<open>heap_grows\<close>: names are handed out once,
  an object keeps its class, and a deactivated reactor is never active again.
\<close>

fun class_tag :: "rclass \<Rightarrow> nat" where
  "class_tag (CProxy _) = 0"
| "class_tag (CProxifier _) = 1"
| "class_tag (CProxyUpstreamer _) = 2"
| "class_tag (CAuthServer _) = 3"
| "class_tag CSimpleProxyDownstreamer = 4"
| "class_tag (CConnectProxyDownstreamer _) = 5"
| "class_tag (CProxifierUpstreamer _) = 6"
| "class_tag (CProxifierDownstreamer _) = 7"
| "class_tag (CReadableDeferReactor _) = 8"
| "class_tag (CSessionSupplicationAgent _) = 9"
| "class_tag (CTFOCookieSupplicationAgent _) = 10"
| "class_tag (CTimeoutReactor _) = 11"
| "class_tag CResolver = 12"

definition object_after :: "reactor \<Rightarrow> reactor \<Rightarrow> bool" where
  "object_after x x' \<longleftrightarrow> (active x' \<longrightarrow> active x) \<and> class_tag (cls x') = class_tag (cls x)"

definition heap_grows :: "world \<Rightarrow> world \<Rightarrow> bool" where
  "heap_grows w w' \<longleftrightarrow> nextRid w \<le> nextRid w' \<and>
     (\<forall>r x'. r < nextRid w \<and> reactors w' r = Some x' \<longrightarrow>
        (\<exists>x. reactors w r = Some x \<and> object_after x x'))"

interpretation heap: world_preorder heap_grows
proof unfold_locales
  fix u v w
  assume uv: "heap_grows u v" and vw: "heap_grows v w"
  show "heap_grows u w"
    unfolding heap_grows_def
  proof (intro conjI allI impI)
    from uv vw show "nextRid u \<le> nextRid w" by (auto simp: heap_grows_def)
    fix r z assume r: "r < nextRid u \<and> reactors w r = Some z"
    with uv vw obtain y where "reactors v r = Some y" "object_after y z"
      unfolding heap_grows_def by (meson less_le_trans)
    with uv r show "\<exists>x. reactors u r = Some x \<and> object_after x z"
      unfolding heap_grows_def object_after_def by metis
  qed
qed (auto simp: heap_grows_def object_after_def)

end
