(* ===== verification/PollTable.thy ===== *)
theory PollTable
  imports Reactor
begin

text \<open>
  The poller's table against epoll: \<open>epoll_state\<close> reads from the call history which descriptors
  the epoll calls have registered and which of them are armed (every registration is one-shot, so a
  delivered event disarms). Only \<open>epoll_ctl\<close> and \<open>epoll_wait\<close> count: that the kernel also forgets a
  descriptor when its last duplicate is closed is not recorded, here or in the code's table. The
  invariant \<open>poll_inv\<close> says that an entry is marked registered exactly when the epoll calls registered
  its descriptor, and holds a reactor exactly when the descriptor is armed. From it: the right
  \<open>epoll_ctl\<close> operation is chosen, and the event loop never dereferences a null reactor. Outside the
  table the code has no defined behaviour.
\<close>

section \<open>The kernel's view\<close>

definition epoll_step :: "int set \<times> int set \<Rightarrow> call \<times> cret \<Rightarrow> int set \<times> int set" where
  "epoll_step S cr = (case (S, cr) of ((I, A), (c, r)) \<Rightarrow> (case c of
       EpollCtl EPOLL_CTL_ADD fd _ \<Rightarrow> if 0 \<le> c_rc r then (insert fd I, insert fd A) else (I, A)
     | EpollCtl EPOLL_CTL_MOD fd _ \<Rightarrow> if 0 \<le> c_rc r then (I, insert fd A) else (I, A)
     | EpollCtl EPOLL_CTL_DEL fd _ \<Rightarrow>
         if 0 \<le> c_rc r \<or> c_errno r = ENOENT then (I - {fd}, A - {fd}) else (I, A)
     | EpollWait \<Rightarrow> if 0 < c_rc r then (I, A - {fst (c_out r)}) else (I, A)
     | _ \<Rightarrow> (I, A)))"

definition epoll_state :: "history \<Rightarrow> int set \<times> int set" where
  "epoll_state h = foldl epoll_step ({}, {}) h"

definition interest :: "history \<Rightarrow> int set" where
  "interest h = fst (epoll_state h)"

definition armed :: "history \<Rightarrow> int set" where
  "armed h = snd (epoll_state h)"

definition poll_call :: "call \<Rightarrow> bool" where
  "poll_call c \<longleftrightarrow> (case c of EpollCtl _ _ _ \<Rightarrow> True | EpollWait \<Rightarrow> True | _ \<Rightarrow> False)"

text \<open>Calls on what all objects share: the poller, and NSS as a whole.\<close>

definition global_call :: "call \<Rightarrow> bool" where
  "global_call c \<longleftrightarrow> (case c of NssGlobal _ \<Rightarrow> True | _ \<Rightarrow> False)"

definition globals :: "history \<Rightarrow> history" where
  "globals h = filter (global_call \<circ> fst) h"

definition shared_call :: "call \<Rightarrow> bool" where
  "shared_call c \<longleftrightarrow> poll_call c \<or> global_call c"

lemma globals_simps [simp]:
  "globals [] = []" "globals (h @ k) = globals h @ globals k" "globals [(EpollCtl opr fd ev, rc)] = []"
  "globals [(EpollWait, rc)] = []" "globals [(EpollCreate, rc)] = []" "globals [(NssGlobal g, rc)] = [(NssGlobal g, rc)]"
  by (simp_all add: globals_def global_call_def)

lemma globals_other: "\<not> shared_call c \<Longrightarrow> globals [(c, rc)] = []"
  by (simp add: globals_def shared_call_def)

lemma epoll_state_snoc: "epoll_state (h @ [e]) = epoll_step (epoll_state h) e"
  by (simp add: epoll_state_def)

lemma epoll_other:
  assumes "\<not> poll_call c"
  shows "interest (h @ [(c, r)]) = interest h" "armed (h @ [(c, r)]) = armed h"
  using assms by (auto simp: interest_def armed_def epoll_state_snoc epoll_step_def poll_call_def
      split: call.splits prod.splits)

lemma epoll_ctl_add:
  "interest (h @ [(EpollCtl EPOLL_CTL_ADD fd ev, r)]) =
     (if 0 \<le> c_rc r then insert fd (interest h) else interest h)"
  "armed (h @ [(EpollCtl EPOLL_CTL_ADD fd ev, r)]) =
     (if 0 \<le> c_rc r then insert fd (armed h) else armed h)"
  by (auto simp: interest_def armed_def epoll_state_snoc epoll_step_def split: prod.splits)

lemma epoll_ctl_mod:
  "interest (h @ [(EpollCtl EPOLL_CTL_MOD fd ev, r)]) = interest h"
  "armed (h @ [(EpollCtl EPOLL_CTL_MOD fd ev, r)]) =
     (if 0 \<le> c_rc r then insert fd (armed h) else armed h)"
  by (auto simp: interest_def armed_def epoll_state_snoc epoll_step_def split: prod.splits)

lemma epoll_ctl_del:
  "interest (h @ [(EpollCtl EPOLL_CTL_DEL fd ev, r)]) =
     (if 0 \<le> c_rc r \<or> c_errno r = ENOENT then interest h - {fd} else interest h)"
  "armed (h @ [(EpollCtl EPOLL_CTL_DEL fd ev, r)]) =
     (if 0 \<le> c_rc r \<or> c_errno r = ENOENT then armed h - {fd} else armed h)"
  by (auto simp: interest_def armed_def epoll_state_snoc epoll_step_def split: prod.splits)

lemma epoll_wait:
  "interest (h @ [(EpollWait, r)]) = interest h"
  "armed (h @ [(EpollWait, r)]) = (if 0 < c_rc r then armed h - {fst (c_out r)} else armed h)"
  by (auto simp: interest_def armed_def epoll_state_snoc epoll_step_def split: prod.splits)

lemmas epoll_simps = epoll_ctl_add epoll_ctl_mod epoll_ctl_del epoll_wait

section \<open>The invariant\<close>

definition poll_inv :: "world \<Rightarrow> bool" where
  "poll_inv w \<longleftrightarrow>
     (\<forall>n < fdCount w. fe_registered (fdEntries w n) = (int n \<in> interest (hist w)) \<and>
                       (fe_reactor (fdEntries w n) \<noteq> None) = (int n \<in> armed (hist w))) \<and>
     armed (hist w) \<subseteq> {0..<int (fdCount w)}"

lemma poll_inv_new: "poll_inv w'"
  if "Poller_new E n w = (Ret (), w')" "hist w = []" for w w' n
  using that by (auto simp: Poller_new_def exec_simps poll_inv_def no_entry_def
      interest_def armed_def epoll_state_def epoll_step_def split: if_splits)

section \<open>The frame of every method\<close>

text \<open>
  What every method of the program does to the state as a whole, whether it returns or throws: the
  call history is extended, names and classes and the activity flags develop as \<open>heap_grows\<close>
  says, the vector of entries keeps its size, NSS as a whole is left alone, and the poller's table
  stays in step with the kernel.
\<close>

definition frame :: "world \<Rightarrow> world \<Rightarrow> bool" where
  "frame w w' \<longleftrightarrow> hist_grows w w' \<and> heap_grows w w' \<and> fdCount w' = fdCount w \<and>
     globals (hist w') = globals (hist w) \<and> (poll_inv w \<longrightarrow> poll_inv w')"

interpretation fr: world_preorder frame
  by unfold_locales (auto simp: frame_def intro: hg.R_refl heap.R_refl hg.R_trans heap.R_trans)

lemma frame_hist: "keeps frame m \<Longrightarrow> keeps hist_grows m"
  by (simp add: keeps_def frame_def)

lemma frameD:
  assumes "keeps frame m" "m w = (res, w')"
  shows "hist_grows w w'" "heap_grows w w'" "fdCount w' = fdCount w" "poll_inv w \<Longrightarrow> poll_inv w'"
  using keepsD[OF assms(1), of w] assms(2) by (auto simp: frame_def)

lemma frame_extcall [keeps_intro]: "\<not> shared_call c \<Longrightarrow> keeps frame (extcall E c)"
  by (auto simp: keeps_def frame_def exec_simps hist_grows_def heap_grows_def object_after_def
      poll_inv_def epoll_other globals_other shared_call_def)

lemma frame_checked [keeps_intro]: "\<not> shared_call c \<Longrightarrow> keeps frame (checked E c)"
  unfolding checked_def by (intro fr.keeps_rules keeps_intro)

lemma frame_modR [keeps_intro]:
  "(\<And>x. object_after x (f x)) \<Longrightarrow> keeps frame (modR r f)"
  by (auto simp: keeps_def frame_def modR_def hist_grows_def heap_grows_def object_after_def
      poll_inv_def split: option.splits)

lemma frame_basic [keeps_intro]:
  "keeps frame (getR r)" "keeps frame (newR x)" "keeps frame (deleteR r)" "keeps frame (entry_at fd)"
  by (auto simp: keeps_def frame_def exec_simps hist_grows_def heap_grows_def object_after_def
      poll_inv_def getR_def deleteR_def entry_at_def split: option.splits)

lemma frame_modBuf [keeps_intro]: "keeps frame (modBuf r f)"
  unfolding modBuf_def by (intro keeps_intro) (simp add: object_after_def)

lemma shared_call_simps [simp]:
  "\<not> shared_call (CloseFD fd)" "\<not> shared_call (ShutdownFD fd h)" "\<not> shared_call (Recv fd n)"
  "\<not> shared_call (Send fd xs)" "\<not> shared_call (SendToTFO fd xs a)" "\<not> shared_call (Connect fd a)"
  "\<not> shared_call (SetSockOpt fd opt i)" "\<not> shared_call (GetSockError fd)" "\<not> shared_call (GetSockName fd)"
  "\<not> shared_call (DupFD fd)" "\<not> shared_call (SocketFD fam)" "\<not> shared_call (Accept4 fd)"
  "\<not> shared_call (HasMPTCP fd)" "\<not> shared_call Rand" "\<not> shared_call ClockNow"
  "\<not> shared_call (BankNew a1 a2 a3 a4)" "\<not> shared_call (BankGetWindow b)" "\<not> shared_call (BankWithdraw b tok)"
  "\<not> shared_call (PR_Read d n)" "\<not> shared_call (PR_Write d xs)" "\<not> shared_call (ReadFD fd n)"
  "\<not> shared_call (NssRecv fd n)" "\<not> shared_call (NssSend fd xs)" "\<not> shared_call (GetPeerName fd)"
  "\<not> shared_call (SSL_ForceHandshake t)" "\<not> shared_call (SSL_GetChannelInfo t)"
  "\<not> shared_call (SSL_Disable0RTT t)" "\<not> shared_call (SSL_ImportFD t)" "\<not> shared_call (PR_Close t)"
  "\<not> shared_call (SSL_ConfigServerCert t)" "\<not> shared_call (SSL_SetAntiReplayContext t)"
  "\<not> shared_call (SSL_SetURL t str)" "\<not> shared_call (SSL_SetCanFalseStart t)"
  "\<not> shared_call (SSL_ResetHandshake t srv)" "\<not> shared_call (TfoPayloadSize fd)"
  "\<not> shared_call (GetOriginalDestination fd)" "\<not> shared_call (SaveSYN fd)"
  "\<not> shared_call (WalletNew wd)" "\<not> shared_call (WalletUpdateWindow b wd)" "\<not> shared_call (WalletExtract b)"
  "\<not> shared_call (BindFD fd a)" "\<not> shared_call (ListenFD fd n')" "\<not> shared_call TimerfdCreate"
  "\<not> shared_call (TimerfdSettime fd)"
  by (simp_all add: shared_call_def poll_call_def global_call_def)

lemma frame_uniqfd [keeps_intro]:
  "keeps frame (UniqFD_assign a b)" "keeps frame (UniqFD_reset E fd)"
  "keeps frame (UniqFD_destroy E fd)" "keeps frame (UniqRecvFD_reset E fd)"
  "keeps frame (UniqRecvFD_destroy E fd)" "keeps frame (UniqSendFD_reset E fd)"
  "keeps frame (UniqSendFD_destroy E fd)" "keeps frame (UniqRecvFD_move_assign a b)"
  "keeps frame (UniqSendFD_move_assign a b)"
  unfolding uniqfd_defs by (intro fr.keeps_rules keeps_intro shared_call_simps)+

text \<open>Registering: both tables gain the descriptor, or neither does.\<close>

lemma frame_add [keeps_intro]: "keeps frame (Poller_add E r fd ev)"
proof (rule keepsI)
  fix w
  show "frame w (snd (Poller_add E r fd ev w))"
  proof (cases "reactors w r")
    case None
    then show ?thesis
      by (simp add: Poller_add_def runIfActive_def isActive_def exec_simps fr.R_refl)
  next
    case (Some x)
    then show ?thesis
      by (auto simp: Poller_add_eq Let_def frame_def hist_grows_def heap_grows_def object_after_def
          poll_inv_def epoll_simps)
  qed
qed

lemma frame_remove [keeps_intro]: "keeps frame (Poller_remove E fd False)"
  by (rule keepsI)
    (auto simp: Poller_remove_eq Let_def frame_def hist_grows_def heap_grows_def object_after_def
      poll_inv_def epoll_simps no_entry_def)

lemma frame_deactivates [keeps_intro]:
  "keeps frame (Reactor_deactivate r)" "keeps frame (ListenReactor_deactivate E r)"
  "keeps frame (StickReactor_deactivate E r)" "keeps frame (StreamReactor_deactivate E r)"
  "keeps frame (TimeoutReactor_deactivate E r)" "keeps frame (AuthServer_deactivate E r u)"
  unfolding deactivate_defs by (intro fr.keeps_rules keeps_intro; simp add: object_after_def)+

lemma frame_deactivate [keeps_intro]: "keeps frame (deactivate E r)"
  unfolding deactivate_def
  by (intro fr.keeps_rules keeps_intro) (auto split: rclass.split intro: keeps_intro)

lemma frame_runAs [keeps_intro]: "keeps frame m \<Longrightarrow> keeps frame (Poller_runAs E r m)"
  unfolding Poller_runAs_def
  by (intro fr.keeps_rules) (auto split: exn.split intro: keeps_intro)

lemma frame_assign [keeps_intro]: "keeps frame m \<Longrightarrow> keeps frame (Poller_assign E r m)"
  unfolding Poller_assign_def by (rule frame_runAs)

section \<open>The event loop\<close>

text \<open>
  The kernel delivers events for armed descriptors only; the entries point to objects that exist
  (the table owns a reference to them).
\<close>

definition epoll_wait_ok :: "env \<Rightarrow> bool" where
  "epoll_wait_ok E \<longleftrightarrow> (\<forall>h. 0 < c_rc (os E h EpollWait) \<longrightarrow>
     fst (c_out (os E h EpollWait)) \<in> armed h)"

definition entries_live :: "world \<Rightarrow> bool" where
  "entries_live w \<longleftrightarrow> (\<forall>n < fdCount w. \<forall>r. fe_reactor (fdEntries w n) = Some r \<longrightarrow>
     reactors w r \<noteq> None)"

text \<open>The state in which the reactor of an event runs: the event is recorded, its entry cleared.\<close>

definition after_event :: "env \<Rightarrow> world \<Rightarrow> world" where
  "after_event E w = (let rc = os E (hist w) EpollWait; n = nat (fst (c_out rc))
     in w\<lparr>hist := hist w @ [(EpollWait, rc)],
          fdEntries := (fdEntries w)(n := (fdEntries w n)\<lparr>fe_reactor := None\<rparr>)\<rparr>)"

lemma poll_inv_after_event:
  assumes "poll_inv w" "epoll_wait_ok E" "0 < c_rc (os E (hist w) EpollWait)"
  shows "poll_inv (after_event E w)"
  using assms by (auto simp: poll_inv_def after_event_def Let_def epoll_simps epoll_wait_ok_def)

lemma event_has_reactor:
  assumes "poll_inv w" "entries_live w" "epoll_wait_ok E" "0 < c_rc (os E (hist w) EpollWait)"
  obtains r x where
    "0 \<le> fst (c_out (os E (hist w) EpollWait))"
    "fst (c_out (os E (hist w) EpollWait)) < int (fdCount w)"
    "fe_reactor (fdEntries w (nat (fst (c_out (os E (hist w) EpollWait))))) = Some r"
    "reactors w r = Some x"
proof -
  let ?fd = "fst (c_out (os E (hist w) EpollWait))"
  from assms(3,4) have a: "?fd \<in> armed (hist w)" by (simp add: epoll_wait_ok_def)
  with assms(1) have fd: "0 \<le> ?fd" "?fd < int (fdCount w)"
    by (auto simp: poll_inv_def)
  with a assms(1) have "fe_reactor (fdEntries w (nat ?fd)) \<noteq> None"
    by (simp add: poll_inv_def)
  then obtain r where r: "fe_reactor (fdEntries w (nat ?fd)) = Some r" by blast
  moreover have "nat ?fd < fdCount w" using fd by simp
  ultimately obtain x where "reactors w r = Some x"
    using assms(2) unfolding entries_live_def by blast
  with fd r show thesis by (rule that)
qed

lemma threadFun_pass_eq:
  assumes "0 < c_rc (os E (hist w) EpollWait)"
    and "c_out (os E (hist w) EpollWait) = (fd, ev)"
    and "0 \<le> fd" "fd < int (fdCount w)"
    and "fe_reactor (fdEntries w (nat fd)) = Some r" "reactors w r = Some x"
  shows "threadFun_pass E process w =
    (if active x then seqM (Poller_runAs E r (process r fd ev)) (ret True) (after_event E w)
     else (Ret False, after_event E w))"
  using assms
  by (simp add: threadFun_pass_def bindM_def seqM_def run_basic run_extcall entry_at_def
      set_entry_def isActive_def run_getR after_event_def Let_def)

end
