(* ===== verification/Auth.thy ===== *)
theory Auth
  imports PollTable
begin

text \<open>
  Authentication on the server side: \<^verbatim>\<open>authentication/simplepasswordchecker.{hh,cc}\<close>,
  \<^verbatim>\<open>proxy/serversession.hh\<close>, the session and token-bank tables of \<^verbatim>\<open>proxy/proxy.{hh,cc}\<close> and
  \<^verbatim>\<open>proxy/authutil.cc\<close>. A session is an object on the heap that the proxy finds by its 64-bit
  identifier; on the wire the identifier is the 8 bytes of its memory image (little endian).
  The token banks belong to libsocks6util: making one, asking for its window and withdrawing a
  token are calls to the surroundings.
\<close>

section \<open>Password checking\<close>

definition SimplePasswordChecker_new :: "string \<times> string \<Rightarrow> exn + password_checker" where
  "SimplePasswordChecker_new credentials =
     (if \<exists>s \<in> {fst credentials, snd credentials}. length s < 1 \<or> 255 < length s
      then Inl (LengthError ''Bad username or password length'')
      else Inr \<lparr>pc_user = fst credentials, pc_password = snd credentials\<rparr>)"

definition check :: "password_checker \<Rightarrow> string \<times> string \<Rightarrow> bool" where
  "check this credentials = (case credentials of (user, password) \<Rightarrow>
     pc_user this = user \<and> pc_password this = password)"

section \<open>Session identifiers\<close>

definition u64_bytes :: "u64 \<Rightarrow> byte list" where
  "u64_bytes n = map (\<lambda>i. ucast (drop_bit (8 * i) n)) [0..<8]"

fun bytes_u64 :: "byte list \<Rightarrow> u64" where
  "bytes_u64 [] = 0"
| "bytes_u64 (b # bs) = ucast b OR push_bit 8 (bytes_u64 bs)"

lemma bit_bytes_u64:
  "bit (bytes_u64 bs) n \<longleftrightarrow> n < 64 \<and> n div 8 < length bs \<and> bit (bs ! (n div 8)) (n mod 8)"
proof (induction bs arbitrary: n)
  case (Cons b bs)
  show ?case
  proof (cases "n < 8")
    case True
    then show ?thesis by (simp add: bit_or_iff bit_push_bit_iff bit_ucast_iff)
  next
    case False
    then have "n div 8 = Suc ((n - 8) div 8)" "n mod 8 = (n - 8) mod 8"
      by (simp_all add: div_if mod_if[of n])
    moreover have "\<not> bit b n" using False bit_imp_le_length[of b n] by auto
    ultimately show ?thesis
      using False Cons.IH[of "n - 8"] by (auto simp: bit_or_iff bit_push_bit_iff bit_ucast_iff)
  qed
qed simp

lemma length_u64_bytes [simp]: "length (u64_bytes n) = 8"
  by (simp add: u64_bytes_def)

lemma bytes_u64_u64_bytes [simp]: "bytes_u64 (u64_bytes n) = n"
proof (rule bit_word_eqI)
  fix i assume i: "i < LENGTH(64)"
  then have "i div 8 < 8" by auto
  with i show "bit (bytes_u64 (u64_bytes n)) i = bit n i"
    by (simp add: bit_bytes_u64 u64_bytes_def bit_ucast_iff bit_drop_bit_eq)
qed

section \<open>Sessions\<close>

definition getSS :: "nat \<Rightarrow> server_session M" where
  "getSS s = (\<lambda>w. case ssessions w s of
     None \<Rightarrow> (Abort DanglingReference, w) | Some x \<Rightarrow> (Ret x, w))"

definition modSS :: "nat \<Rightarrow> (server_session \<Rightarrow> server_session) \<Rightarrow> unit M" where
  "modSS s f = (\<lambda>w. case ssessions w s of
     None \<Rightarrow> (Abort DanglingReference, w)
   | Some x \<Rightarrow> (Ret (), w\<lparr>ssessions := (ssessions w)(s \<mapsto> f x)\<rparr>))"

definition newSS :: "u64 \<Rightarrow> nat M" where
  "newSS sid = (\<lambda>w. (Ret (nextSS w), w\<lparr>
     ssessions := (ssessions w)(nextSS w \<mapsto> \<lparr>ss_id = sid, ss_tokenBank = None\<rparr>),
     nextSS := Suc (nextSS w)\<rparr>))"

text \<open>\<open>make_shared<ServerSession>()\<close>: the identifier is drawn from two calls of \<open>rand\<close>.\<close>

definition ServerSession_new :: "env \<Rightarrow> nat M" where
  "ServerSession_new E =
     bindM (extcall E Rand) (\<lambda>r1.
     bindM (extcall E Rand) (\<lambda>r2.
     newSS (word_of_int (c_rc r1) OR push_bit 32 (word_of_int (c_rc r2)))))"

definition getID :: "nat \<Rightarrow> u64 M" where
  "getID s = bindM (getSS s) (\<lambda>x. ret (ss_id x))"

definition getTokenBank :: "nat \<Rightarrow> nat option M" where
  "getTokenBank s = bindM (getSS s) (\<lambda>x. ret (ss_tokenBank x))"

definition makeBank :: "env \<Rightarrow> nat \<Rightarrow> u32 \<Rightarrow> unit M" where
  "makeBank E s sz = bindM (getSS s) (\<lambda>x.
     if ss_tokenBank x \<noteq> None then ret ()
     else if sz = 0 then ret ()
     else bindM (extcall E Rand) (\<lambda>base.
          bindM (extcall E (BankNew (word_of_int (c_rc base)) sz 0 (sz div 2))) (\<lambda>bank.
          modSS s (\<lambda>x. x\<lparr>ss_tokenBank := Some (nat (c_rc bank))\<rparr>))))"

section \<open>The tables of the proxy\<close>

definition getProxy :: "rid \<Rightarrow> proxy_data M" where
  "getProxy p = bindM (getR p) (\<lambda>x. case cls x of CProxy d \<Rightarrow> ret d | _ \<Rightarrow> abort DanglingReference)"

definition modProxy :: "rid \<Rightarrow> (proxy_data \<Rightarrow> proxy_data) \<Rightarrow> unit M" where
  "modProxy p f = modR p (\<lambda>x. case cls x of CProxy d \<Rightarrow> x\<lparr>cls := CProxy (f d)\<rparr> | _ \<Rightarrow> x)"

definition getPasswordChecker :: "rid \<Rightarrow> password_checker option M" where
  "getPasswordChecker p = bindM (getProxy p) (\<lambda>d. ret (px_checker d))"

definition getSession :: "rid \<Rightarrow> u64 \<Rightarrow> nat option M" where
  "getSession p sid = bindM (getProxy p) (\<lambda>d. ret (px_sessions d sid))"

text \<open>
  \<open>spawnSession\<close> draws sessions until the identifier of one is not taken yet. The loop is followed
  for \<open>fuel\<close> draws.
\<close>

fun spawnSession_loop :: "env \<Rightarrow> rid \<Rightarrow> nat \<Rightarrow> nat M" where
  "spawnSession_loop E p 0 = abort OutOfFuel"
| "spawnSession_loop E p (Suc n) =
     bindM (ServerSession_new E) (\<lambda>s.
     bindM (getID s) (\<lambda>sid.
     bindM (getSession p sid) (\<lambda>found.
       if found \<noteq> None then spawnSession_loop E p n
       else seqM (modProxy p (\<lambda>d. d\<lparr>px_sessions := (px_sessions d)(sid \<mapsto> s)\<rparr>)) (ret s))))"

definition spawnSession :: "env \<Rightarrow> rid \<Rightarrow> nat M" where
  "spawnSession E p = spawnSession_loop E p (fuel E)"

definition createBank :: "env \<Rightarrow> rid \<Rightarrow> string \<Rightarrow> u32 \<Rightarrow> nat M" where
  "createBank E p user sz =
     bindM (extcall E Rand) (\<lambda>base.
     bindM (extcall E (BankNew (word_of_int (c_rc base)) sz 0 (sz div 2))) (\<lambda>bank.
     seqM (modProxy p (\<lambda>d. d\<lparr>px_banks := (px_banks d)(user \<mapsto> Some (nat (c_rc bank)))\<rparr>))
          (ret (nat (c_rc bank)))))"

text \<open>\<open>banks[user]\<close> makes an empty entry when there is none.\<close>

definition getBank :: "rid \<Rightarrow> string \<Rightarrow> nat option M" where
  "getBank p user = bindM (getProxy p) (\<lambda>d. case px_banks d user of
       Some b \<Rightarrow> ret b
     | None \<Rightarrow> seqM (modProxy p (\<lambda>d. d\<lparr>px_banks := (px_banks d)(user \<mapsto> None)\<rparr>)) (ret None))"

section \<open>AuthUtil::authenticate\<close>

definition signal :: "authopt \<Rightarrow> authreply \<Rightarrow> authreply" where
  "signal opt reply = reply\<lparr>ar_opts := ar_opts reply @ [opt]\<rparr>"

definition set_code :: "authcode \<Rightarrow> authreply \<Rightarrow> authreply" where
  "set_code c reply = reply\<lparr>ar_code := c\<rparr>"

text \<open>From the comment "idempotence stuff" on.\<close>

definition authenticate_idempotence :: "env \<Rightarrow> request \<Rightarrow> authreply \<Rightarrow> nat option \<Rightarrow> authreply M" where
  "authenticate_idempotence E opts reply session = (case session of
       None \<Rightarrow> ret (set_code SOCKS6_AUTH_REPLY_SUCCESS reply)
     | Some s \<Rightarrow>
         seqM (makeBank E s (rq_requestedSize opts))
         (bindM (getTokenBank s) (\<lambda>bank.
         bindM (case bank of
                  None \<Rightarrow> ret reply
                | Some b \<Rightarrow> bindM (extcall E (BankGetWindow b)) (\<lambda>rc.
                    ret (signal (IdempotenceAdvertise (c_window rc)) reply))) (\<lambda>reply.
         case rq_token opts of
           None \<Rightarrow> ret (set_code SOCKS6_AUTH_REPLY_SUCCESS reply)
         | Some token \<Rightarrow>
             bindM (case bank of
                      None \<Rightarrow> ret False
                    | Some b \<Rightarrow> bindM (extcall E (BankWithdraw b token)) (\<lambda>rc. ret (c_rc rc \<noteq> 0))) (\<lambda>ok.
             if \<not> ok then ret (signal (IdempotenceReply False) reply)
             else ret (set_code SOCKS6_AUTH_REPLY_SUCCESS (signal (IdempotenceReply True) reply)))))))"

text \<open>The comment "new session".\<close>

definition authenticate_session ::
  "env \<Rightarrow> request \<Rightarrow> rid \<Rightarrow> authreply \<Rightarrow> nat option \<Rightarrow> authreply M" where
  "authenticate_session E opts proxy reply session =
     (if session = None \<and> rq_sessionRequested opts then
        bindM (spawnSession E proxy) (\<lambda>s.
        bindM (getID s) (\<lambda>sid.
        authenticate_idempotence E opts (signal (SessionSetID (u64_bytes sid)) reply) (Some s)))
      else authenticate_idempotence E opts reply session)"

text \<open>The comment "authenticate".\<close>

definition authenticate_user ::
  "env \<Rightarrow> request \<Rightarrow> rid \<Rightarrow> authreply \<Rightarrow> nat option \<Rightarrow> authreply M" where
  "authenticate_user E opts proxy reply session =
     bindM (getPasswordChecker proxy) (\<lambda>checker.
       case (checker, session) of
         (Some c, None) \<Rightarrow>
           (let success = check c (rq_credentials opts);
                reply = signal (UserPasswordReply success) reply
            in if \<not> success then ret reply
               else authenticate_session E opts proxy reply session)
       | _ \<Rightarrow> authenticate_session E opts proxy reply session)"

definition authenticate :: "env \<Rightarrow> request \<Rightarrow> rid \<Rightarrow> authreply M" where
  "authenticate E opts proxy =
     (let reply = \<lparr>ar_code = SOCKS6_AUTH_REPLY_FAILURE, ar_opts = []\<rparr>
      in case rq_sessionID opts of
           None \<Rightarrow> authenticate_user E opts proxy reply None
         | Some rawID \<Rightarrow>
             if length rawID \<noteq> 8 then ret (signal SessionReject reply)
             else bindM (getSession proxy (bytes_u64 rawID)) (\<lambda>session.
               case session of
                 None \<Rightarrow> ret (signal SessionReject reply)
               | Some s \<Rightarrow> authenticate_user E opts proxy (signal SessionOK reply) (Some s)))"

section \<open>Known sessions\<close>

definition is_proxy :: "rid \<Rightarrow> proxy_data \<Rightarrow> world \<Rightarrow> bool" where
  "is_proxy p d w \<longleftrightarrow> (\<exists>x. reactors w p = Some x \<and> cls x = CProxy d)"

lemma run_getProxy [exec_simps]: "is_proxy p d w \<Longrightarrow> getProxy p w = (Ret d, w)"
  by (auto simp: is_proxy_def getProxy_def bindM_def run_getR run_basic)

lemma is_proxy_unique: "is_proxy p d w \<Longrightarrow> is_proxy p d' w \<Longrightarrow> d' = d"
  by (auto simp: is_proxy_def)

lemma run_modProxy:
  assumes "is_proxy p d w"
  obtains w' where "modProxy p f w = (Ret (), w')" "is_proxy p (f d) w'" "hist w' = hist w"
    "ssessions w' = ssessions w" "nextSS w' = nextSS w"
  using assms by (auto simp: is_proxy_def modProxy_def run_modR)

lemma run_tables:
  assumes "is_proxy p d w"
  shows "getSession p sid w = (Ret (px_sessions d sid), w)"
    "getPasswordChecker p w = (Ret (px_checker d), w)"
  using assms by (simp_all add: getSession_def getPasswordChecker_def bindM_def exec_simps)

lemma run_getSS [exec_simps]: "ssessions w s = Some x \<Longrightarrow> getSS s w = (Ret x, w)"
  by (simp add: getSS_def)

lemma run_session:
  assumes "ssessions w s = Some x"
  shows "getID s w = (Ret (ss_id x), w)" "getTokenBank s w = (Ret (ss_tokenBank x), w)"
    "modSS s f w = (Ret (), w\<lparr>ssessions := (ssessions w)(s \<mapsto> f x)\<rparr>)"
  using assms by (simp_all add: getID_def getTokenBank_def modSS_def bindM_def exec_simps)

text \<open>
  The table is sound when every entry leads to a live session with the identifier it is filed
  under.
\<close>

definition sessions_ok :: "rid \<Rightarrow> world \<Rightarrow> bool" where
  "sessions_ok p w \<longleftrightarrow> (\<exists>d. is_proxy p d w \<and> (\<forall>sid s. px_sessions d sid = Some s \<longrightarrow>
     s < nextSS w \<and> (\<exists>x. ssessions w s = Some x \<and> ss_id x = sid)))"

text \<open>The identifiers that \<open>spawnSession\<close> would draw one after the other from a history.\<close>

fun draws :: "env \<Rightarrow> history \<Rightarrow> nat \<Rightarrow> u64" where
  "draws E h n = (let r1 = os E h Rand; h1 = h @ [(Rand, r1)]; r2 = os E h1 Rand in
     case n of 0 \<Rightarrow> word_of_int (c_rc r1) OR push_bit 32 (word_of_int (c_rc r2))
     | Suc k \<Rightarrow> draws E (h1 @ [(Rand, r2)]) k)"

declare draws.simps [simp del]

lemma ServerSession_new_run:
  obtains v where "ServerSession_new E w = (Ret (nextSS w), v)" "reactors v = reactors w"
    "nextSS v = Suc (nextSS w)"
    "ssessions v = (ssessions w)(nextSS w \<mapsto> \<lparr>ss_id = draws E (hist w) 0, ss_tokenBank = None\<rparr>)"
    "hist_grows w v" "\<And>k. draws E (hist w) (Suc k) = draws E (hist v) k"
    "\<forall>e \<in> set (new_calls w v). fst e = Rand"
proof -
  let ?r1 = "os E (hist w) Rand"
  let ?h1 = "hist w @ [(Rand, ?r1)]"
  let ?r2 = "os E ?h1 Rand"
  let ?v = "w\<lparr>hist := ?h1 @ [(Rand, ?r2)], ssessions := (ssessions w)(nextSS w \<mapsto>
      \<lparr>ss_id = draws E (hist w) 0, ss_tokenBank = None\<rparr>), nextSS := Suc (nextSS w)\<rparr>"
  show thesis
  proof (rule that)
    show "ServerSession_new E w = (Ret (nextSS w), ?v)"
      by (simp add: ServerSession_new_def newSS_def bindM_def run_extcall draws.simps Let_def)
    show "draws E (hist w) (Suc k) = draws E (hist ?v) k" for k
      by (subst draws.simps) (simp add: Let_def)
  qed (simp_all add: hist_grows_def new_calls_def)
qed

lemma spawn_loop_fresh:
  assumes "is_proxy p d w" "px_sessions d (draws E (hist w) 0) = None"
  obtains w' where "spawnSession_loop E p (Suc n) w = (Ret (nextSS w), w')"
    "is_proxy p (d\<lparr>px_sessions := (px_sessions d)(draws E (hist w) 0 \<mapsto> nextSS w)\<rparr>) w'"
    "ssessions w' = (ssessions w)(nextSS w \<mapsto> \<lparr>ss_id = draws E (hist w) 0, ss_tokenBank = None\<rparr>)"
    "nextSS w' = Suc (nextSS w)" "hist_grows w w'" "\<forall>e \<in> set (new_calls w w'). fst e = Rand"
proof -
  let ?sid = "draws E (hist w) 0"
  obtain v where v: "ServerSession_new E w = (Ret (nextSS w), v)" "reactors v = reactors w"
    "nextSS v = Suc (nextSS w)"
    "ssessions v = (ssessions w)(nextSS w \<mapsto> \<lparr>ss_id = ?sid, ss_tokenBank = None\<rparr>)"
    "hist_grows w v" "\<And>k. draws E (hist w) (Suc k) = draws E (hist v) k"
    "\<forall>e \<in> set (new_calls w v). fst e = Rand"
    using ServerSession_new_run[of E w] by blast
  have x: "ssessions v (nextSS w) = Some \<lparr>ss_id = ?sid, ss_tokenBank = None\<rparr>" using v(4) by simp
  have p: "is_proxy p d v" using assms(1) v(2) by (simp add: is_proxy_def)
  from p obtain w' where w': "modProxy p (\<lambda>d. d\<lparr>px_sessions := (px_sessions d)(?sid \<mapsto> nextSS w)\<rparr>) v = (Ret (), w')"
    "is_proxy p (d\<lparr>px_sessions := (px_sessions d)(?sid \<mapsto> nextSS w)\<rparr>) w'" "hist w' = hist v"
    "ssessions w' = ssessions v" "nextSS w' = nextSS v"
    by (rule run_modProxy)
  have run: "spawnSession_loop E p (Suc n) w = (Ret (nextSS w), w')"
    using v(1) assms(2) w'(1)
    by (simp add: bindM_def seqM_def run_session[OF x] run_tables[OF p] run_basic)
  from w'(3-5) v(3-5,7) show thesis
    by (intro that[OF run w'(2)]) (simp_all add: hist_grows_def new_calls_def)
qed

lemma spawn_loop_cases:
  assumes "is_proxy p d w"
  obtains (fuel) w' where "spawnSession_loop E p n w = (Abort OutOfFuel, w')"
      "\<forall>k < n. px_sessions d (draws E (hist w) k) \<noteq> None"
  | (fresh) s sid w' where "spawnSession_loop E p n w = (Ret s, w')" "px_sessions d sid = None"
      "is_proxy p (d\<lparr>px_sessions := (px_sessions d)(sid \<mapsto> s)\<rparr>) w'"
      "ssessions w' s = Some \<lparr>ss_id = sid, ss_tokenBank = None\<rparr>" "nextSS w \<le> s" "s < nextSS w'"
      "\<And>k. k < nextSS w \<Longrightarrow> ssessions w' k = ssessions w k" "hist_grows w w'"
      "\<forall>e \<in> set (new_calls w w'). fst e = Rand"
  using assms
proof (induction n arbitrary: w thesis)
  case 0
  show ?case by (rule 0(1)[of w]) (simp_all add: run_basic)
next
  case (Suc n)
  obtain v where v: "ServerSession_new E w = (Ret (nextSS w), v)" "reactors v = reactors w"
    "nextSS v = Suc (nextSS w)"
    "ssessions v = (ssessions w)(nextSS w \<mapsto> \<lparr>ss_id = draws E (hist w) 0, ss_tokenBank = None\<rparr>)"
    "hist_grows w v" "\<And>k. draws E (hist w) (Suc k) = draws E (hist v) k"
    "\<forall>e \<in> set (new_calls w v). fst e = Rand"
    using ServerSession_new_run[of E w] by blast
  let ?sid = "draws E (hist w) 0"
  have x: "ssessions v (nextSS w) = Some \<lparr>ss_id = ?sid, ss_tokenBank = None\<rparr>" using v(4) by simp
  have p: "is_proxy p d v" using Suc(4) v(2) by (simp add: is_proxy_def)
  show ?case
  proof (cases "px_sessions d ?sid")
    case None
    from spawn_loop_fresh[OF Suc(4) this, of n] obtain w' where
      w': "spawnSession_loop E p (Suc n) w = (Ret (nextSS w), w')"
      "is_proxy p (d\<lparr>px_sessions := (px_sessions d)(?sid \<mapsto> nextSS w)\<rparr>) w'"
      "ssessions w' = (ssessions w)(nextSS w \<mapsto> \<lparr>ss_id = ?sid, ss_tokenBank = None\<rparr>)"
      "nextSS w' = Suc (nextSS w)" "hist_grows w w'" "\<forall>e \<in> set (new_calls w w'). fst e = Rand" .
    then show thesis
      by (intro Suc(3)[OF w'(1) None w'(2)] w'(5,6)) (simp_all add: w'(3,4))
  next
    case (Some s0)
    have eq: "spawnSession_loop E p (Suc n) w = spawnSession_loop E p n v"
      using v(1) Some by (simp add: bindM_def run_session[OF x] run_tables[OF p])
    show thesis
    proof (rule Suc.IH[OF _ _ p])
      fix w' assume "spawnSession_loop E p n v = (Abort OutOfFuel, w')"
        "\<forall>k<n. px_sessions d (draws E (hist v) k) \<noteq> None"
      with eq Some v(6) show thesis
        by (intro Suc(2)[of w']) (auto simp: less_Suc_eq_0_disj)
    next
      fix s sid w' assume a: "spawnSession_loop E p n v = (Ret s, w')" "px_sessions d sid = None"
        "is_proxy p (d\<lparr>px_sessions := (px_sessions d)(sid \<mapsto> s)\<rparr>) w'"
        "ssessions w' s = Some \<lparr>ss_id = sid, ss_tokenBank = None\<rparr>" "nextSS v \<le> s" "s < nextSS w'"
        "\<And>k. k < nextSS v \<Longrightarrow> ssessions w' k = ssessions v k" "hist_grows v w'"
        "\<forall>e \<in> set (new_calls v w'). fst e = Rand"
      show thesis
      proof (rule Suc(3)[OF _ a(2-4)])
        show "spawnSession_loop E p (Suc n) w = (Ret s, w')" unfolding eq by (rule a(1))
        show "hist_grows w w'" using v(5) a(8) by (rule hg.R_trans)
        show "ssessions w' k = ssessions w k" if "k < nextSS w" for k
          using a(7)[of k] v(3,4) that by simp
        show "\<forall>e \<in> set (new_calls w w'). fst e = Rand"
          using v(7) a(9) by (simp add: new_calls_trans[OF v(5) a(8)] ball_Un)
      qed (use a(5,6) v(3) in simp_all)
    qed
  qed
qed

section \<open>Banks and tokens\<close>

text \<open>A withdrawal of the token from the bank that the bank has granted.\<close>

definition spent :: "nat \<Rightarrow> u32 \<Rightarrow> history \<Rightarrow> bool" where
  "spent b token h \<longleftrightarrow> (\<exists>rc. (BankWithdraw b token, rc) \<in> set h \<and> c_rc rc \<noteq> 0)"

lemma spent_append: "spent b token (h @ k) \<longleftrightarrow> spent b token h \<or> spent b token k"
  by (auto simp: spent_def)

lemma not_spent_draws: "\<forall>e \<in> set h. fst e = Rand \<Longrightarrow> \<not> spent b token h"
  by (force simp: spent_def)

lemma makeBank_run:
  assumes "ssessions w s = Some x"
  obtains v x' h where "makeBank E s sz w = (Ret (), v)" "reactors v = reactors w" "nextSS v = nextSS w"
    "ssessions v = (ssessions w)(s \<mapsto> x')" "ss_id x' = ss_id x" "ss_tokenBank x \<noteq> None \<longrightarrow> x' = x"
    "hist v = hist w @ h" "\<forall>b token rc. (BankWithdraw b token, rc) \<notin> set h"
proof (cases "ss_tokenBank x \<noteq> None \<or> sz = 0")
  case True
  with assms show thesis
    by (intro that[of w x "[]"]) (auto simp: makeBank_def bindM_def run_getSS run_basic fun_upd_idem)
next
  case False
  let ?h1 = "hist w @ [(Rand, os E (hist w) Rand)]"
  let ?c = "BankNew (word_of_int (c_rc (os E (hist w) Rand))) sz 0 (sz div 2)"
  let ?x = "x\<lparr>ss_tokenBank := Some (nat (c_rc (os E ?h1 ?c)))\<rparr>"
  from False assms show thesis
    by (intro that[of "w\<lparr>hist := ?h1 @ [(?c, os E ?h1 ?c)], ssessions := (ssessions w)(s \<mapsto> ?x)\<rparr>" ?x
          "[(Rand, os E (hist w) Rand), (?c, os E ?h1 ?c)]"])
      (auto simp: makeBank_def bindM_def run_getSS run_basic run_extcall modSS_def)
qed

text \<open>What is answered once the session has its bank, if it gets one.\<close>

definition token_answer :: "env \<Rightarrow> nat \<Rightarrow> request \<Rightarrow> authreply \<Rightarrow> world \<Rightarrow> authreply \<times> world" where
  "token_answer E b opts reply v =
     (let g = BankGetWindow b; h = hist v @ [(g, os E (hist v) g)];
          adv = signal (IdempotenceAdvertise (c_window (os E (hist v) g))) reply
      in case rq_token opts of
           None \<Rightarrow> (set_code SOCKS6_AUTH_REPLY_SUCCESS adv, v\<lparr>hist := h\<rparr>)
         | Some token \<Rightarrow> (let c = BankWithdraw b token; rc = os E h c
             in (if c_rc rc = 0 then signal (IdempotenceReply False) adv
                 else set_code SOCKS6_AUTH_REPLY_SUCCESS (signal (IdempotenceReply True) adv),
                 v\<lparr>hist := h @ [(c, rc)]\<rparr>)))"

lemma idempotence_eq:
  assumes "makeBank E s (rq_requestedSize opts) w = (Ret (), v)" "ssessions v s = Some x"
  shows "authenticate_idempotence E opts reply (Some s) w = (case ss_tokenBank x of
      None \<Rightarrow> (Ret (if rq_token opts = None then set_code SOCKS6_AUTH_REPLY_SUCCESS reply
                   else signal (IdempotenceReply False) reply), v)
    | Some b \<Rightarrow> (Ret (fst (token_answer E b opts reply v)), snd (token_answer E b opts reply v)))"
  using assms by (simp add: authenticate_idempotence_def token_answer_def seqM_def bindM_def
      run_session[OF assms(2)] run_basic run_extcall Let_def split: option.split)

lemma idempotence_run:
  assumes x: "ssessions w s = Some x" and code: "ar_code reply = SOCKS6_AUTH_REPLY_FAILURE"
  obtains rep w' x' where "authenticate_idempotence E opts reply (Some s) w = (Ret rep, w')"
    "reactors w' = reactors w" "nextSS w' = nextSS w" "hist_grows w w'"
    "ssessions w' = (ssessions w)(s \<mapsto> x')" "ss_id x' = ss_id x" "ss_tokenBank x \<noteq> None \<longrightarrow> x' = x"
    "prefix (ar_opts reply) (ar_opts rep)"
    "ar_code rep = SOCKS6_AUTH_REPLY_SUCCESS \<longleftrightarrow> (\<forall>token. rq_token opts = Some token \<longrightarrow>
       (\<exists>b. ss_tokenBank x' = Some b \<and> spent b token (new_calls w w')))"
    "\<forall>token b. spent b token (new_calls w w') \<longrightarrow> ss_tokenBank x' = Some b"
    "\<forall>token b. ar_code rep = SOCKS6_AUTH_REPLY_SUCCESS \<and> rq_token opts = Some token \<and>
       ss_tokenBank x' = Some b \<longrightarrow>
       (\<exists>h. prefix (hist w) h \<and> c_rc (os E h (BankWithdraw b token)) \<noteq> 0)"
proof -
  obtain v x' h where v: "makeBank E s (rq_requestedSize opts) w = (Ret (), v)" "reactors v = reactors w"
    "nextSS v = nextSS w" "ssessions v = (ssessions w)(s \<mapsto> x')" "ss_id x' = ss_id x"
    "ss_tokenBank x \<noteq> None \<longrightarrow> x' = x" "hist v = hist w @ h"
    "\<forall>b token rc. (BankWithdraw b token, rc) \<notin> set h"
    by (rule makeBank_run[OF x, of E "rq_requestedSize opts"])
  have x': "ssessions v s = Some x'" using v(4) by simp
  note run = idempotence_eq[OF v(1) x', of reply]
  show thesis
  proof (cases "ss_tokenBank x'")
    case None
    from that[OF run[unfolded None, simplified] v(2,3)] show thesis
      using v code None by (auto simp: signal_def set_code_def hist_grows_def spent_def)
  next
    case (Some b)
    let ?v = "snd (token_answer E b opts reply v)"
    let ?h = "hist v @ [(BankGetWindow b, os E (hist v) (BankGetWindow b))]"
    have new: "new_calls w ?v = h @ (BankGetWindow b, os E (hist v) (BankGetWindow b)) #
        (case rq_token opts of None \<Rightarrow> [] | Some t \<Rightarrow> [(BankWithdraw b t, os E ?h (BankWithdraw b t))])"
      using v(7) by (simp add: new_calls_def token_answer_def Let_def split: option.split)
    have sp: "spent b' t (new_calls w ?v) \<longleftrightarrow>
        b' = b \<and> rq_token opts = Some t \<and> c_rc (os E ?h (BankWithdraw b t)) \<noteq> 0" for b' t
      unfolding new using v(8) by (auto simp: spent_def split: option.splits)
    have ok: "ar_code (fst (token_answer E b opts reply v)) = SOCKS6_AUTH_REPLY_SUCCESS \<longleftrightarrow>
        (\<forall>t. rq_token opts = Some t \<longrightarrow> c_rc (os E ?h (BankWithdraw b t)) \<noteq> 0)"
      using code by (auto simp: token_answer_def Let_def signal_def set_code_def split: option.split)
    show thesis
    proof (rule that[OF run[unfolded Some, simplified]])
      show "\<forall>t b'. ar_code (fst (token_answer E b opts reply v)) = SOCKS6_AUTH_REPLY_SUCCESS \<and>
          rq_token opts = Some t \<and> ss_tokenBank x' = Some b' \<longrightarrow>
          (\<exists>h. prefix (hist w) h \<and> c_rc (os E h (BankWithdraw b' t)) \<noteq> 0)"
        unfolding ok using Some v(7) by (auto intro!: exI[of _ ?h])
    qed (use Some ok sp v in \<open>auto simp: token_answer_def Let_def signal_def set_code_def hist_grows_def
        split: option.split\<close>)
  qed
qed

section \<open>What \<open>authenticate\<close> does\<close>

text \<open>The answer to the password part, for a request that names no session.\<close>

definition password_ok :: "proxy_data \<Rightarrow> request \<Rightarrow> bool" where
  "password_ok d opts \<longleftrightarrow> (case px_checker d of None \<Rightarrow> True | Some c \<Rightarrow> check c (rq_credentials opts))"

definition password_opts :: "proxy_data \<Rightarrow> request \<Rightarrow> authopt list" where
  "password_opts d opts = (case px_checker d of None \<Rightarrow> []
     | Some c \<Rightarrow> [UserPasswordReply (check c (rq_credentials opts))])"

abbreviation failure_reply :: "authopt list \<Rightarrow> authreply" where
  "failure_reply xs \<equiv> \<lparr>ar_code = SOCKS6_AUTH_REPLY_FAILURE, ar_opts = xs\<rparr>"

lemma authenticate_known:
  assumes p: "is_proxy p d w" and "rq_sessionID opts = Some raw"
  shows "authenticate E opts p w = (case px_sessions d (bytes_u64 raw) of
      Some s \<Rightarrow> if length raw = 8 then authenticate_idempotence E opts (failure_reply [SessionOK]) (Some s) w
                else (Ret (failure_reply [SessionReject]), w)
    | None \<Rightarrow> (Ret (failure_reply [SessionReject]), w))"
  using assms(2)
  by (simp add: authenticate_def Let_def bindM_def run_tables[OF p] run_basic authenticate_user_def
      authenticate_session_def signal_def split: option.split)

lemma authenticate_anonymous:
  assumes p: "is_proxy p d w" and "rq_sessionID opts = None"
  shows "authenticate E opts p w = (if password_ok d opts
      then authenticate_session E opts p (failure_reply (password_opts d opts)) None w
      else (Ret (failure_reply [UserPasswordReply False]), w))"
  using assms(2)
  by (auto simp: authenticate_def authenticate_user_def password_ok_def password_opts_def Let_def bindM_def
      run_tables[OF p] run_basic signal_def split: option.splits)

lemma authenticate_cases:
  assumes p: "is_proxy p d w"
  obtains
    (unknown) raw where "rq_sessionID opts = Some raw"
      "length raw \<noteq> 8 \<or> px_sessions d (bytes_u64 raw) = None"
      "authenticate E opts p w = (Ret (failure_reply [SessionReject]), w)"
  | (resumed) raw s where "rq_sessionID opts = Some raw" "length raw = 8"
      "px_sessions d (bytes_u64 raw) = Some s"
      "authenticate E opts p w = authenticate_idempotence E opts (failure_reply [SessionOK]) (Some s) w"
  | (denied) "rq_sessionID opts = None" "\<not> password_ok d opts"
      "authenticate E opts p w = (Ret (failure_reply [UserPasswordReply False]), w)"
  | (plain) "rq_sessionID opts = None" "password_ok d opts" "\<not> rq_sessionRequested opts"
      "authenticate E opts p w =
         (Ret \<lparr>ar_code = SOCKS6_AUTH_REPLY_SUCCESS, ar_opts = password_opts d opts\<rparr>, w)"
  | (spin) w' where "rq_sessionID opts = None" "password_ok d opts" "rq_sessionRequested opts"
      "\<forall>k < fuel E. px_sessions d (draws E (hist w) k) \<noteq> None"
      "authenticate E opts p w = (Abort OutOfFuel, w')"
  | (spawned) s sid v where "rq_sessionID opts = None" "password_ok d opts" "rq_sessionRequested opts"
      "px_sessions d sid = None" "is_proxy p (d\<lparr>px_sessions := (px_sessions d)(sid \<mapsto> s)\<rparr>) v"
      "ssessions v s = Some \<lparr>ss_id = sid, ss_tokenBank = None\<rparr>" "nextSS w \<le> s" "s < nextSS v"
      "\<And>k. k < nextSS w \<Longrightarrow> ssessions v k = ssessions w k" "hist_grows w v"
      "\<forall>e \<in> set (new_calls w v). fst e = Rand"
      "authenticate E opts p w = authenticate_idempotence E opts
         (failure_reply (password_opts d opts @ [SessionSetID (u64_bytes sid)])) (Some s) v"
proof (cases "rq_sessionID opts")
  case (Some raw)
  note run = authenticate_known[OF p Some, of E]
  show thesis
  proof (cases "length raw = 8 \<and> px_sessions d (bytes_u64 raw) \<noteq> None")
    case True
    then obtain s where "length raw = 8" "px_sessions d (bytes_u64 raw) = Some s" by blast
    with Some run show thesis by (intro resumed[of raw s]) simp_all
  qed (use Some run in \<open>auto intro!: unknown[of raw] split: option.splits\<close>)
next
  case None
  note go = authenticate_anonymous[OF p None, of E]
  show thesis
  proof (cases "password_ok d opts")
    case False
    with None go show thesis by (intro denied) simp_all
  next
    case True
    show thesis
    proof (cases "rq_sessionRequested opts")
      case False
      with None True go show thesis
        by (intro plain) (simp_all add: authenticate_session_def authenticate_idempotence_def
            set_code_def run_basic)
    next
      case req: True
      from p show thesis
      proof (cases rule: spawn_loop_cases[where E = E and n = "fuel E"])
        case (fuel w')
        with None True req go show thesis
          by (intro spin[of w']) (simp_all add: authenticate_session_def spawnSession_def run_bind)
      next
        case (fresh s sid v)
        show thesis
        proof (rule spawned[OF None True req fresh(2-9)])
          show "authenticate E opts p w = authenticate_idempotence E opts
              (failure_reply (password_opts d opts @ [SessionSetID (u64_bytes sid)])) (Some s) v"
            using req go True by (simp add: authenticate_session_def spawnSession_def bindM_def fresh(1) run_session[OF fresh(4)] signal_def)
        qed
      qed
    qed
  qed
qed

text \<open>
  Who is let in: a request that names a session must name a known one; a request that names none
  must pass the password check, if there is one; and a token that comes with a session must be
  withdrawn from a bank.
\<close>

definition admitted :: "proxy_data \<Rightarrow> request \<Rightarrow> history \<Rightarrow> bool" where
  "admitted d opts h \<longleftrightarrow>
     (case rq_sessionID opts of
        Some raw \<Rightarrow> length raw = 8 \<and> px_sessions d (bytes_u64 raw) \<noteq> None
      | None \<Rightarrow> password_ok d opts) \<and>
     (rq_sessionID opts \<noteq> None \<or> rq_sessionRequested opts \<longrightarrow>
        (\<forall>token. rq_token opts = Some token \<longrightarrow> (\<exists>b. spent b token h)))"

lemma sessions_ok_session:
  assumes "sessions_ok p w" "is_proxy p d w" "px_sessions d sid = Some s"
  obtains x where "ssessions w s = Some x" "ss_id x = sid" "s < nextSS w"
  using assms is_proxy_unique unfolding sessions_ok_def by blast

lemma idempotence_success:
  assumes "ssessions v s = Some x" "ar_code reply = SOCKS6_AUTH_REPLY_FAILURE"
    "authenticate_idempotence E opts reply (Some s) v = (Ret rep, w')"
    "hist_grows w v" "\<forall>e \<in> set (new_calls w v). fst e = Rand"
  shows "ar_code rep = SOCKS6_AUTH_REPLY_SUCCESS \<longleftrightarrow>
    (\<forall>token. rq_token opts = Some token \<longrightarrow> (\<exists>b. spent b token (new_calls w w')))"
  using assms(1,2)
proof (rule idempotence_run[where E = E and opts = opts])
  fix rep' w'' x'
  assume run: "authenticate_idempotence E opts reply (Some s) v = (Ret rep', w'')" "hist_grows v w''"
    and *: "ar_code rep' = SOCKS6_AUTH_REPLY_SUCCESS \<longleftrightarrow> (\<forall>token. rq_token opts = Some token \<longrightarrow>
       (\<exists>b. ss_tokenBank x' = Some b \<and> spent b token (new_calls v w'')))"
    and only: "\<forall>token b. spent b token (new_calls v w'') \<longrightarrow> ss_tokenBank x' = Some b"
  have "spent b token (new_calls w w'') \<longleftrightarrow> spent b token (new_calls v w'')" for b token
    using not_spent_draws[OF assms(5)] by (simp add: spent_append new_calls_trans[OF assms(4) run(2)])
  moreover have "rep' = rep" "w'' = w'" using run(1) assms(3) by simp_all
  moreover have "(\<exists>b. ss_tokenBank x' = Some b \<and> spent b token (new_calls v w'')) \<longleftrightarrow>
      (\<exists>b. spent b token (new_calls v w''))" for token
    using only by blast
  ultimately show ?thesis using * by simp
qed

lemma authenticate_success_iff:
  assumes "sessions_ok p w" "is_proxy p d w" "authenticate E opts p w = (Ret rep, w')"
  shows "ar_code rep = SOCKS6_AUTH_REPLY_SUCCESS \<longleftrightarrow> admitted d opts (new_calls w w')"
  using assms(2)
proof (cases rule: authenticate_cases[where E = E and opts = opts])
  case (resumed raw s)
  then obtain x where x: "ssessions w s = Some x"
    using sessions_ok_session[OF assms(1,2)] by blast
  have "authenticate_idempotence E opts (failure_reply [SessionOK]) (Some s) w = (Ret rep, w')"
    using assms(3) resumed(4) by simp
  from idempotence_success[OF x _ this hg.R_refl] resumed show ?thesis
    by (simp add: admitted_def new_calls_def)
next
  case (spawned s sid v)
  have "authenticate_idempotence E opts
      (failure_reply (password_opts d opts @ [SessionSetID (u64_bytes sid)])) (Some s) v = (Ret rep, w')"
    using assms(3) spawned(12) by simp
  from idempotence_success[OF spawned(6) _ this spawned(10,11)] spawned(1-3) show ?thesis
    by (simp add: admitted_def)
qed (use assms(3) in \<open>auto simp: admitted_def\<close>)

section \<open>Sessions stay\<close>

text \<open>
  Every session the proxy knows stays known, keeps its identifier and, once it has a token bank,
  keeps that bank.
\<close>

definition session_after :: "server_session \<Rightarrow> server_session \<Rightarrow> bool" where
  "session_after x x' \<longleftrightarrow> ss_id x' = ss_id x \<and>
     (ss_tokenBank x \<noteq> None \<longrightarrow> ss_tokenBank x' = ss_tokenBank x)"

lemma session_after_refl [simp]: "session_after x x"
  by (simp add: session_after_def)

lemma session_after_trans: "session_after x y \<Longrightarrow> session_after y z \<Longrightarrow> session_after x z"
  by (auto simp: session_after_def)

definition session_known :: "rid \<Rightarrow> u64 \<Rightarrow> nat \<Rightarrow> server_session \<Rightarrow> world \<Rightarrow> bool" where
  "session_known p sid s x w \<longleftrightarrow>
     (\<exists>d. is_proxy p d w \<and> px_sessions d sid = Some s) \<and> ssessions w s = Some x"

definition keeps_sessions :: "rid \<Rightarrow> world \<Rightarrow> world \<Rightarrow> bool" where
  "keeps_sessions p w w' \<longleftrightarrow> hist_grows w w' \<and> (\<forall>sid s x. session_known p sid s x w \<longrightarrow>
     (\<exists>x'. session_known p sid s x' w' \<and> session_after x x'))"

interpretation ks: world_preorder "keeps_sessions p"
proof unfold_locales
  fix u v w assume uv: "keeps_sessions p u v" and vw: "keeps_sessions p v w"
  have "\<exists>z. session_known p sid s z w \<and> session_after x z" if "session_known p sid s x u" for sid s x
  proof -
    from uv that obtain y where "session_known p sid s y v" "session_after x y"
      unfolding keeps_sessions_def by blast
    moreover from vw this(1) obtain z where "session_known p sid s z w" "session_after y z"
      unfolding keeps_sessions_def by blast
    ultimately show ?thesis by (blast intro: session_after_trans)
  qed
  with uv vw show "keeps_sessions p u w"
    by (auto simp: keeps_sessions_def intro: hg.R_trans)
qed (auto simp: keeps_sessions_def hg.R_refl)

lemma idempotence_keeps_sessions:
  assumes "ssessions w s = Some x" "ar_code reply = SOCKS6_AUTH_REPLY_FAILURE"
    "authenticate_idempotence E opts reply (Some s) w = (res, w')"
  shows "keeps_sessions p w w'" "sessions_ok p w \<Longrightarrow> sessions_ok p w'" "is_proxy p d w \<Longrightarrow> is_proxy p d w'"
proof -
  from assms(1,2) obtain x' where "ssessions w' = (ssessions w)(s \<mapsto> x')" "ss_id x' = ss_id x"
    "ss_tokenBank x \<noteq> None \<longrightarrow> x' = x" "reactors w' = reactors w" "nextSS w' = nextSS w" "hist_grows w w'"
    by (rule idempotence_run[where E = E and opts = opts]) (use assms(3) in auto)
  with assms(1) show "keeps_sessions p w w'" "is_proxy p d w \<Longrightarrow> is_proxy p d w'"
    "sessions_ok p w \<Longrightarrow> sessions_ok p w'"
    by (auto simp: keeps_sessions_def session_known_def session_after_def sessions_ok_def is_proxy_def)
      (metis option.inject)+
qed

lemma spawned_sessions:
  assumes "sessions_ok p w" "is_proxy p d w" "px_sessions d sid = None"
    "is_proxy p (d\<lparr>px_sessions := (px_sessions d)(sid \<mapsto> s)\<rparr>) v"
    "ssessions v s = Some \<lparr>ss_id = sid, ss_tokenBank = None\<rparr>" "nextSS w \<le> s" "s < nextSS v"
    "\<And>k. k < nextSS w \<Longrightarrow> ssessions v k = ssessions w k" "hist_grows w v"
  shows "sessions_ok p v" "keeps_sessions p w v"
proof -
  let ?d = "d\<lparr>px_sessions := (px_sessions d)(sid \<mapsto> s)\<rparr>"
  have old: "s' < nextSS w \<and> s' < nextSS v \<and> (\<exists>x. ssessions v s' = Some x \<and> ssessions w s' = Some x \<and> ss_id x = sid')"
    if "px_sessions d sid' = Some s'" for sid' s'
    using sessions_ok_session[OF assms(1,2) that] assms(6,7,8) by (metis less_le_trans less_trans)
  have "\<forall>sid' s'. px_sessions ?d sid' = Some s' \<longrightarrow>
      s' < nextSS v \<and> (\<exists>x. ssessions v s' = Some x \<and> ss_id x = sid')"
    using assms(5,7) by (auto dest: old)
  with assms(4) show "sessions_ok p v" unfolding sessions_ok_def by blast
  have "session_known p sid' s' x v" if k: "session_known p sid' s' x w" for sid' s' x
  proof -
    from k have t: "px_sessions d sid' = Some s'" "ssessions w s' = Some x"
      using is_proxy_unique[OF assms(2)] by (auto simp: session_known_def)
    with assms(3) have "px_sessions ?d sid' = Some s'" by auto
    with t old[OF t(1)] assms(4) show ?thesis unfolding session_known_def by auto
  qed
  with assms(9) show "keeps_sessions p w v"
    unfolding keeps_sessions_def by (blast intro: session_after_refl)
qed

text \<open>Authentication never throws, returns unless it is cut off, and keeps the sessions.\<close>

lemma authenticate_sound:
  assumes "sessions_ok p w" "authenticate E opts p w = (res, w')" "res \<noteq> Abort OutOfFuel"
  shows "(\<exists>rep. res = Ret rep) \<and> sessions_ok p w' \<and> keeps_sessions p w w'"
proof -
  from assms(1) obtain d where d: "is_proxy p d w" by (auto simp: sessions_ok_def)
  then show ?thesis
  proof (cases rule: authenticate_cases[where E = E and opts = opts])
    case (resumed raw s)
    then obtain x where x: "ssessions w s = Some x"
      using sessions_ok_session[OF assms(1) d] by blast
    have run: "authenticate_idempotence E opts (failure_reply [SessionOK]) (Some s) w = (res, w')"
      using assms(2) resumed(4) by simp
    moreover have "\<exists>rep. res = Ret rep"
      by (rule idempotence_run[OF x, where E = E and opts = opts and reply = "failure_reply [SessionOK]"])
        (use run in auto)
    ultimately show ?thesis
      using idempotence_keeps_sessions[OF x _ run] assms(1) by simp
  next
    case (spawned s sid v)
    let ?rep = "failure_reply (password_opts d opts @ [SessionSetID (u64_bytes sid)])"
    have run: "authenticate_idempotence E opts ?rep (Some s) v = (res, w')"
      using assms(2) spawned(12) by simp
    moreover have "\<exists>rep. res = Ret rep"
      by (rule idempotence_run[OF spawned(6), where E = E and opts = opts and reply = ?rep])
        (use run in auto)
    moreover have "sessions_ok p v" "keeps_sessions p w v"
      using spawned_sessions[OF assms(1) d spawned(4-10)] by blast+
    ultimately show ?thesis
      using idempotence_keeps_sessions[OF spawned(6) _ run] by (auto intro: ks.R_trans)
  qed (use assms in \<open>auto intro: ks.R_refl\<close>)
qed

section \<open>A token is spent once\<close>

text \<open>
  What the banks of libsocks6util promise: a token they have granted is not granted again (as long
  as the window has not gone once around the 32-bit token space).
\<close>

definition bank_ok :: "env \<Rightarrow> bool" where
  "bank_ok E \<longleftrightarrow> (\<forall>h b token. spent b token h \<longrightarrow> c_rc (os E h (BankWithdraw b token)) = 0)"

definition token_used :: "rid \<Rightarrow> u64 \<Rightarrow> u32 \<Rightarrow> world \<Rightarrow> bool" where
  "token_used p sid token w \<longleftrightarrow> (\<exists>s x b. session_known p sid s x w \<and> ss_tokenBank x = Some b \<and>
     spent b token (hist w))"

lemma spent_mono: "prefix h h' \<Longrightarrow> spent b token h \<Longrightarrow> spent b token h'"
  by (auto simp: prefix_def spent_append)

lemma token_used_mono:
  assumes "token_used p sid token w" "keeps_sessions p w w'"
  shows "token_used p sid token w'"
proof -
  from assms(1) obtain s x b where x: "session_known p sid s x w" "ss_tokenBank x = Some b"
    "spent b token (hist w)" unfolding token_used_def by blast
  with assms(2) obtain x' where "session_known p sid s x' w'" "session_after x x'"
    unfolding keeps_sessions_def by blast
  with x assms(2) show ?thesis
    by (auto simp: token_used_def session_after_def keeps_sessions_def hist_grows_def intro: spent_mono)
qed

text \<open>One authentication of a request that names the session \<open>raw\<close> and the token \<open>token\<close>.\<close>

lemma authenticate_token:
  assumes ok: "sessions_ok p w" and rq: "rq_sessionID opts = Some raw" "rq_token opts = Some token"
    and run: "authenticate E opts p w = (Ret rep, w')"
    and success: "ar_code rep = SOCKS6_AUTH_REPLY_SUCCESS"
  shows "token_used p (bytes_u64 raw) token w'"
    and "bank_ok E \<Longrightarrow> \<not> token_used p (bytes_u64 raw) token w"
proof -
  from ok obtain d where d: "is_proxy p d w" by (auto simp: sessions_ok_def)
  then obtain s where s: "px_sessions d (bytes_u64 raw) = Some s"
    "authenticate_idempotence E opts (failure_reply [SessionOK]) (Some s) w = (Ret rep, w')"
    by (cases rule: authenticate_cases[where E = E and opts = opts]) (use rq run success in auto)
  then obtain x where x: "ssessions w s = Some x"
    using sessions_ok_session[OF ok d] by blast
  obtain x' where x': "reactors w' = reactors w" "hist_grows w w'" "ssessions w' = (ssessions w)(s \<mapsto> x')"
    "ss_tokenBank x \<noteq> None \<longrightarrow> x' = x"
    "\<exists>b. ss_tokenBank x' = Some b \<and> spent b token (new_calls w w')"
    "\<forall>b. ss_tokenBank x' = Some b \<longrightarrow>
       (\<exists>h. prefix (hist w) h \<and> c_rc (os E h (BankWithdraw b token)) \<noteq> 0)"
    by (rule idempotence_run[OF x, where E = E and opts = opts and reply = "failure_reply [SessionOK]"])
      (use s(2) rq success in auto)
  have "session_known p (bytes_u64 raw) s x' w'"
    using d s(1) x'(1,3) by (auto simp: session_known_def is_proxy_def)
  with x'(2,5) show "token_used p (bytes_u64 raw) token w'"
    unfolding token_used_def by (metis hist_grows_new_calls spent_append)
  show "\<not> token_used p (bytes_u64 raw) token w" if "bank_ok E"
  proof
    assume "token_used p (bytes_u64 raw) token w"
    then obtain b where b: "ss_tokenBank x = Some b" "spent b token (hist w)"
      using is_proxy_unique[OF d] s(1) x by (auto simp: token_used_def session_known_def)
    with x'(4,6) obtain h where "prefix (hist w) h" "c_rc (os E h (BankWithdraw b token)) \<noteq> 0"
      by auto
    with b(2) \<open>bank_ok E\<close> show False unfolding bank_ok_def by (blast dest: spent_mono)
  qed
qed

text \<open>Any number of authentications, one after the other.\<close>

fun authenticate_all :: "env \<Rightarrow> rid \<Rightarrow> request list \<Rightarrow> authreply list M" where
  "authenticate_all E p [] = ret []"
| "authenticate_all E p (rq # rqs) = bindM (authenticate E rq p) (\<lambda>rep.
     bindM (authenticate_all E p rqs) (\<lambda>reps. ret (rep # reps)))"

lemma authenticate_all_Cons:
  assumes "authenticate_all E p (rq # rqs) w = (Ret reps, w')"
  obtains rep v reps' where "authenticate E rq p w = (Ret rep, v)"
    "authenticate_all E p rqs v = (Ret reps', w')" "reps = rep # reps'"
  using assms by (auto simp: bindM_def run_basic split: prod.splits outcome.splits)

lemma used_token_refused:
  assumes "bank_ok E" "sessions_ok p w" "token_used p (bytes_u64 raw) token w"
    "authenticate_all E p rqs w = (Ret reps, w')" "j < length rqs"
    "rq_sessionID (rqs ! j) = Some raw" "rq_token (rqs ! j) = Some token"
  shows "j < length reps \<and> ar_code (reps ! j) \<noteq> SOCKS6_AUTH_REPLY_SUCCESS"
  using assms(2-)
proof (induction rqs arbitrary: w reps j)
  case (Cons rq rqs)
  from Cons.prems(3) obtain rep v reps' where step: "authenticate E rq p w = (Ret rep, v)"
    "authenticate_all E p rqs v = (Ret reps', w')" "reps = rep # reps'"
    by (rule authenticate_all_Cons)
  have v: "sessions_ok p v" "keeps_sessions p w v"
    using authenticate_sound[OF Cons.prems(1) step(1)] by simp_all
  show ?case
  proof (cases j)
    case 0
    then show ?thesis
      using authenticate_token(2)[OF Cons.prems(1) _ _ step(1) _ assms(1)] Cons.prems(2,5,6) step(3)
      by auto
  next
    case (Suc i)
    then show ?thesis
      using Cons.IH[OF v(1) token_used_mono[OF Cons.prems(2) v(2)] step(2)] Cons.prems step(3) by simp
  qed
qed simp

lemma granted_token_refused:
  assumes "bank_ok E" "sessions_ok p w" "authenticate_all E p rqs w = (Ret reps, w')"
    "i < j" "j < length rqs" "rq_sessionID (rqs ! i) = Some raw" "rq_token (rqs ! i) = Some token"
    "rq_sessionID (rqs ! j) = Some raw" "rq_token (rqs ! j) = Some token"
    "ar_code (reps ! i) = SOCKS6_AUTH_REPLY_SUCCESS"
  shows "ar_code (reps ! j) \<noteq> SOCKS6_AUTH_REPLY_SUCCESS"
  using assms(2-)
proof (induction rqs arbitrary: w reps i j)
  case (Cons rq rqs)
  from Cons.prems(2) obtain rep v reps' where step: "authenticate E rq p w = (Ret rep, v)"
    "authenticate_all E p rqs v = (Ret reps', w')" "reps = rep # reps'"
    by (rule authenticate_all_Cons)
  have v: "sessions_ok p v"
    using authenticate_sound[OF Cons.prems(1) step(1)] by simp
  from Cons.prems(3) obtain k where k: "j = Suc k" by (cases j) auto
  show ?case
  proof (cases i)
    case 0
    then have "token_used p (bytes_u64 raw) token v"
      using authenticate_token(1)[OF Cons.prems(1) _ _ step(1)] Cons.prems(5,6,9) step(3) by simp
    from used_token_refused[OF assms(1) v this step(2), of k] show ?thesis
      using Cons.prems k step(3) by simp
  next
    case (Suc l)
    with Cons.IH[OF v step(2), of l k] Cons.prems k step(3) show ?thesis by simp
  qed
qed simp

section \<open>The session table as an interface\<close>

text \<open>
  What the users of the table rely on: a session that was made is found under its identifier, the
  identifier was free, and no other session is lost. From these laws: any number of sessions made
  one after the other have different identifiers and are all found at the end.
\<close>

locale session_store =
  fixes lookup :: "world \<Rightarrow> u64 \<Rightarrow> nat option"
    and spawn :: "nat M"
    and ident :: "world \<Rightarrow> nat \<Rightarrow> u64"
    and invar :: "world \<Rightarrow> bool"
  assumes spawn_invar: "invar w \<Longrightarrow> spawn w = (Ret s, w') \<Longrightarrow> invar w'"
    and spawn_fresh: "invar w \<Longrightarrow> spawn w = (Ret s, w') \<Longrightarrow> lookup w (ident w' s) = None"
    and spawn_lookup: "invar w \<Longrightarrow> spawn w = (Ret s, w') \<Longrightarrow> lookup w' = (lookup w)(ident w' s \<mapsto> s)"
    and lookup_ident: "invar w \<Longrightarrow> lookup w sid = Some s \<Longrightarrow> ident w s = sid"
begin

fun spawn_many :: "nat \<Rightarrow> nat list M" where
  "spawn_many 0 = ret []"
| "spawn_many (Suc n) = bindM spawn (\<lambda>s. bindM (spawn_many n) (\<lambda>ss. ret (s # ss)))"

lemma spawn_many_Suc:
  assumes "spawn_many (Suc n) w = (Ret ss, w')"
  obtains s v ss' where "spawn w = (Ret s, v)" "spawn_many n v = (Ret ss', w')" "ss = s # ss'"
  using assms by (auto simp: bindM_def run_basic split: prod.splits outcome.splits)

lemma spawn_many_found:
  assumes "invar w" "spawn_many n w = (Ret ss, w')"
  shows "invar w' \<and> length ss = n \<and> distinct ss \<and> (\<forall>s \<in> set ss. lookup w' (ident w' s) = Some s) \<and>
    (\<forall>s \<in> set ss. lookup w (ident w' s) = None) \<and>
    (\<forall>sid t. lookup w sid = Some t \<longrightarrow> lookup w' sid = Some t)"
  using assms
proof (induction n arbitrary: w ss)
  case 0
  then show ?case by (simp add: run_basic)
next
  case (Suc n)
  from Suc.prems(2) obtain s v ss' where step: "spawn w = (Ret s, v)" "spawn_many n v = (Ret ss', w')"
    "ss = s # ss'" by (rule spawn_many_Suc)
  note v = spawn_invar[OF Suc.prems(1) step(1)] spawn_fresh[OF Suc.prems(1) step(1)]
    spawn_lookup[OF Suc.prems(1) step(1)]
  note IH = Suc.IH[OF v(1) step(2)]
  have s: "lookup w' (ident v s) = Some s" using IH v(3) by simp
  then have i: "ident w' s = ident v s" using IH lookup_ident by blast
  have old: "lookup w sid = Some t \<Longrightarrow> lookup v sid = Some t" for sid t using v(2,3) by auto
  have new: "lookup w sid = None" if "lookup v sid = None" for sid
    using that v(3) by (auto split: if_splits)
  have "s \<notin> set ss'" using IH i v(3) by auto
  with IH step(3) s i old new v(2) show ?case by auto
qed

end

definition sessions_of :: "rid \<Rightarrow> world \<Rightarrow> u64 \<Rightarrow> nat option" where
  "sessions_of p w = (case reactors w p of
     Some x \<Rightarrow> (case cls x of CProxy d \<Rightarrow> px_sessions d | _ \<Rightarrow> Map.empty) | None \<Rightarrow> Map.empty)"

definition session_ident :: "world \<Rightarrow> nat \<Rightarrow> u64" where
  "session_ident w s = (case ssessions w s of Some x \<Rightarrow> ss_id x | None \<Rightarrow> 0)"

lemma sessions_of_proxy: "is_proxy p d w \<Longrightarrow> sessions_of p w = px_sessions d"
  by (auto simp: sessions_of_def is_proxy_def)

lemma spawnSession_result:
  assumes "sessions_ok p w" "spawnSession E p w = (Ret s, w')"
  shows "sessions_ok p w'" "keeps_sessions p w w'" "sessions_of p w (session_ident w' s) = None"
    "sessions_of p w' = (sessions_of p w)(session_ident w' s \<mapsto> s)"
proof -
  from assms(1) obtain d where d: "is_proxy p d w" by (auto simp: sessions_ok_def)
  then have "sessions_ok p w' \<and> keeps_sessions p w w' \<and> sessions_of p w (session_ident w' s) = None \<and>
    sessions_of p w' = (sessions_of p w)(session_ident w' s \<mapsto> s)"
  proof (cases rule: spawn_loop_cases[where E = E and n = "fuel E"])
    case (fresh s' sid v)
    then have [simp]: "s' = s" "v = w'" using assms(2) by (simp_all add: spawnSession_def)
    show ?thesis
      using spawned_sessions[OF assms(1) d fresh(2-8)] fresh sessions_of_proxy[OF d]
        sessions_of_proxy[OF fresh(3)] by (simp add: session_ident_def)
  qed (use assms(2) in \<open>simp add: spawnSession_def\<close>)
  then show "sessions_ok p w'" "keeps_sessions p w w'" "sessions_of p w (session_ident w' s) = None"
    "sessions_of p w' = (sessions_of p w)(session_ident w' s \<mapsto> s)" by blast+
qed

interpretation store: session_store "sessions_of p" "spawnSession E p" session_ident "sessions_ok p"
proof unfold_locales
  fix w sid s assume w: "sessions_ok p w" and s: "sessions_of p w sid = Some s"
  from w obtain d where d: "is_proxy p d w" by (auto simp: sessions_ok_def)
  from s have "px_sessions d sid = Some s" by (simp add: sessions_of_proxy[OF d])
  then obtain x where "ssessions w s = Some x" "ss_id x = sid"
    using sessions_ok_session[OF w d] by blast
  then show "session_ident w s = sid" by (simp add: session_ident_def)
qed (erule (1) spawnSession_result)+

section \<open>Frame facts\<close>

lemma frame_auth_basic [keeps_intro]:
  "keeps frame (getSS s)" "keeps frame (newSS sid)" "keeps frame (modSS s f)"
  by (auto simp: keeps_def frame_def hist_grows_def heap_grows_def object_after_def poll_inv_def
      getSS_def newSS_def modSS_def split: option.splits)

lemma frame_getProxy [keeps_intro]: "keeps frame (getProxy p)"
  unfolding getProxy_def
  by (intro fr.keeps_rules keeps_intro) (auto split: rclass.split intro: fr.keeps_rules)

lemma frame_modProxy [keeps_intro]: "keeps frame (modProxy p f)"
  unfolding modProxy_def
  by (intro keeps_intro) (auto simp: object_after_def split: rclass.split)

lemmas auth_defs = ServerSession_new_def getID_def getTokenBank_def makeBank_def
  getPasswordChecker_def getSession_def authenticate_idempotence_def authenticate_session_def
  authenticate_user_def authenticate_def Let_def

lemma frame_session [keeps_intro]:
  "keeps frame (ServerSession_new E)" "keeps frame (getID s)" "keeps frame (getTokenBank s)"
  "keeps frame (makeBank E s sz)" "keeps frame (getPasswordChecker p)" "keeps frame (getSession p sid)"
  unfolding auth_defs by (intro fr.keeps_rules keeps_intro shared_call_simps)+

lemma frame_spawn [keeps_intro]: "keeps frame (spawnSession E p)"
proof -
  have "keeps frame (spawnSession_loop E p n)" for n
    by (induction n) (simp_all, (intro fr.keeps_rules keeps_intro | assumption)+)
  then show ?thesis by (simp add: spawnSession_def)
qed

lemma frame_idempotence [keeps_intro]: "keeps frame (authenticate_idempotence E opts reply s)"
  unfolding authenticate_idempotence_def
  by (intro fr.keeps_rules keeps_intro shared_call_simps)

lemma frame_authenticate [keeps_intro]: "keeps frame (authenticate E opts p)"
  unfolding authenticate_def authenticate_user_def authenticate_session_def Let_def
  by (intro fr.keeps_rules keeps_intro)

end
