(* ===== verification/TLS.thy ===== *)
theory TLS
  imports PollTable
begin

text \<open>
  \<^verbatim>\<open>tls/tls.{hh,cc}\<close>: the TLS object of a connection. NSS does the cryptography; the program
  gives it an I/O layer (\<open>dRecv\<close>, \<open>dSend\<close>, \<open>dGetName\<close>, \<open>dGetPeerName\<close>) and calls \<open>PR_Read\<close>,
  \<open>PR_Write\<close> and \<open>SSL_ForceHandshake\<close>. An NSS function calls back into the layer as often as the
  environment says (\<open>nssCallbacks\<close>) and then returns what the environment says. The methods that
  move data work on the buffer of a reactor.
\<close>

section \<open>Error mapping\<close>

definition DEFAULT_ERRORS :: "(errno \<times> prerror) list" where
  "DEFAULT_ERRORS = [
     (EACCES,        PR_NO_ACCESS_RIGHTS_ERROR),
     (EADDRINUSE,    PR_ADDRESS_IN_USE_ERROR),
     (EADDRNOTAVAIL, PR_ADDRESS_NOT_AVAILABLE_ERROR),
     (EAGAIN,        PR_WOULD_BLOCK_ERROR),
     (EBADF,         PR_BAD_DESCRIPTOR_ERROR),
     (ECONNABORTED,  PR_CONNECT_ABORTED_ERROR),
     (ECONNREFUSED,  PR_CONNECT_REFUSED_ERROR),
     (ECONNRESET,    PR_CONNECT_RESET_ERROR),
     (EFAULT,        PR_ACCESS_FAULT_ERROR),
     (EHOSTUNREACH,  PR_HOST_UNREACHABLE_ERROR),
     (EHOSTDOWN,     PR_HOST_UNREACHABLE_ERROR),
     (EINPROGRESS,   PR_IN_PROGRESS_ERROR),
     (EINTR,         PR_PENDING_INTERRUPT_ERROR),
     (EINVAL,        PR_INVALID_ARGUMENT_ERROR),
     (EMSGSIZE,      PR_INVALID_ARGUMENT_ERROR),
     (ENETUNREACH,   PR_NETWORK_UNREACHABLE_ERROR),
     (ENOBUFS,       PR_INSUFFICIENT_RESOURCES_ERROR),
     (ENOMEM,        PR_OUT_OF_MEMORY_ERROR),
     (ENOSYS,        PR_NOT_IMPLEMENTED_ERROR),
     (ENOTCONN,      PR_NOT_CONNECTED_ERROR),
     (ENOTSOCK,      PR_NOT_SOCKET_ERROR),
     (EOPNOTSUPP,    PR_NOT_TCP_SOCKET_ERROR),
     (EPERM,         PR_NO_ACCESS_RIGHTS_ERROR),
     (EPIPE,         PR_CONNECT_RESET_ERROR),
     (ETIMEDOUT,     PR_IO_TIMEOUT_ERROR),
     (EWOULDBLOCK,   PR_WOULD_BLOCK_ERROR)]"

definition ALT_ENOMEM_ERRORS :: "(errno \<times> prerror) list" where
  "ALT_ENOMEM_ERRORS = [(ENOMEM, PR_INSUFFICIENT_RESOURCES_ERROR)]"

definition PR_SetError :: "prerror \<Rightarrow> unit M" where
  "PR_SetError e = modify (\<lambda>w. w\<lparr>prError := e\<rparr>)"

definition mapError :: "errno \<Rightarrow> unit M" where
  "mapError err = (case map_of DEFAULT_ERRORS err of
     Some e \<Rightarrow> PR_SetError e | None \<Rightarrow> PR_SetError PR_UNKNOWN_ERROR)"

definition mapError_override :: "(errno \<times> prerror) list \<Rightarrow> errno \<Rightarrow> unit M" where
  "mapError_override ov err = (case map_of ov err of
     Some e \<Rightarrow> PR_SetError e | None \<Rightarrow> mapError err)"

section \<open>The I/O layer below NSS\<close>

definition getT :: "nat \<Rightarrow> tls_object M" where
  "getT t = (\<lambda>w. case tlsObjs w t of
     None \<Rightarrow> (Abort DanglingReference, w) | Some x \<Rightarrow> (Ret x, w))"

definition modT :: "nat \<Rightarrow> (tls_object \<Rightarrow> tls_object) \<Rightarrow> unit M" where
  "modT t f = (\<lambda>w. case tlsObjs w t of
     None \<Rightarrow> (Abort DanglingReference, w)
   | Some x \<Rightarrow> (Ret (), w\<lparr>tlsObjs := (tlsObjs w)(t \<mapsto> f x)\<rparr>))"

definition setReadFD :: "nat \<Rightarrow> int \<Rightarrow> unit M" where
  "setReadFD t fd = modT t (\<lambda>x. x\<lparr>readFD := fd\<rparr>)"

definition setWriteFD :: "nat \<Rightarrow> int \<Rightarrow> unit M" where
  "setWriteFD t fd = modT t (\<lambda>x. x\<lparr>writeFD := fd\<rparr>)"

definition set_blockDirection :: "BlockDirection \<Rightarrow> unit M" where
  "set_blockDirection d = modify (\<lambda>w. w\<lparr>blockDirection := d\<rparr>)"

definition dRecv :: "env \<Rightarrow> nat \<Rightarrow> nat \<Rightarrow> cret M" where
  "dRecv E t amount = bindM (getT t) (\<lambda>tls.
     bindM (extcall E (NssRecv (readFD tls) amount)) (\<lambda>rc.
     seqM (if c_rc rc < 0 then mapError (c_errno rc) else ret ())
     (seqM (set_blockDirection BD_IN) (ret rc))))"

definition dSend :: "env \<Rightarrow> nat \<Rightarrow> byte list \<Rightarrow> cret M" where
  "dSend E t xs = bindM (getT t) (\<lambda>tls.
     bindM (extcall E (NssSend (writeFD tls) xs)) (\<lambda>rc.
     seqM (if c_rc rc < 0 then mapError (c_errno rc) else ret ())
     (seqM (set_blockDirection BD_OUT) (ret rc))))"

datatype PRStatus = PR_SUCCESS | PR_FAILURE

definition dGetName :: "env \<Rightarrow> nat \<Rightarrow> PRStatus M" where
  "dGetName E t = bindM (getT t) (\<lambda>tls.
     bindM (extcall E (GetSockName (readFD tls))) (\<lambda>rc.
       if c_rc rc < 0 then seqM (mapError_override ALT_ENOMEM_ERRORS (c_errno rc)) (ret PR_FAILURE)
       else ret PR_SUCCESS))"

definition dGetPeerName :: "env \<Rightarrow> nat \<Rightarrow> PRStatus M" where
  "dGetPeerName E t = bindM (getT t) (\<lambda>tls.
     bindM (extcall E (GetPeerName (readFD tls))) (\<lambda>rc.
     seqM (if c_rc rc < 0 then mapError_override ALT_ENOMEM_ERRORS (c_errno rc) else ret ())
     (ret PR_SUCCESS)))"

definition dRead :: "env \<Rightarrow> nat \<Rightarrow> nat \<Rightarrow> cret M" where
  "dRead E t amount = dRecv E t amount"

definition dWrite :: "env \<Rightarrow> nat \<Rightarrow> byte list \<Rightarrow> cret M" where
  "dWrite E t xs = dSend E t xs"

text \<open>The answer to the only socket option the layer knows: the socket is non-blocking.\<close>

definition dGetSocketOption :: "bool \<Rightarrow> PRStatus \<times> bool option" where
  "dGetSocketOption isNonblocking =
     (if isNonblocking then (PR_SUCCESS, Some True) else (PR_FAILURE, None))"

definition invalidFn :: "PRStatus M" where
  "invalidFn = seqM (PR_SetError PR_INVALID_METHOD_ERROR) (ret PR_FAILURE)"

text \<open>The method table of the layer, and the calls NSS makes through it.\<close>

definition METHODS :: "env \<Rightarrow> nat \<Rightarrow> nss_callback \<Rightarrow> unit M" where
  "METHODS E t c = (case c of
       CbRecv n \<Rightarrow> bindM (dRecv E t n) (\<lambda>_. ret ())
     | CbRead n \<Rightarrow> bindM (dRead E t n) (\<lambda>_. ret ())
     | CbSend xs \<Rightarrow> bindM (dSend E t xs) (\<lambda>_. ret ())
     | CbWrite xs \<Rightarrow> bindM (dWrite E t xs) (\<lambda>_. ret ())
     | CbGetName \<Rightarrow> bindM (dGetName E t) (\<lambda>_. ret ())
     | CbGetPeerName \<Rightarrow> bindM (dGetPeerName E t) (\<lambda>_. ret ())
     | CbGetSocketOption b \<Rightarrow> ret ()
     | CbOther \<Rightarrow> bindM invalidFn (\<lambda>_. ret ()))"

fun run_callbacks :: "env \<Rightarrow> nat \<Rightarrow> nss_callback list \<Rightarrow> unit M" where
  "run_callbacks E t [] = ret ()"
| "run_callbacks E t (c # cs) = seqM (METHODS E t c) (run_callbacks E t cs)"

text \<open>A call of an NSS function on the descriptor of TLS object \<open>t\<close>.\<close>

definition nss :: "env \<Rightarrow> nat \<Rightarrow> call \<Rightarrow> cret M" where
  "nss E t c = bindM (gets (\<lambda>w. nssCallbacks E (hist w) c)) (\<lambda>cbs.
     seqM (run_callbacks E t cbs)
     (bindM (extcall E c) (\<lambda>rc.
     seqM (if c_rc rc < 0 then PR_SetError (c_prerr rc) else ret ())
     (ret rc))))"

definition tlsHandleErr :: "int \<Rightarrow> unit M" where
  "tlsHandleErr fd = bindM (gets prError) (\<lambda>err.
     if err = PR_WOULD_BLOCK_ERROR \<or> err = PR_IN_PROGRESS_ERROR then
       bindM (gets blockDirection) (\<lambda>d.
         if d = BD_IN then throw (RescheduleException fd IN_EVENTS)
         else throw (RescheduleException fd OUT_EVENTS))
     else if err = PR_END_OF_FILE_ERROR then ret ()
     else throw (TLSException err))"

section \<open>The descriptors of the layer\<close>

text \<open>
  The fields of a \<open>PRFileDesc\<close> that the layer uses: the TLS object and the neighbours in the stack of
  layers. NSS closes a stack by calling \<open>dClose\<close> on the lowest layer, which frees its descriptor.
\<close>

record file_desc =
  fd_secret :: "nat option"
  fd_lower :: "nat option"
  fd_higher :: "nat option"

definition layer_desc :: "nat \<Rightarrow> file_desc" where
  "layer_desc t = \<lparr>fd_secret = Some t, fd_lower = None, fd_higher = None\<rparr>"

definition descriptorDeleter :: "nat \<Rightarrow> (nat \<rightharpoonup> file_desc) \<Rightarrow> (nat \<rightharpoonup> file_desc) outcome" where
  "descriptorDeleter fd m = (case m fd of
       None \<Rightarrow> Abort DanglingReference
     | Some d \<Rightarrow> (case fd_higher d of
         None \<Rightarrow> Ret (m(fd := None))
       | Some h \<Rightarrow> (case m h of
           None \<Rightarrow> Abort DanglingReference
         | Some up \<Rightarrow> Ret (m(h \<mapsto> up\<lparr>fd_lower := None\<rparr>, fd := None)))))"

definition dClose :: "nat \<Rightarrow> (nat \<rightharpoonup> file_desc) \<Rightarrow> (nat \<rightharpoonup> file_desc) outcome" where
  "dClose fd m = (case m fd of
       None \<Rightarrow> Abort DanglingReference
     | Some d \<Rightarrow> descriptorDeleter fd (m(fd \<mapsto> d\<lparr>fd_secret := None\<rparr>)))"

text \<open>A layer that is closed twice is freed twice; otherwise nothing refers to it any more.\<close>

lemma dClose_frees:
  assumes "m fd = Some d" "fd_higher d = Some h" "m h = Some up" "h \<noteq> fd"
  shows "dClose fd m = Ret (m(h \<mapsto> up\<lparr>fd_lower := None\<rparr>, fd := None))"
  using assms by (simp add: dClose_def descriptorDeleter_def fun_upd_twist)

section \<open>The TLS object\<close>

text \<open>An NSS call that must succeed: \<open>throw TLSException()\<close> reads the current NSPR error.\<close>

definition nss_checked :: "env \<Rightarrow> nat \<Rightarrow> call \<Rightarrow> unit M" where
  "nss_checked E t c = bindM (nss E t c) (\<lambda>rc.
     if c_rc rc < 0 then bindM (gets prError) (\<lambda>e. throw (TLSException e)) else ret ())"

definition newT :: "int \<Rightarrow> nat M" where
  "newT fd = (\<lambda>w. (Ret (nextTls w), w\<lparr>
     tlsObjs := (tlsObjs w)(nextTls w \<mapsto>
       \<lparr>hs_state = S_WANT_EARLY, earlyWritten = 0, readFD = fd, writeFD = fd\<rparr>),
     nextTls := Suc (nextTls w)\<rparr>))"

definition deleteT :: "nat \<Rightarrow> unit M" where
  "deleteT t = modify (\<lambda>w. w\<lparr>tlsObjs := (tlsObjs w)(t := None)\<rparr>)"

text \<open>
  The constructor. If it throws after the descriptor was imported, the member \<open>descriptor\<close> is
  destroyed, which closes it.
\<close>

definition TLS_new :: "env \<Rightarrow> tlscontext \<Rightarrow> int \<Rightarrow> nat M" where
  "TLS_new E ctx fd = bindM (newT fd) (\<lambda>t.
     bindM (nss E t (SSL_ImportFD t)) (\<lambda>higherDesc.
     if c_rc higherDesc < 0 then
       bindM (gets prError) (\<lambda>err.
       bindM (extcall E (PR_Close t)) (\<lambda>_. seqM (deleteT t) (throw (TLSException err))))
     else tryM
       (seqM (if tc_server ctx then
                seqM (nss_checked E t (SSL_ConfigServerCert t))
                     (if tc_antiReplay ctx then nss_checked E t (SSL_SetAntiReplayContext t)
                      else ret ())
              else ret ())
       (seqM (if \<not> tc_server ctx then
                seqM (nss_checked E t (SSL_SetURL t (tc_sni ctx)))
                     (nss_checked E t (SSL_SetCanFalseStart t))
              else ret ())
       (seqM (nss_checked E t (SSL_ResetHandshake t (tc_server ctx)))
       (ret t))))
       (\<lambda>e. bindM (extcall E (PR_Close t)) (\<lambda>_. seqM (deleteT t) (throw e)))))"

text \<open>
  The destructor: the smart pointer closes the descriptor (which may call back into the layer), and
  the object is gone.
\<close>

definition TLS_destroy :: "env \<Rightarrow> nat \<Rightarrow> unit M" where
  "TLS_destroy E t = bindM (nss E t (PR_Close t)) (\<lambda>_. deleteT t)"

text \<open>The client side agrees to false starts.\<close>

definition alwaysFalseStart :: "PRStatus \<times> bool" where
  "alwaysFalseStart = (PR_SUCCESS, True)"

definition tlsDisableEarlyData :: "env \<Rightarrow> nat \<Rightarrow> unit M" where
  "tlsDisableEarlyData E t =
     seqM (nss_checked E t (SSL_Disable0RTT t))
          (modT t (\<lambda>x. x\<lparr>hs_state := S_LAISEZ_FAIRE\<rparr>))"

text \<open>The bytes between \<open>getHead()\<close> and \<open>getHead() + usedSize()\<close> of the buffer of reactor \<open>r\<close>.\<close>

definition buffered :: "rid \<Rightarrow> byte list M" where
  "buffered r = bindM (getR r) (\<lambda>x. liftO (getHead (buf x) (unat (usedSize (buf x)))))"

text \<open>Bytes stored at \<open>getTail()\<close> by a read, then counted with \<open>use(count)\<close>.\<close>

definition buf_receive :: "rid \<Rightarrow> byte list \<Rightarrow> int \<Rightarrow> unit M" where
  "buf_receive r xs count = bindM (getR r) (\<lambda>x.
     bindM (liftO (getTail_store xs (buf x))) (\<lambda>b.
     modBuf r (\<lambda>_. use_bytes (word_of_int count) b)))"

definition clientHandshake_early :: "env \<Rightarrow> nat \<Rightarrow> rid \<Rightarrow> unit M" where
  "clientHandshake_early E t r =
     bindM (buffered r) (\<lambda>xs.
     bindM (nss E t (PR_Write t xs)) (\<lambda>rc.
     bindM (if c_rc rc < 0
            then bindM (getT t) (\<lambda>x. seqM (tlsHandleErr (writeFD x)) (ret 0))
            else ret (c_rc rc)) (\<lambda>bytes.
     modT t (\<lambda>x. x\<lparr>earlyWritten := bytes, hs_state := S_WANT_HANDSHAKE\<rparr>))))"

definition clientHandshake_force :: "env \<Rightarrow> nat \<Rightarrow> rid \<Rightarrow> unit M" where
  "clientHandshake_force E t r =
     bindM (nss E t (SSL_ForceHandshake t)) (\<lambda>rc.
     seqM (if c_rc rc < 0 then bindM (getT t) (\<lambda>x. tlsHandleErr (writeFD x)) else ret ())
     (bindM (nss E t (SSL_GetChannelInfo t)) (\<lambda>info.
     seqM (if c_rc info < 0 then bindM (getT t) (\<lambda>x. tlsHandleErr (writeFD x)) else ret ())
     (seqM (if c_flag info
            then bindM (getT t) (\<lambda>x. modBuf r (unuse (word_of_int (earlyWritten x))))
            else ret ())
     (modT t (\<lambda>x. x\<lparr>hs_state := S_LAISEZ_FAIRE\<rparr>))))))"

definition tls_clientHandshake :: "env \<Rightarrow> nat \<Rightarrow> rid \<Rightarrow> unit M" where
  "tls_clientHandshake E t r = bindM (getT t) (\<lambda>x. case hs_state x of
       S_WANT_EARLY \<Rightarrow> seqM (clientHandshake_early E t r) (clientHandshake_force E t r)
     | S_WANT_HANDSHAKE \<Rightarrow> clientHandshake_force E t r
     | S_LAISEZ_FAIRE \<Rightarrow> ret ())"

definition tlsWrite :: "env \<Rightarrow> nat \<Rightarrow> rid \<Rightarrow> int M" where
  "tlsWrite E t r =
     bindM (buffered r) (\<lambda>xs.
     bindM (nss E t (PR_Write t xs)) (\<lambda>rc.
     bindM (if c_rc rc < 0
            then bindM (getT t) (\<lambda>x. seqM (tlsHandleErr (writeFD x)) (ret 0))
            else ret (c_rc rc)) (\<lambda>bytes.
     seqM (modBuf r (unuse (word_of_int bytes))) (ret bytes))))"

definition tlsRead :: "env \<Rightarrow> nat \<Rightarrow> rid \<Rightarrow> int M" where
  "tlsRead E t r =
     bindM (getR r) (\<lambda>x.
     bindM (nss E t (PR_Read t (unat (availSize (buf x))))) (\<lambda>rc.
     if c_rc rc < 0
     then bindM (getT t) (\<lambda>x. seqM (tlsHandleErr (readFD x)) (seqM (buf_receive r [] 0) (ret 0)))
     else seqM (buf_receive r (c_data rc) (c_rc rc)) (ret (c_rc rc))))"

end
