(* ===== verification/Socket.thy ===== *)
theory Socket
  imports TLS
begin

text \<open>
  \<^verbatim>\<open>core/socket.hh\<close>: a socket is a descriptor and, on an encrypted leg, a TLS object. The
  methods that move data take the buffer of the reactor \<open>r\<close> that calls them; all of them report
  "would block" by a RescheduleException that names the descriptor and the events to wait for,
  and an orderly end of the stream by the value 0.
\<close>

section \<open>Plain TCP\<close>

definition tcpRecv :: "env \<Rightarrow> socket \<Rightarrow> rid \<Rightarrow> int M" where
  "tcpRecv E s r = bindM (getR r) (\<lambda>x.
     bindM (extcall E (Recv (sk_fd s) (unat (availSize (buf x))))) (\<lambda>bytes.
     if c_rc bytes < 0 then
       (if c_errno bytes = EAGAIN \<or> c_errno bytes = EWOULDBLOCK
        then throw (RescheduleException (sk_fd s) IN_EVENTS)
        else if c_errno bytes = EPIPE then ret 0
        else throw (SystemError (c_errno bytes)))
     else seqM (buf_receive r (c_data bytes) (c_rc bytes)) (ret (c_rc bytes))))"

definition tcpSend :: "env \<Rightarrow> socket \<Rightarrow> rid \<Rightarrow> int M" where
  "tcpSend E s r = bindM (buffered r) (\<lambda>xs.
     bindM (extcall E (Send (sk_fd s) xs)) (\<lambda>bytes.
     if c_rc bytes < 0 then
       (if c_errno bytes = EAGAIN \<or> c_errno bytes = EWOULDBLOCK
        then throw (RescheduleException (sk_fd s) OUT_EVENTS)
        else if c_errno bytes = EPIPE then ret 0
        else throw (SystemError (c_errno bytes)))
     else seqM (modBuf r (unuse (word_of_int (c_rc bytes)))) (ret (c_rc bytes))))"

definition tcpSendTFO :: "env \<Rightarrow> socket \<Rightarrow> rid \<Rightarrow> size_t \<Rightarrow> sockaddr \<Rightarrow> int M" where
  "tcpSendTFO E s r maxPayload dest = bindM (getR r) (\<lambda>x.
     bindM (liftO (getHead (buf x) (unat (min (usedSize (buf x)) maxPayload)))) (\<lambda>xs.
     bindM (extcall E (SendToTFO (sk_fd s) xs dest)) (\<lambda>bytes.
     if c_rc bytes < 0 \<and> c_errno bytes \<noteq> EINPROGRESS then throw (SystemError (c_errno bytes))
     else seqM (if c_rc bytes > 0 then modBuf r (unuse (word_of_int (c_rc bytes))) else ret ())
               (ret (c_rc bytes)))))"

definition tcpConnect :: "env \<Rightarrow> socket \<Rightarrow> sockaddr \<Rightarrow> unit M" where
  "tcpConnect E s dest = bindM (extcall E (Connect (sk_fd s) dest)) (\<lambda>rc.
     if c_rc rc < 0 \<and> c_errno rc \<noteq> EINPROGRESS then throw (SystemError (c_errno rc)) else ret ())"

definition tcpDeferredConnect :: "env \<Rightarrow> socket \<Rightarrow> sockaddr \<Rightarrow> unit M" where
  "tcpDeferredConnect E s dest =
     bindM (extcall E (SetSockOpt (sk_fd s) TCP_FASTOPEN_CONNECT 1)) (\<lambda>rc.
     if c_rc rc < 0 then throw (SystemError (c_errno rc)) else tcpConnect E s dest)"

section \<open>With or without TLS\<close>

definition clientHandshake :: "env \<Rightarrow> socket \<Rightarrow> rid \<Rightarrow> unit M" where
  "clientHandshake E s r = (case sk_tls s of
     None \<Rightarrow> ret () | Some t \<Rightarrow> tls_clientHandshake E t r)"

definition sockRecv :: "env \<Rightarrow> socket \<Rightarrow> rid \<Rightarrow> int M" where
  "sockRecv E s r = (case sk_tls s of Some t \<Rightarrow> tlsRead E t r | None \<Rightarrow> tcpRecv E s r)"

definition sockSend :: "env \<Rightarrow> socket \<Rightarrow> rid \<Rightarrow> int M" where
  "sockSend E s r = (case sk_tls s of Some t \<Rightarrow> tlsWrite E t r | None \<Rightarrow> tcpSend E s r)"

definition sockConnect :: "env \<Rightarrow> socket \<Rightarrow> rid \<Rightarrow> sockaddr \<Rightarrow> size_t \<Rightarrow> bool \<Rightarrow> unit M" where
  "sockConnect E s r addr maxTFOPayload earlyDataIfTLS = (case sk_tls s of
     None \<Rightarrow> (if maxTFOPayload > 0
              then bindM (tcpSendTFO E s r maxTFOPayload addr) (\<lambda>_. ret ())
              else tcpConnect E s addr)
   | Some t \<Rightarrow> seqM (tcpDeferredConnect E s addr)
              (if \<not> earlyDataIfTLS then tlsDisableEarlyData E t else ret ()))"

definition getConnectError :: "env \<Rightarrow> socket \<Rightarrow> int M" where
  "getConnectError E s = (case sk_tls s of
     Some t \<Rightarrow> ret 0
   | None \<Rightarrow> bindM (extcall E (GetSockError (sk_fd s))) (\<lambda>rc.
       if c_rc rc < 0 then throw (SystemError (c_errno rc)) else ret (fst (c_out rc))))"

definition benefitsFromIdempotence :: "socket \<Rightarrow> bool" where
  "benefitsFromIdempotence s \<longleftrightarrow> sk_tls s \<noteq> None"

text \<open>
  \<open>duplicate\<close> makes an empty socket a second owner of another socket's connection. The two
  overloads differ in the end of the TLS object that is moved to the new descriptor: a reader
  made from a sending socket takes over reading, a writer made from a receiving socket writing.
\<close>

definition duplicate_for_read :: "env \<Rightarrow> socket \<Rightarrow> socket \<Rightarrow> socket M" where
  "duplicate_for_read E this ws =
     bindM (extcall E (DupFD (sk_fd ws))) (\<lambda>rc.
     bindM (UniqFD_assign (sk_fd this) (c_rc rc)) (\<lambda>fd.
     if fd < 0 then throw (SystemError (c_errno rc))
     else seqM (case sk_tls ws of None \<Rightarrow> ret () | Some t \<Rightarrow> setReadFD t fd)
               (ret \<lparr>sk_fd = fd, sk_tls = sk_tls ws\<rparr>)))"

definition duplicate_for_write :: "env \<Rightarrow> socket \<Rightarrow> socket \<Rightarrow> socket M" where
  "duplicate_for_write E this rs =
     bindM (extcall E (DupFD (sk_fd rs))) (\<lambda>rc.
     bindM (UniqFD_assign (sk_fd this) (c_rc rc)) (\<lambda>fd.
     if fd < 0 then throw (SystemError (c_errno rc))
     else seqM (case sk_tls rs of None \<Rightarrow> ret () | Some t \<Rightarrow> setWriteFD t fd)
               (ret \<lparr>sk_fd = fd, sk_tls = sk_tls rs\<rparr>)))"

definition keepAlive :: "env \<Rightarrow> socket \<Rightarrow> unit M" where
  "keepAlive E s = bindM (extcall E (SetSockOpt (sk_fd s) SO_KEEPALIVE 1)) (\<lambda>rc.
     if c_rc rc < 0 then throw (SystemError (c_errno rc)) else ret ())"

section \<open>Frame facts\<close>

text \<open>
  Every method of this theory and of the TLS layer keeps the frame.
\<close>

lemmas tls_layer_defs = dRecv_def dSend_def dGetName_def dGetPeerName_def
  dRead_def dWrite_def invalidFn_def

lemmas tls_defs = tlsHandleErr_def nss_checked_def tlsDisableEarlyData_def tls_clientHandshake_def
  clientHandshake_early_def clientHandshake_force_def tlsWrite_def tlsRead_def buf_receive_def
  buffered_def

lemmas socket_defs = tcpRecv_def tcpSend_def tcpSendTFO_def tcpConnect_def tcpDeferredConnect_def
  clientHandshake_def sockRecv_def sockSend_def sockConnect_def getConnectError_def
  duplicate_for_read_def duplicate_for_write_def keepAlive_def

lemma keeps_handshake_case:
  "keeps R a \<Longrightarrow> keeps R b \<Longrightarrow> keeps R c \<Longrightarrow>
   keeps R (case st of S_WANT_EARLY \<Rightarrow> a | S_WANT_HANDSHAKE \<Rightarrow> b | S_LAISEZ_FAIRE \<Rightarrow> c)"
  by (cases st) auto

lemma frame_tls_basic [keeps_intro]:
  "keeps frame (getT t)" "keeps frame (modT t g)" "keeps frame (PR_SetError e)"
  "keeps frame (set_blockDirection d)" "keeps frame (newT fd)" "keeps frame (deleteT t)"
  "keeps frame (setReadFD t fd)" "keeps frame (setWriteFD t fd)"
  by (auto simp: keeps_def frame_def hist_grows_def heap_grows_def object_after_def poll_inv_def getT_def modT_def PR_SetError_def set_blockDirection_def
      newT_def deleteT_def modBuf_def modR_def setReadFD_def setWriteFD_def exec_simps
      split: option.splits)

lemma frame_mapError [keeps_intro]:
  "keeps frame (mapError e)" "keeps frame (mapError_override ov e)"
  unfolding mapError_override_def mapError_def by (intro fr.keeps_rules keeps_intro shared_call_simps)+

lemma frame_layer [keeps_intro]:
  "keeps frame (dRecv E t n)" "keeps frame (dSend E t xs)"
  "keeps frame (dGetName E t)" "keeps frame (dGetPeerName E t)"
  "keeps frame (dRead E t n)" "keeps frame (dWrite E t xs)" "keeps frame invalidFn"
  unfolding tls_layer_defs by (intro fr.keeps_rules keeps_intro shared_call_simps)+

lemma frame_METHODS [keeps_intro]: "keeps frame (METHODS E t c)"
  unfolding METHODS_def by (cases c) (auto intro!: fr.keeps_rules keeps_intro)

lemma frame_callbacks [keeps_intro]: "keeps frame (run_callbacks E t cs)"
  by (induction cs) (auto intro!: fr.keeps_rules keeps_intro)

lemma frame_nss [keeps_intro]: "\<not> shared_call c \<Longrightarrow> keeps frame (nss E t c)"
  unfolding nss_def by (intro fr.keeps_rules keeps_intro)

lemma frame_tls [keeps_intro]:
  "keeps frame (tlsHandleErr fd)" "keeps frame (tlsDisableEarlyData E t)"
  "keeps frame (tls_clientHandshake E t r)" "keeps frame (tlsWrite E t r)"
  "keeps frame (tlsRead E t r)" "keeps frame (buffered r)" "keeps frame (buf_receive r xs k)"
  unfolding tls_defs by (intro fr.keeps_rules keeps_intro keeps_handshake_case shared_call_simps)+

lemma frame_TLS_new [keeps_intro]: "keeps frame (TLS_new E ctx fd)"
  unfolding TLS_new_def nss_checked_def by (intro fr.keeps_rules keeps_intro shared_call_simps)

lemma frame_socket [keeps_intro]:
  "keeps frame (clientHandshake E s r)" "keeps frame (sockRecv E s r)"
  "keeps frame (sockSend E s r)" "keeps frame (sockConnect E s r a m e)"
  "keeps frame (getConnectError E s)" "keeps frame (duplicate_for_read E s s')"
  "keeps frame (duplicate_for_write E s s')" "keeps frame (keepAlive E s)"
  unfolding socket_defs by (intro fr.keeps_rules keeps_intro shared_call_simps)+

end
