(* ===== verification/StreamReactor.thy ===== *)
theory StreamReactor
  imports Socket
begin

text \<open>
  \<^verbatim>\<open>core/streamreactor.{hh,cc}\<close> and \<^verbatim>\<open>core/stickreactor.{hh,cc}\<close>: the reactor that copies
  bytes from one socket to another, one buffer at a time, and the reactor with a single socket.
\<close>

section \<open>StreamReactor\<close>

definition reset_srcSock :: "env \<Rightarrow> rid \<Rightarrow> unit M" where
  "reset_srcSock E r = bindM (getR r) (\<lambda>x.
     bindM (UniqRecvFD_reset E (sk_fd (srcSock x))) (\<lambda>fd.
     modR r (\<lambda>x. x\<lparr>srcSock := (srcSock x)\<lparr>sk_fd := fd\<rparr>\<rparr>)))"

definition reset_dstSock :: "env \<Rightarrow> rid \<Rightarrow> unit M" where
  "reset_dstSock E r = bindM (getR r) (\<lambda>x.
     bindM (UniqSendFD_reset E (sk_fd (dstSock x))) (\<lambda>fd.
     modR r (\<lambda>x. x\<lparr>dstSock := (dstSock x)\<lparr>sk_fd := fd\<rparr>\<rparr>)))"

definition close_srcSock :: "env \<Rightarrow> rid \<Rightarrow> unit M" where
  "close_srcSock E r = bindM (getR r) (\<lambda>x.
     seqM (Poller_remove E (sk_fd (srcSock x)) False) (reset_srcSock E r))"

definition close_dstSock :: "env \<Rightarrow> rid \<Rightarrow> unit M" where
  "close_dstSock E r = bindM (getR r) (\<lambda>x.
     seqM (Poller_remove E (sk_fd (dstSock x)) False) (reset_dstSock E r))"

definition set_streamState :: "rid \<Rightarrow> StreamState \<Rightarrow> unit M" where
  "set_streamState r s = modR r (\<lambda>x. x\<lparr>streamState := s\<rparr>)"

text \<open>The case SS_SENDING of \<open>process\<close>.\<close>

definition StreamReactor_sending :: "env \<Rightarrow> rid \<Rightarrow> unit M" where
  "StreamReactor_sending E r = bindM (getR r) (\<lambda>x.
     bindM (sockSend E (dstSock x) r) (\<lambda>bytes.
     if bytes = 0 then seqM (close_srcSock E r) (close_dstSock E r)
     else bindM (getR r) (\<lambda>x.
       if usedSize (buf x) = 0
       then seqM (set_streamState r SS_RECEIVING) (Poller_add E r (sk_fd (srcSock x)) IN_EVENTS)
       else Poller_add E r (sk_fd (dstSock x)) OUT_EVENTS)))"

text \<open>The case SS_RECEIVING, which falls through to the other one.\<close>

definition StreamReactor_receiving :: "env \<Rightarrow> rid \<Rightarrow> unit M" where
  "StreamReactor_receiving E r = bindM (getR r) (\<lambda>x.
     bindM (sockRecv E (srcSock x) r) (\<lambda>bytes.
     if bytes = 0 then
       seqM (close_srcSock E r)
       (bindM (getR r) (\<lambda>x.
         if usedSize (buf x) = 0 then close_dstSock E r
         else seqM (set_streamState r SS_SENDING) (StreamReactor_sending E r)))
     else seqM (set_streamState r SS_SENDING) (StreamReactor_sending E r)))"

definition StreamReactor_process :: "env \<Rightarrow> rid \<Rightarrow> unit M" where
  "StreamReactor_process E r = bindM (getR r) (\<lambda>x. case streamState x of
       SS_RECEIVING \<Rightarrow> StreamReactor_receiving E r
     | SS_SENDING \<Rightarrow> StreamReactor_sending E r)"

definition StreamReactor_start :: "env \<Rightarrow> rid \<Rightarrow> unit M" where
  "StreamReactor_start E r = bindM (getR r) (\<lambda>x.
     let s = (if usedSize (buf x) > 0 then SS_SENDING else SS_RECEIVING)
     in seqM (set_streamState r s)
        (case s of
           SS_RECEIVING \<Rightarrow> Poller_add E r (sk_fd (srcSock x)) IN_EVENTS
         | SS_SENDING \<Rightarrow> Poller_add E r (sk_fd (dstSock x)) OUT_EVENTS))"

text \<open>
  The destructor: the poller forgets the descriptors, whatever happens on the way, then the
  members are destroyed in reverse order of declaration, which closes both descriptors.
\<close>

definition StreamReactor_destroy :: "env \<Rightarrow> rid \<Rightarrow> unit M" where
  "StreamReactor_destroy E r = bindM (getR r) (\<lambda>x.
     seqM (tryM (seqM (Poller_remove E (sk_fd (srcSock x)) False)
                      (Poller_remove E (sk_fd (dstSock x)) False)) (\<lambda>_. ret ()))
     (seqM (UniqSendFD_destroy E (sk_fd (dstSock x)))
     (seqM (UniqRecvFD_destroy E (sk_fd (srcSock x)))
     (deleteR r))))"

section \<open>StickReactor\<close>

definition StickReactor_destroy :: "env \<Rightarrow> rid \<Rightarrow> unit M" where
  "StickReactor_destroy E r = bindM (getR r) (\<lambda>x.
     seqM (tryM (Poller_remove E (sk_fd (sock x)) False) (\<lambda>_. ret ()))
     (seqM (UniqFD_destroy E (sk_fd (sock x)))
     (deleteR r)))"

end
