(* ===== verification/ProxyConn.thy ===== *)
theory ProxyConn
  imports Auth StreamReactor
begin

text \<open>
  One connection of the proxy: \<^verbatim>\<open>proxy/proxyupstreamer.{hh,cc}\<close>, \<^verbatim>\<open>proxy/authserver.{hh,cc}\<close>,
  \<^verbatim>\<open>proxy/simpleproxydownstreamer.{hh,cc}\<close>, \<^verbatim>\<open>proxy/connectproxydownstreamer.{hh,cc}\<close>,
  \<^verbatim>\<open>proxy/resolver.{hh,cc}\<close> and the connection handler of \<^verbatim>\<open>proxy/proxy.cc\<close>. The upstreamer reads
  the request and hands over to the authentication server, which answers and, if the client is
  let in, calls \<open>authDone\<close>; the upstreamer then connects to the remote side and becomes the relay
  from the client to the remote, with a downstreamer for the other direction.

  A constructor that throws has its bases and members destroyed and the object is gone; that is
  the handler of \<open>construct\<close>. Objects that lose their last owner later are destroyed by the
  \<open>destroy\<close> operations; when that happens is not part of this model.
\<close>

section \<open>Access to the upstreamer\<close>

definition getPU :: "rid \<Rightarrow> proxyup_data M" where
  "getPU r = bindM (getR r) (\<lambda>x. case cls x of
     CProxyUpstreamer d \<Rightarrow> ret d | _ \<Rightarrow> abort DanglingReference)"

definition modPU :: "rid \<Rightarrow> (proxyup_data \<Rightarrow> proxyup_data) \<Rightarrow> unit M" where
  "modPU r f = modR r (\<lambda>x. case cls x of
     CProxyUpstreamer d \<Rightarrow> x\<lparr>cls := CProxyUpstreamer (f d)\<rparr> | _ \<Rightarrow> x)"

definition set_reply_code :: "rid \<Rightarrow> opcode \<Rightarrow> unit M" where
  "set_reply_code r c = modPU r (\<lambda>d. d\<lparr>pu_reply := (pu_reply d)\<lparr>or_code := c\<rparr>\<rparr>)"

definition set_pu_state :: "rid \<Rightarrow> ProxyUpState \<Rightarrow> unit M" where
  "set_pu_state r s = modPU r (\<lambda>d. d\<lparr>pu_state := s\<rparr>)"

section \<open>Downstreamers\<close>

definition construct :: "(rid \<Rightarrow> unit M) \<Rightarrow> rid \<Rightarrow> unit M \<Rightarrow> rid M" where
  "construct destroy r body = tryM (seqM body (ret r)) (\<lambda>e. seqM (destroy r) (throw e))"

text \<open>\<open>buf.use(reply->pack(buf.getTail(), buf.availSize()))\<close>\<close>

definition pack_into :: "rid \<Rightarrow> (nat \<Rightarrow> exn + byte list) \<Rightarrow> unit M" where
  "pack_into r pack = bindM (getR r) (\<lambda>x. case pack (unat (availSize (buf x))) of
       Inl e \<Rightarrow> throw e
     | Inr xs \<Rightarrow> buf_receive r xs (int (length xs)))"

definition dup_dstSock :: "env \<Rightarrow> rid \<Rightarrow> rid \<Rightarrow> unit M" where
  "dup_dstSock E r upstreamer = bindM (getR r) (\<lambda>x. bindM (getR upstreamer) (\<lambda>u.
     bindM (duplicate_for_write E (dstSock x) (srcSock u)) (\<lambda>s. modR r (\<lambda>x. x\<lparr>dstSock := s\<rparr>))))"

definition dup_srcSock :: "env \<Rightarrow> rid \<Rightarrow> rid \<Rightarrow> unit M" where
  "dup_srcSock E r upstreamer = bindM (getR r) (\<lambda>x. bindM (getR upstreamer) (\<lambda>u.
     bindM (duplicate_for_read E (srcSock x) (dstSock u)) (\<lambda>s. modR r (\<lambda>x. x\<lparr>srcSock := s\<rparr>))))"

definition SimpleProxyDownstreamer_new :: "env \<Rightarrow> rid \<Rightarrow> opreply \<Rightarrow> rid M" where
  "SimpleProxyDownstreamer_new E upstreamer reply =
     bindM (newR (new_reactor CSimpleProxyDownstreamer)) (\<lambda>r.
     construct (StreamReactor_destroy E) r
       (seqM (pack_into r (packOpReply E reply)) (dup_dstSock E r upstreamer)))"

definition SimpleProxyDownstreamer_new_version :: "env \<Rightarrow> rid \<Rightarrow> rid M" where
  "SimpleProxyDownstreamer_new_version E upstreamer =
     bindM (newR (new_reactor CSimpleProxyDownstreamer)) (\<lambda>r.
     construct (StreamReactor_destroy E) r
       (bindM (getR r) (\<lambda>x.
          if unat (availSize (buf x)) < length (versionBytes E)
          then throw (RuntimeError ''buffer too small'')
          else seqM (buf_receive r (versionBytes E) (int (length (versionBytes E))))
                    (dup_dstSock E r upstreamer))))"

definition ConnectProxyDownstreamer_new :: "env \<Rightarrow> rid \<Rightarrow> opreply \<Rightarrow> rid M" where
  "ConnectProxyDownstreamer_new E upstreamer reply =
     bindM (newR (new_reactor (CConnectProxyDownstreamer upstreamer))) (\<lambda>r.
     construct (StreamReactor_destroy E) r
       (seqM (pack_into r (packOpReply E reply))
       (seqM (dup_srcSock E r upstreamer) (dup_dstSock E r upstreamer))))"

definition ConnectProxyDownstreamer_process :: "env \<Rightarrow> rid \<Rightarrow> unit M" where
  "ConnectProxyDownstreamer_process E r = StreamReactor_process E r"

text \<open>\<open>poller->assign(new SimpleProxyDownstreamer(this, &reply))\<close>\<close>

definition assign_simple :: "env \<Rightarrow> rid \<Rightarrow> unit M" where
  "assign_simple E r = bindM (getPU r) (\<lambda>d.
     bindM (SimpleProxyDownstreamer_new E r (pu_reply d)) (\<lambda>s.
     Poller_assign E s (StreamReactor_start E s)))"

section \<open>Connecting\<close>

definition MSS :: size_t where "MSS = 1460"

definition sockAddr :: "proxyup_data \<Rightarrow> sockaddr" where
  "sockAddr d = \<lparr>sa_addr = (case pu_addr d of Some a \<Rightarrow> a | None \<Rightarrow> IPv4 0),
     sa_port = (case pu_request d of Some rq \<Rightarrow> rq_port rq | None \<Rightarrow> 0)\<rparr>"

text \<open>The request of an upstreamer that has read one (\<open>*request\<close>).\<close>

definition the_request :: "proxyup_data \<Rightarrow> request M" where
  "the_request d = (case pu_request d of Some rq \<Rightarrow> ret rq | None \<Rightarrow> abort NullDereference)"

text \<open>The case S_READING_TFO_PAYLOAD of \<open>process\<close>.\<close>

definition ProxyUpstreamer_readTFO :: "env \<Rightarrow> rid \<Rightarrow> bool M" where
  "ProxyUpstreamer_readTFO E r = bindM (getR r) (\<lambda>x. bindM (getPU r) (\<lambda>d.
     if usedSize (buf x) < pu_tfoPayload d then
       bindM (sockRecv E (srcSock x) r) (\<lambda>bytes.
       if bytes = 0 then ret False
       else bindM (getR r) (\<lambda>x.
         if usedSize (buf x) < pu_tfoPayload d
         then seqM (Poller_add E r (sk_fd (srcSock x)) IN_EVENTS) (ret False)
         else ret True))
     else ret True))"

definition ProxyUpstreamer_connect :: "env \<Rightarrow> rid \<Rightarrow> unit M" where
  "ProxyUpstreamer_connect E r = bindM (getR r) (\<lambda>x. bindM (getPU r) (\<lambda>d.
     bindM (the_request d) (\<lambda>_.
     bindM (tryM (seqM (sockConnect E (dstSock x) r (sockAddr d) (pu_tfoPayload d) False) (ret True))
                 (\<lambda>e. case e of
                    SystemError _ \<Rightarrow>
                      seqM (set_reply_code r SOCKS6_OPERATION_REPLY_FAILURE)
                      (seqM (assign_simple E r) (ret False))
                  | _ \<Rightarrow> throw e)) (\<lambda>connecting.
     if \<not> connecting then ret ()
     else seqM (Poller_add E r (sk_fd (dstSock x)) OUT_EVENTS) (set_pu_state r PU_CONNECTING)))))"

definition ProxyUpstreamer_tfo :: "env \<Rightarrow> rid \<Rightarrow> unit M" where
  "ProxyUpstreamer_tfo E r = bindM (ProxyUpstreamer_readTFO E r) (\<lambda>go.
     if go then ProxyUpstreamer_connect E r else ret ())"

definition honorConnectStackOptions :: "rid \<Rightarrow> unit M" where
  "honorConnectStackOptions r = bindM (getPU r) (\<lambda>d. bindM (the_request d) (\<lambda>rq.
     modPU r (\<lambda>d. d\<lparr>pu_tfoPayload :=
       min (case rq_tfo rq of None \<Rightarrow> 0 | Some n \<Rightarrow> ucast n) MSS\<rparr>)))"

text \<open>
  \<open>honorConnect\<close> sets the state and calls \<open>process(-1, 0)\<close>, which enters the case of that state.
\<close>

definition honorConnect :: "env \<Rightarrow> rid \<Rightarrow> unit M" where
  "honorConnect E r = bindM (getR r) (\<lambda>x. bindM (getPU r) (\<lambda>d.
     bindM (the_request d) (\<lambda>_.
     bindM (extcall E (SocketFD (saFamily E (sockAddr d)))) (\<lambda>rc.
     bindM (UniqFD_assign (sk_fd (dstSock x)) (c_rc rc)) (\<lambda>fd.
     seqM (modR r (\<lambda>x. x\<lparr>dstSock := (dstSock x)\<lparr>sk_fd := fd\<rparr>\<rparr>))
     (if fd < 0 then throw (SystemError (c_errno rc))
      else seqM (honorConnectStackOptions r)
           (seqM (set_pu_state r PU_READING_TFO_PAYLOAD)
           (ProxyUpstreamer_tfo E r))))))))"

definition populateConnectStackOptions :: "env \<Rightarrow> rid \<Rightarrow> unit M" where
  "populateConnectStackOptions E r = bindM (getR r) (\<lambda>x.
     bindM (extcall E (HasMPTCP (sk_fd (dstSock x)))) (\<lambda>rc.
     if c_rc rc > 0 then modPU r (\<lambda>d. d\<lparr>pu_reply := (pu_reply d)\<lparr>or_mp := True\<rparr>\<rparr>) else ret ()))"

definition honorRequest :: "env \<Rightarrow> rid \<Rightarrow> unit M" where
  "honorRequest E r = tryM
     (bindM (getPU r) (\<lambda>d. bindM (the_request d) (\<lambda>rq. case rq_code rq of
          SOCKS6_REQUEST_CONNECT \<Rightarrow> honorConnect E r
        | SOCKS6_REQUEST_NOOP \<Rightarrow>
            seqM (set_reply_code r SOCKS6_OPERATION_REPLY_SUCCESS) (assign_simple E r)
        | _ \<Rightarrow> seqM (set_reply_code r SOCKS6_OPERATION_REPLY_CMD_NOT_SUPPORTED) (assign_simple E r))))
     (\<lambda>_. seqM (set_reply_code r SOCKS6_OPERATION_REPLY_FAILURE) (assign_simple E r))"

text \<open>
  An \<open>in_addr\<close> holds its four octets in memory order; as a number it is what a little-endian
  machine reads from them. INADDR_LOOPBACK is a number in host order.
\<close>

definition INADDR_LOOPBACK :: u32 where "INADDR_LOOPBACK = 0x7f000001"

definition in_addr_octets :: "u32 \<Rightarrow> byte list" where
  "in_addr_octets a = map (\<lambda>i. ucast (drop_bit (8 * i) a)) [0..<4]"

definition DEFAULT_SERVICES :: "u16 set" where "DEFAULT_SERVICES = {53}"

definition fixup :: "env \<Rightarrow> request \<Rightarrow> address" where
  "fixup E rq = (if addrIsZero E (rq_address rq) \<and> rq_port rq \<in> DEFAULT_SERVICES
     then IPv4 INADDR_LOOPBACK else rq_address rq)"

definition addrFixupAndHonorRequest :: "env \<Rightarrow> rid \<Rightarrow> unit M" where
  "addrFixupAndHonorRequest E r = bindM (getPU r) (\<lambda>d. bindM (the_request d) (\<lambda>rq.
     case rq_address rq of
       Domain _ \<Rightarrow>
         seqM (set_reply_code r SOCKS6_OPERATION_REPLY_ADDR_NOT_SUPPORTED) (assign_simple E r)
     | _ \<Rightarrow> seqM (modPU r (\<lambda>d. d\<lparr>pu_addr := Some (fixup E rq)\<rparr>)) (honorRequest E r)))"

definition authDone :: "env \<Rightarrow> rid \<Rightarrow> unit M" where
  "authDone E r = addrFixupAndHonorRequest E r"

definition resolvDone :: "env \<Rightarrow> rid \<Rightarrow> address option \<Rightarrow> unit M" where
  "resolvDone E r resolved = (case resolved of
       None \<Rightarrow> seqM (set_reply_code r SOCKS6_OPERATION_REPLY_HOST_UNREACH) (assign_simple E r)
     | Some a \<Rightarrow> seqM (modPU r (\<lambda>d. d\<lparr>pu_addr := Some a\<rparr>)) (honorRequest E r))"

section \<open>The authentication server\<close>

definition getAS :: "rid \<Rightarrow> authserver_data M" where
  "getAS r = bindM (getR r) (\<lambda>x. case cls x of CAuthServer d \<Rightarrow> ret d | _ \<Rightarrow> abort DanglingReference)"

definition modAS :: "rid \<Rightarrow> (authserver_data \<Rightarrow> authserver_data) \<Rightarrow> unit M" where
  "modAS r f = modR r (\<lambda>x. case cls x of
     CAuthServer d \<Rightarrow> x\<lparr>cls := CAuthServer (f d)\<rparr> | _ \<Rightarrow> x)"

definition sendReply :: "env \<Rightarrow> rid \<Rightarrow> unit M" where
  "sendReply E r = bindM (getR r) (\<lambda>x. bindM (getAS r) (\<lambda>d.
     bindM (sockSend E (sock x) r) (\<lambda>bytes.
     seqM (if bytes = 0 then deactivate E r else ret ())
     (bindM (getR r) (\<lambda>x.
       if usedSize (buf x) > 0 then Poller_add E r (sk_fd (sock x)) OUT_EVENTS
       else case as_reply d of
         None \<Rightarrow> abort NullDereference
       | Some reply \<Rightarrow>
           if ar_code reply = SOCKS6_AUTH_REPLY_SUCCESS
           then Poller_runAs E (as_upstreamer d) (authDone E (as_upstreamer d))
           else deactivate E (as_upstreamer d))))))"

definition AuthServer_process :: "env \<Rightarrow> rid \<Rightarrow> unit M" where
  "AuthServer_process E r = sendReply E r"

definition AuthServer_start :: "env \<Rightarrow> rid \<Rightarrow> unit M" where
  "AuthServer_start E r = AuthServer_process E r"

definition AuthServer_new :: "env \<Rightarrow> rid \<Rightarrow> rid M" where
  "AuthServer_new E upstreamer =
     bindM (newR (new_reactor (CAuthServer \<lparr>as_upstreamer = upstreamer, as_reply = None\<rparr>))) (\<lambda>r.
     construct (StickReactor_destroy E) r
       (bindM (getR r) (\<lambda>x. bindM (getR upstreamer) (\<lambda>u. bindM (getPU upstreamer) (\<lambda>d.
        bindM (duplicate_for_write E (sock x) (srcSock u)) (\<lambda>s.
        seqM (modR r (\<lambda>x. x\<lparr>sock := s\<rparr>))
        (bindM (the_request d) (\<lambda>rq.
        bindM (authenticate E rq (pu_proxy d)) (\<lambda>reply.
        seqM (modAS r (\<lambda>d. d\<lparr>as_reply := Some reply\<rparr>))
        (pack_into r (packAuthReply E reply)))))))))))"

section \<open>The upstreamer\<close>

definition ProxyUpstreamer_new :: "env \<Rightarrow> rid \<Rightarrow> int \<Rightarrow> rid M" where
  "ProxyUpstreamer_new E proxy srcFD = bindM (getProxy proxy) (\<lambda>p.
     bindM (newR (new_reactor (CProxyUpstreamer \<lparr>pu_proxy = proxy, pu_state = PU_READING_REQ,
       pu_tfoPayload = 0, pu_request = None, pu_reply = \<lparr>or_code = SOCKS6_OPERATION_REPLY_FAILURE,
       or_bind = None, or_mp = False\<rparr>, pu_addr = None\<rparr>))) (\<lambda>r.
     construct (StreamReactor_destroy E) r
       (bindM (getR r) (\<lambda>x.
        bindM (UniqRecvFD_move_assign (sk_fd (srcSock x)) srcFD) (\<lambda>(fd, _).
        seqM (modR r (\<lambda>x. x\<lparr>srcSock := (srcSock x)\<lparr>sk_fd := fd\<rparr>\<rparr>))
        (seqM (keepAlive E \<lparr>sk_fd = fd, sk_tls = None\<rparr>)
        (case px_serverCtx p of
           None \<Rightarrow> ret ()
         | Some ctx \<Rightarrow> bindM (TLS_new E ctx fd) (\<lambda>t.
             modR r (\<lambda>x. x\<lparr>srcSock := (srcSock x)\<lparr>sk_tls := Some t\<rparr>\<rparr>)))))))))"

text \<open>The case S_READING_REQ.\<close>

definition ProxyUpstreamer_readReq :: "env \<Rightarrow> rid \<Rightarrow> unit M" where
  "ProxyUpstreamer_readReq E r = bindM (getR r) (\<lambda>x.
     bindM (sockRecv E (srcSock x) r) (\<lambda>bytes.
     if bytes = 0 then ret ()
     else bindM (buffered r) (\<lambda>bb. case parseRequest E bb of
         Inl BadVersionException \<Rightarrow>
           bindM (SimpleProxyDownstreamer_new_version E r) (\<lambda>s.
           Poller_assign E s (StreamReactor_start E s))
       | Inl EndOfBufferException \<Rightarrow> Poller_add E r (sk_fd (srcSock x)) IN_EVENTS
       | Inl e \<Rightarrow> throw e
       | Inr (rq, used) \<Rightarrow>
           seqM (modPU r (\<lambda>d. d\<lparr>pu_request := Some rq\<rparr>))
           (seqM (modBuf r (unuse (of_nat used)))
           (bindM (AuthServer_new E r) (\<lambda>a. Poller_assign E a (AuthServer_start E a)))))))"

text \<open>The case S_CONNECTING, which falls through to S_STREAM.\<close>

definition ProxyUpstreamer_connecting :: "env \<Rightarrow> rid \<Rightarrow> unit M" where
  "ProxyUpstreamer_connecting E r = bindM (getR r) (\<lambda>x.
     bindM (tryM (bindM (getConnectError E (dstSock x)) (\<lambda>err. ret (connectErrnoToReplyCode E err)))
                 (\<lambda>e. case e of SystemError _ \<Rightarrow> ret SOCKS6_OPERATION_REPLY_FAILURE | _ \<Rightarrow> throw e)) (\<lambda>code.
     seqM (set_reply_code r code)
     (if code \<noteq> SOCKS6_OPERATION_REPLY_SUCCESS then assign_simple E r
      else seqM (keepAlive E (dstSock x))
        (bindM (checked E (GetSockName (sk_fd (dstSock x)))) (\<lambda>rc.
         seqM (modPU r (\<lambda>d. d\<lparr>pu_reply := (pu_reply d)\<lparr>or_code := SOCKS6_OPERATION_REPLY_SUCCESS,
                 or_bind := Some (sa_addr (c_addr rc), sa_port (c_addr rc))\<rparr>\<rparr>))
         (seqM (populateConnectStackOptions E r)
         (bindM (getPU r) (\<lambda>d.
         bindM (ConnectProxyDownstreamer_new E r (pu_reply d)) (\<lambda>s.
         seqM (Poller_assign E s (StreamReactor_start E s))
         (seqM (set_pu_state r PU_STREAM)
         (bindM (getR r) (\<lambda>x.
         seqM (set_streamState r (if usedSize (buf x) > 0 then SS_SENDING else SS_RECEIVING))
         (StreamReactor_process E r))))))))))))) "

definition ProxyUpstreamer_process :: "env \<Rightarrow> rid \<Rightarrow> unit M" where
  "ProxyUpstreamer_process E r = bindM (getPU r) (\<lambda>d. case pu_state d of
       PU_READING_REQ \<Rightarrow> ProxyUpstreamer_readReq E r
     | PU_READING_TFO_PAYLOAD \<Rightarrow> ProxyUpstreamer_tfo E r
     | PU_CONNECTING \<Rightarrow> ProxyUpstreamer_connecting E r
     | PU_STREAM \<Rightarrow> StreamReactor_process E r)"

definition ProxyUpstreamer_start :: "env \<Rightarrow> rid \<Rightarrow> unit M" where
  "ProxyUpstreamer_start E r = ProxyUpstreamer_process E r"

section \<open>Resolver and connection handler\<close>

definition Resolver_start :: "unit M" where "Resolver_start = ret ()"

definition Resolver_process :: "unit M" where "Resolver_process = ret ()"

definition resolve :: "env \<Rightarrow> rid \<Rightarrow> string \<Rightarrow> unit M" where
  "resolve E upstreamer hostname = Poller_runAs E upstreamer (resolvDone E upstreamer None)"

definition Proxy_handleNewConnection :: "env \<Rightarrow> rid \<Rightarrow> int \<Rightarrow> unit M" where
  "Proxy_handleNewConnection E p fd =
     tryM (bindM (ProxyUpstreamer_new E p fd) (\<lambda>r. Poller_assign E r (ProxyUpstreamer_start E r)))
          (\<lambda>_. ret ())"

section \<open>Frame facts\<close>

text \<open>
  The definitions of this theory are compositions, so a relation that the parts keep is kept by
  the whole. \<open>conn_defs\<close> unfolds the methods that have no part of their own to speak of.
\<close>

lemmas conn_defs = set_reply_code_def set_pu_state_def construct_def pack_into_def dup_dstSock_def
  dup_srcSock_def SimpleProxyDownstreamer_new_def SimpleProxyDownstreamer_new_version_def
  ConnectProxyDownstreamer_new_def ConnectProxyDownstreamer_process_def assign_simple_def
  ProxyUpstreamer_readTFO_def ProxyUpstreamer_connect_def ProxyUpstreamer_tfo_def
  honorConnectStackOptions_def honorConnect_def populateConnectStackOptions_def honorRequest_def
  addrFixupAndHonorRequest_def authDone_def resolvDone_def sendReply_def AuthServer_process_def
  AuthServer_start_def AuthServer_new_def ProxyUpstreamer_new_def ProxyUpstreamer_readReq_def
  ProxyUpstreamer_connecting_def ProxyUpstreamer_process_def ProxyUpstreamer_start_def
  Poller_assign_def

lemma object_after_simps [simp]:
  "object_after x (x\<lparr>sock := s\<rparr>)" "object_after x (x\<lparr>srcSock := s\<rparr>)" "object_after x (x\<lparr>dstSock := s\<rparr>)"
  "object_after x (x\<lparr>buf := b\<rparr>)" "object_after x (x\<lparr>streamState := st\<rparr>)" "object_after x x"
  "object_after x (x\<lparr>cls := c\<rparr>) \<longleftrightarrow> class_tag c = class_tag (cls x)"
  by (simp_all add: object_after_def)

lemma keeps_choices:
  "keeps R a \<Longrightarrow> keeps R b \<Longrightarrow> keeps R (case st of SS_RECEIVING \<Rightarrow> a | SS_SENDING \<Rightarrow> b)"
  "(\<And>a. keeps R (f1 a)) \<Longrightarrow> (\<And>a. keeps R (f2 a)) \<Longrightarrow> (\<And>a. keeps R (f3 a)) \<Longrightarrow>
     keeps R (case ad of IPv4 x \<Rightarrow> f1 x | IPv6 y \<Rightarrow> f2 y | Domain z \<Rightarrow> f3 z)"
  "keeps R a \<Longrightarrow> keeps R b \<Longrightarrow> (\<And>n. keeps R (g n)) \<Longrightarrow>
     keeps R (case c of SOCKS6_REQUEST_NOOP \<Rightarrow> a | SOCKS6_REQUEST_CONNECT \<Rightarrow> b | SOCKS6_REQUEST_OTHER n \<Rightarrow> g n)"
  "keeps R a \<Longrightarrow> keeps R b \<Longrightarrow> keeps R c' \<Longrightarrow> keeps R d \<Longrightarrow>
     keeps R (case ps of PU_READING_REQ \<Rightarrow> a | PU_READING_TFO_PAYLOAD \<Rightarrow> b | PU_CONNECTING \<Rightarrow> c' | PU_STREAM \<Rightarrow> d)"
  by (auto split: StreamState.split address.split reqcode.split ProxyUpState.split)

lemma keeps_exn_case:
  assumes "\<And>a b. keeps R (f1 a b)" "\<And>a. keeps R (f2 a)" "\<And>a. keeps R (f3 a)" "\<And>a. keeps R (f4 a)"
    "\<And>a. keeps R (f5 a)" "\<And>a. keeps R (f6 a)" "keeps R f7" "keeps R f8" "\<And>a. keeps R (f9 a)"
  shows "keeps R (case e of RescheduleException a b \<Rightarrow> f1 a b | SystemError a \<Rightarrow> f2 a
     | RuntimeError a \<Rightarrow> f3 a | LengthError a \<Rightarrow> f4 a | InvalidArgument a \<Rightarrow> f5 a
     | TLSException a \<Rightarrow> f6 a | BadVersionException \<Rightarrow> f7 | EndOfBufferException \<Rightarrow> f8 | S6MException a \<Rightarrow> f9 a)"
  using assms by (simp split: exn.split)

lemma frame_stream_basic [keeps_intro]:
  "keeps frame (set_streamState r s)" "keeps frame (reset_srcSock E r)" "keeps frame (reset_dstSock E r)"
  "keeps frame (close_srcSock E r)" "keeps frame (close_dstSock E r)"
  unfolding set_streamState_def reset_srcSock_def reset_dstSock_def close_srcSock_def close_dstSock_def
  by (intro fr.keeps_rules keeps_intro object_after_simps)+

lemma frame_stream [keeps_intro]:
  "keeps frame (StreamReactor_process E r)" "keeps frame (StreamReactor_start E r)"
  "keeps frame (StreamReactor_destroy E r)" "keeps frame (StickReactor_destroy E r)"
  unfolding StreamReactor_process_def StreamReactor_start_def StreamReactor_destroy_def
    StickReactor_destroy_def StreamReactor_sending_def StreamReactor_receiving_def
  by (intro fr.keeps_rules keeps_intro keeps_choices)+

lemma frame_getters [keeps_intro]:
  "keeps frame (getPU r)" "keeps frame (getAS r)" "keeps frame (the_request d)"
  unfolding getPU_def getAS_def the_request_def
  by (intro fr.keeps_rules keeps_intro; auto split: rclass.split option.split intro: fr.keeps_rules)+

lemma frame_modPU [keeps_intro]: "keeps frame (modPU r f)"
  unfolding modPU_def by (intro keeps_intro) (auto split: rclass.split)

lemma frame_downstreamers [keeps_intro]:
  "keeps frame (SimpleProxyDownstreamer_new E r rep)" "keeps frame (SimpleProxyDownstreamer_new_version E r)"
  "keeps frame (ConnectProxyDownstreamer_new E r rep)" "keeps frame (assign_simple E r)"
  "keeps frame (pack_into r pk)" "keeps frame (set_reply_code r c)" "keeps frame (set_pu_state r s)"
  unfolding conn_defs by (intro fr.keeps_rules keeps_intro object_after_simps)+

lemma frame_connect [keeps_intro]:
  "keeps frame (ProxyUpstreamer_readTFO E r)" "keeps frame (ProxyUpstreamer_connect E r)"
  "keeps frame (honorConnectStackOptions r)" "keeps frame (populateConnectStackOptions E r)"
  unfolding ProxyUpstreamer_readTFO_def ProxyUpstreamer_connect_def honorConnectStackOptions_def
    populateConnectStackOptions_def
  by (intro fr.keeps_rules keeps_intro keeps_exn_case shared_call_simps)+

lemma frame_tfo [keeps_intro]: "keeps frame (ProxyUpstreamer_tfo E r)"
  unfolding ProxyUpstreamer_tfo_def by (intro fr.keeps_rules keeps_intro)

lemma frame_honorConnect [keeps_intro]: "keeps frame (honorConnect E r)"
  unfolding honorConnect_def by (intro fr.keeps_rules keeps_intro shared_call_simps object_after_simps)

lemma frame_honorRequest [keeps_intro]: "keeps frame (honorRequest E r)"
  unfolding honorRequest_def by (intro fr.keeps_rules keeps_intro keeps_choices)

lemma frame_requests [keeps_intro]:
  "keeps frame (authDone E r)" "keeps frame (resolvDone E r a)"
  unfolding authDone_def addrFixupAndHonorRequest_def resolvDone_def
  by (intro fr.keeps_rules keeps_intro keeps_choices)+

lemma frame_sendReply [keeps_intro]: "keeps frame (sendReply E r)"
  unfolding sendReply_def by (intro fr.keeps_rules keeps_intro)

lemma frame_modAS [keeps_intro]: "keeps frame (modAS r f)"
  unfolding modAS_def by (intro keeps_intro) (auto split: rclass.split)

lemma frame_AuthServer [keeps_intro]:
  "keeps frame (AuthServer_new E r)" "keeps frame (AuthServer_process E r)" "keeps frame (AuthServer_start E r)"
  unfolding AuthServer_new_def AuthServer_start_def AuthServer_process_def construct_def
  by (intro fr.keeps_rules keeps_intro object_after_simps)+

lemma frame_ProxyUpstreamer_new [keeps_intro]: "keeps frame (ProxyUpstreamer_new E p fd)"
  unfolding ProxyUpstreamer_new_def construct_def
  by (intro fr.keeps_rules keeps_intro object_after_simps)

lemma frame_ProxyUpstreamer [keeps_intro]: "keeps frame (ProxyUpstreamer_process E r)"
  unfolding ProxyUpstreamer_process_def ProxyUpstreamer_readReq_def ProxyUpstreamer_connecting_def
  by (intro fr.keeps_rules keeps_intro keeps_choices keeps_exn_case shared_call_simps)

lemma frame_proxy [keeps_intro]:
  "keeps frame (ProxyUpstreamer_start E r)" "keeps frame (Proxy_handleNewConnection E p fd)"
  "keeps frame (ConnectProxyDownstreamer_process E r)" "keeps frame (resolve E r name)"
  unfolding ProxyUpstreamer_start_def Proxy_handleNewConnection_def
    ConnectProxyDownstreamer_process_def resolve_def
  by (intro fr.keeps_rules keeps_intro)+

end
