(* ===== verification/Listen.thy ===== *)
theory Listen
  imports ProxyConn
begin

text \<open>
  \<^verbatim>\<open>core/listenreactor.{hh,cc}\<close> and the constructor and \<open>start\<close> of \<^verbatim>\<open>proxy/proxy.{hh,cc}\<close>: the
  reactor that accepts connections and hands each of them to \<open>handleNewConnection\<close>, which its
  subclasses define. The accept loop has no bound of its own: it goes on while \<open>accept4\<close> reports
  an error it takes for transient. It is followed for a number of passes; the theory shows when
  it ends, and that it does not end while the error persists.
\<close>

section \<open>The class\<close>

definition set_listenFD :: "rid \<Rightarrow> int \<Rightarrow> unit M" where
  "set_listenFD r fd = modR r (\<lambda>x. x\<lparr>listenFD := fd\<rparr>)"

text \<open>
  A constructor that throws leaves its own destructor out: only the member \<open>listenFD\<close> is destroyed.
\<close>

definition ListenReactor_unwind :: "env \<Rightarrow> rid \<Rightarrow> unit M" where
  "ListenReactor_unwind E r = bindM (getR r) (\<lambda>x.
     seqM (UniqFD_destroy E (listenFD x)) (deleteR r))"

definition TFO_QLEN :: int where "TFO_QLEN = 256"

definition BACKLOG :: int where "BACKLOG = 128"

definition ListenReactor_init :: "env \<Rightarrow> rid \<Rightarrow> sockaddr \<Rightarrow> unit M" where
  "ListenReactor_init E r bindAddr = bindM (getR r) (\<lambda>x.
     bindM (extcall E (SocketFD AF_INET)) (\<lambda>rc.
     bindM (UniqFD_assign (listenFD x) (c_rc rc)) (\<lambda>fd.
     seqM (set_listenFD r fd)
     (if fd < 0 then throw (SystemError (c_errno rc))
      else bindM (extcall E (SetSockOpt fd SO_REUSEADDR 1)) (\<lambda>_.
           bindM (checked E (BindFD fd bindAddr)) (\<lambda>_.
           bindM (extcall E (SetSockOpt fd TCP_FASTOPEN TFO_QLEN)) (\<lambda>_.
           bindM (checked E (ListenFD fd BACKLOG)) (\<lambda>_. ret ()))))))))"

definition ListenReactor_new :: "env \<Rightarrow> rclass \<Rightarrow> sockaddr \<Rightarrow> rid M" where
  "ListenReactor_new E c bindAddr = bindM (newR (new_reactor c)) (\<lambda>r.
     construct (ListenReactor_unwind E) r (ListenReactor_init E r bindAddr))"

definition ListenReactor_start :: "env \<Rightarrow> rid \<Rightarrow> unit M" where
  "ListenReactor_start E r = bindM (getR r) (\<lambda>x. Poller_add E r (listenFD x) EPOLLIN)"

text \<open>The error numbers after which the loop tries again.\<close>

definition TRANSIENT :: "errno list" where
  "TRANSIENT = [EINTR, ENETDOWN, EPROTO, ENOPROTOOPT, EHOSTDOWN, ENONET, EHOSTUNREACH, EOPNOTSUPP,
     ENETUNREACH, ECONNABORTED, EMFILE, ENFILE, ENOBUFS, ENOMEM]"

fun ListenReactor_loop :: "env \<Rightarrow> (int \<Rightarrow> unit M) \<Rightarrow> rid \<Rightarrow> nat \<Rightarrow> unit M" where
  "ListenReactor_loop E handleNewConnection r 0 = abort OutOfFuel"
| "ListenReactor_loop E handleNewConnection r (Suc n) = bindM (isActive r) (\<lambda>a.
     if \<not> a then ret ()
     else bindM (getR r) (\<lambda>x. bindM (extcall E (Accept4 (listenFD x))) (\<lambda>rc.
       if c_rc rc < 0 then
         (if c_errno rc = EWOULDBLOCK then ListenReactor_start E r
          else if c_errno rc \<in> set TRANSIENT then ListenReactor_loop E handleNewConnection r n
          else throw (SystemError (c_errno rc)))
       else bindM (extcall E (SetSockOpt (c_rc rc) TCP_NODELAY 1)) (\<lambda>_.
            seqM (handleNewConnection (c_rc rc)) (ListenReactor_start E r)))))"

definition ListenReactor_process :: "env \<Rightarrow> (int \<Rightarrow> unit M) \<Rightarrow> rid \<Rightarrow> unit M" where
  "ListenReactor_process E handleNewConnection r =
     ListenReactor_loop E handleNewConnection r (fuel E)"

text \<open>\<open>~ListenReactor\<close> has no handler: an exception of \<open>remove\<close> ends the program.\<close>

definition ListenReactor_destroy :: "env \<Rightarrow> rid \<Rightarrow> unit M" where
  "ListenReactor_destroy E r = bindM (getR r) (\<lambda>x.
     seqM (tryM (Poller_remove E (listenFD x) False) (\<lambda>_. abort Terminated))
     (seqM (UniqFD_destroy E (listenFD x)) (deleteR r)))"

section \<open>The proxy as a listener\<close>

definition Proxy_new :: "env \<Rightarrow> sockaddr \<Rightarrow> password_checker option \<Rightarrow> tlscontext option \<Rightarrow> rid M" where
  "Proxy_new E bindAddr passwordChecker serverCtx =
     bindM (ListenReactor_new E (CProxy \<lparr>px_checker = passwordChecker, px_sessions = Map.empty,
       px_banks = Map.empty, px_serverCtx = serverCtx\<rparr>) bindAddr) (\<lambda>r.
     bindM (newR (new_reactor CResolver)) (\<lambda>resolver. ret r))"

definition Proxy_start :: "env \<Rightarrow> rid \<Rightarrow> unit M" where
  "Proxy_start E r = ListenReactor_start E r"

definition Proxy_process :: "env \<Rightarrow> rid \<Rightarrow> unit M" where
  "Proxy_process E r = ListenReactor_process E (Proxy_handleNewConnection E r) r"

section \<open>The accept loop\<close>

text \<open>The answers that \<open>accept4\<close> would give one after the other from a history.\<close>

fun accepts :: "env \<Rightarrow> int \<Rightarrow> history \<Rightarrow> nat \<Rightarrow> cret" where
  "accepts E fd h 0 = os E h (Accept4 fd)"
| "accepts E fd h (Suc n) = accepts E fd (h @ [(Accept4 fd, os E h (Accept4 fd))]) n"

definition transient :: "cret \<Rightarrow> bool" where
  "transient rc \<longleftrightarrow> c_rc rc < 0 \<and> c_errno rc \<in> set TRANSIENT"

lemma not_transient_again: "EWOULDBLOCK \<notin> set TRANSIENT"
  by (simp add: TRANSIENT_def)

lemma accept_once:
  assumes "reactors w r = Some x" "active x" "transient (os E (hist w) (Accept4 (listenFD x)))"
  shows "ListenReactor_loop E h r (Suc n) w = ListenReactor_loop E h r n
    (w\<lparr>hist := hist w @ [(Accept4 (listenFD x), os E (hist w) (Accept4 (listenFD x)))]\<rparr>)"
  using assms not_transient_again
  by (auto simp: transient_def isActive_def bindM_def run_getR run_extcall run_basic)

lemma accept_spins:
  assumes "reactors w r = Some x" "active x" "\<forall>k < n. transient (accepts E (listenFD x) (hist w) k)"
  shows "\<exists>w'. ListenReactor_loop E h r n w = (Abort OutOfFuel, w')"
  using assms
proof (induction n arbitrary: w)
  case (Suc n)
  let ?w = "w\<lparr>hist := hist w @ [(Accept4 (listenFD x), os E (hist w) (Accept4 (listenFD x)))]\<rparr>"
  have "transient (accepts E (listenFD x) (hist ?w) k)" if "k < n" for k
    using Suc.prems(3)[rule_format, of "Suc k"] that by simp
  then have "\<exists>w'. ListenReactor_loop E h r n ?w = (Abort OutOfFuel, w')"
    using Suc.prems by (intro Suc.IH) auto
  moreover have "transient (os E (hist w) (Accept4 (listenFD x)))"
    using Suc.prems(3)[rule_format, of 0] by simp
  ultimately show ?case
    using accept_once[OF Suc.prems(1,2), of E h n] by (simp del: ListenReactor_loop.simps)
qed (simp add: run_basic)

text \<open>With an answer among the first \<open>n\<close> that is not transient, the loop comes to its end.\<close>

definition accept_end :: "env \<Rightarrow> (int \<Rightarrow> unit M) \<Rightarrow> rid \<Rightarrow> cret \<Rightarrow> unit M" where
  "accept_end E h r rc = (if c_rc rc < 0 then
       (if c_errno rc = EWOULDBLOCK then ListenReactor_start E r else throw (SystemError (c_errno rc)))
     else bindM (extcall E (SetSockOpt (c_rc rc) TCP_NODELAY 1)) (\<lambda>_. seqM (h (c_rc rc)) (ListenReactor_start E r)))"

lemma accept_ends:
  assumes "reactors w r = Some x" "active x" "k < n"
    "\<forall>j < k. transient (accepts E (listenFD x) (hist w) j)"
    "\<not> transient (accepts E (listenFD x) (hist w) k)"
  shows "\<exists>v. reactors v = reactors w \<and> fdEntries v = fdEntries w \<and> fdCount v = fdCount w \<and>
    hist_grows w v \<and> ListenReactor_loop E h r n w = accept_end E h r (accepts E (listenFD x) (hist w) k) v"
  using assms
proof (induction k arbitrary: w n)
  case 0
  then obtain m where n: "n = Suc m" by (cases n) auto
  let ?c = "Accept4 (listenFD x)"
  let ?v = "w\<lparr>hist := hist w @ [(?c, os E (hist w) ?c)]\<rparr>"
  have "ListenReactor_loop E h r n w = accept_end E h r (os E (hist w) ?c) ?v"
    using 0 n by (auto simp: accept_end_def transient_def isActive_def bindM_def run_getR run_extcall run_basic)
  then show ?case
    by (intro exI[of _ ?v]) (simp add: hist_grows_def)
next
  case (Suc k)
  then obtain m where n: "n = Suc m" by (cases n) auto
  let ?c = "Accept4 (listenFD x)"
  let ?v = "w\<lparr>hist := hist w @ [(?c, os E (hist w) ?c)]\<rparr>"
  have ex: "\<exists>v. reactors v = reactors ?v \<and> fdEntries v = fdEntries ?v \<and> fdCount v = fdCount ?v \<and>
    hist_grows ?v v \<and> ListenReactor_loop E h r m ?v = accept_end E h r (accepts E (listenFD x) (hist ?v) k) v"
  proof (rule Suc.IH)
    show "\<forall>j<k. transient (accepts E (listenFD x) (hist ?v) j)"
    proof (intro allI impI)
      fix j assume "j < k"
      then show "transient (accepts E (listenFD x) (hist ?v) j)"
        using Suc.prems(4)[rule_format, of "Suc j"] by simp
    qed
  qed (use Suc.prems n in simp_all)
  have step: "ListenReactor_loop E h r n w = ListenReactor_loop E h r m ?v"
    unfolding n using Suc.prems(4)[rule_format, of 0] by (intro accept_once[OF Suc.prems(1,2)]) simp
  from ex obtain v where v: "reactors v = reactors w" "fdEntries v = fdEntries w" "fdCount v = fdCount w"
    "hist_grows ?v v" "ListenReactor_loop E h r m ?v = accept_end E h r (accepts E (listenFD x) (hist ?v) k) v"
    by auto
  have "hist_grows w ?v" by (simp add: hist_grows_def)
  then have "hist_grows w v" using v(4) by (rule hg.R_trans)
  with v step show ?case
    by (intro exI[of _ v]) (simp del: ListenReactor_loop.simps)
qed

section \<open>Frame facts\<close>

lemma frame_listen_init [keeps_intro]:
  "keeps frame (ListenReactor_init E r a)" "keeps frame (ListenReactor_unwind E r)"
  "keeps frame (ListenReactor_start E r)"
  unfolding ListenReactor_init_def ListenReactor_unwind_def ListenReactor_start_def set_listenFD_def
  by (intro fr.keeps_rules keeps_intro shared_call_simps; simp add: object_after_def)+

lemma frame_listen_new [keeps_intro]: "keeps frame (ListenReactor_new E c a)"
  unfolding ListenReactor_new_def construct_def by (intro fr.keeps_rules keeps_intro)

lemma frame_isActive [keeps_intro]: "keeps frame (isActive r)"
  unfolding isActive_def by (intro fr.keeps_rules keeps_intro)

lemma frame_listen_loop:
  assumes "\<And>fd. keeps frame (h fd)"
  shows "keeps frame (ListenReactor_loop E h r n)"
  by (induction n)
    (simp_all, (intro fr.keeps_rules keeps_intro assms shared_call_simps | assumption)+)

lemma frame_listener [keeps_intro]:
  "(\<And>fd. keeps frame (h fd)) \<Longrightarrow> keeps frame (ListenReactor_process E h r)"
  "keeps frame (Proxy_new E a pc ctx)" "keeps frame (Proxy_start E r)" "keeps frame (Proxy_process E r)"
  unfolding ListenReactor_process_def Proxy_new_def Proxy_start_def Proxy_process_def
  by (auto intro: frame_listen_loop keeps_intro fr.keeps_rules)

end
