(* ===== verification/Proxifier.thy ===== *)
theory Proxifier
  imports Listen
begin

text \<open>
  The client side: \<^verbatim>\<open>proxifier/clientsession.hh\<close>, \<^verbatim>\<open>proxifier/proxifier.{hh,cc}\<close>,
  \<^verbatim>\<open>proxifier/sessionsupplicant.{hh,cc}\<close>, \<^verbatim>\<open>proxifier/proxifierupstreamer.{hh,cc}\<close>,
  \<^verbatim>\<open>proxifier/proxifierdownstreamer.{hh,cc}\<close>, \<^verbatim>\<open>proxifier/readabledeferreactor.{hh,cc}\<close>,
  \<^verbatim>\<open>proxifier/sessionsupplicationagent.{hh,cc}\<close> and
  \<^verbatim>\<open>proxifier/tfocookiesupplicationagent.{hh,cc}\<close>. The proxifier accepts redirected connections,
  prefixes what the client sent with a request and sends both to the proxy. At most one
  connection at a time asks for a session: whoever holds \<open>supplicationLock\<close>. The lock is released
  by the supplicant, when the reply has come or when the supplicant dies without one.

  The token wallet of a session belongs to libsocks6util; its operations are calls to the
  surroundings.
\<close>

section \<open>Sessions of the client\<close>

definition getCS :: "nat \<Rightarrow> client_session M" where
  "getCS s = (\<lambda>w. case csessions w s of
     None \<Rightarrow> (Abort DanglingReference, w) | Some x \<Rightarrow> (Ret x, w))"

definition newCS :: "client_session \<Rightarrow> nat M" where
  "newCS x = (\<lambda>w. (Ret (nextCS w), w\<lparr>
     csessions := (csessions w)(nextCS w \<mapsto> x), nextCS := Suc (nextCS w)\<rparr>))"

definition ClientSession_new :: "env \<Rightarrow> byte list \<Rightarrow> bool \<Rightarrow> u32 \<times> u32 \<Rightarrow> nat M" where
  "ClientSession_new E sid untrusted window =
     bindM (if snd window > 0
            then bindM (extcall E (WalletNew window)) (\<lambda>rc. ret (Some (nat (c_rc rc))))
            else ret None) (\<lambda>wallet.
     newCS \<lparr>cs_id = sid, cs_untrusted = untrusted, cs_wallet = wallet\<rparr>)"

definition updateWallet :: "env \<Rightarrow> nat \<Rightarrow> u32 \<times> u32 \<Rightarrow> unit M" where
  "updateWallet E s window = bindM (getCS s) (\<lambda>x. case cs_wallet x of
       None \<Rightarrow> ret ()
     | Some wallet \<Rightarrow>
         if snd window = 0 then ret ()
         else bindM (extcall E (WalletUpdateWindow wallet window)) (\<lambda>_. ret ()))"

definition getToken :: "env \<Rightarrow> nat \<Rightarrow> u32 option M" where
  "getToken E s = bindM (getCS s) (\<lambda>x. case cs_wallet x of
       None \<Rightarrow> ret None
     | Some wallet \<Rightarrow> bindM (extcall E (WalletExtract wallet)) (\<lambda>rc.
         ret (if c_flag rc then Some (snd (c_out rc)) else None)))"

section \<open>The proxifier's state\<close>

definition getPF :: "rid \<Rightarrow> proxifier_data M" where
  "getPF p = bindM (getR p) (\<lambda>x. case cls x of CProxifier d \<Rightarrow> ret d | _ \<Rightarrow> abort DanglingReference)"

definition modPF :: "rid \<Rightarrow> (proxifier_data \<Rightarrow> proxifier_data) \<Rightarrow> unit M" where
  "modPF p f = modR p (\<lambda>x. case cls x of CProxifier d \<Rightarrow> x\<lparr>cls := CProxifier (f d)\<rparr> | _ \<Rightarrow> x)"

definition getCredentials :: "proxifier_data \<Rightarrow> string \<times> string" where
  "getCredentials d = (pf_username d, pf_password d)"

definition Proxifier_getSession :: "rid \<Rightarrow> nat option M" where
  "Proxifier_getSession p = bindM (getPF p) (\<lambda>d. ret (pf_session d))"

definition killSession :: "rid \<Rightarrow> nat option \<Rightarrow> unit M" where
  "killSession p session =
     modPF p (\<lambda>d. if session = pf_session d then d\<lparr>pf_session := None\<rparr> else d)"

definition setSession :: "rid \<Rightarrow> nat \<Rightarrow> unit M" where
  "setSession p session = modPF p (\<lambda>d. d\<lparr>pf_session := Some session\<rparr>)"

definition supplicantDone :: "rid \<Rightarrow> unit M" where
  "supplicantDone p = modPF p (\<lambda>d. d\<lparr>pf_supplicationLock := False\<rparr>)"

text \<open>
  \<open>lock()\<close> on a spin mutex that is held spins; on the only thread of the program it spins for ever.
\<close>

definition supplicationLock_lock :: "rid \<Rightarrow> unit M" where
  "supplicationLock_lock p = bindM (getPF p) (\<lambda>d.
     if pf_supplicationLock d then abort OutOfFuel
     else modPF p (\<lambda>d. d\<lparr>pf_supplicationLock := True\<rparr>))"

definition supplicationLock_try_lock :: "rid \<Rightarrow> bool M" where
  "supplicationLock_try_lock p = bindM (getPF p) (\<lambda>d.
     if pf_supplicationLock d then ret False
     else seqM (modPF p (\<lambda>d. d\<lparr>pf_supplicationLock := True\<rparr>)) (ret True))"

section \<open>Supplicants\<close>

definition getSP :: "nat \<Rightarrow> session_supplicant M" where
  "getSP s = (\<lambda>w. case supplicants w s of
     None \<Rightarrow> (Abort DanglingReference, w) | Some x \<Rightarrow> (Ret x, w))"

definition setSP :: "nat \<Rightarrow> session_supplicant option \<Rightarrow> unit M" where
  "setSP s x = modify (\<lambda>w. w\<lparr>supplicants := (supplicants w)(s := x)\<rparr>)"

definition SessionSupplicant_new :: "rid \<Rightarrow> nat M" where
  "SessionSupplicant_new p = (\<lambda>w. (Ret (nextSP w), w\<lparr>
     supplicants := (supplicants w)(nextSP w \<mapsto> \<lparr>sp_proxifier = p, sp_done = False\<rparr>),
     nextSP := Suc (nextSP w)\<rparr>))"

definition SessionSupplicant_destroy :: "nat \<Rightarrow> unit M" where
  "SessionSupplicant_destroy s = bindM (getSP s) (\<lambda>x.
     seqM (if \<not> sp_done x then supplicantDone (sp_proxifier x) else ret ())
          (setSP s None))"

definition supplicant_process_request :: "client_request \<Rightarrow> client_request" where
  "supplicant_process_request req =
     req\<lparr>cq_opts := cq_opts req @ [OptSessionRequest, OptIdempotenceRequest 200]\<rparr>"

definition supplicant_process_reply :: "env \<Rightarrow> nat \<Rightarrow> authrep_view \<Rightarrow> unit M" where
  "supplicant_process_reply E s authRep = bindM (getSP s) (\<lambda>x.
     seqM (case av_sessionID authRep of
             None \<Rightarrow> ret ()
           | Some sid \<Rightarrow> bindM (ClientSession_new E sid (av_untrusted authRep) (av_advertised authRep)) (\<lambda>c.
               setSession (sp_proxifier x) c))
     (seqM (supplicantDone (sp_proxifier x))
     (setSP s (Some (x\<lparr>sp_done := True\<rparr>)))))"

section \<open>The downstreamer\<close>

definition getXD :: "rid \<Rightarrow> proxifierdown_data M" where
  "getXD r = bindM (getR r) (\<lambda>x. case cls x of
     CProxifierDownstreamer d \<Rightarrow> ret d | _ \<Rightarrow> abort DanglingReference)"

definition modXD :: "rid \<Rightarrow> (proxifierdown_data \<Rightarrow> proxifierdown_data) \<Rightarrow> unit M" where
  "modXD r f = modR r (\<lambda>x. case cls x of
     CProxifierDownstreamer d \<Rightarrow> x\<lparr>cls := CProxifierDownstreamer (f d)\<rparr> | _ \<Rightarrow> x)"

definition getXU :: "rid \<Rightarrow> proxifierup_data M" where
  "getXU r = bindM (getR r) (\<lambda>x. case cls x of
     CProxifierUpstreamer d \<Rightarrow> ret d | _ \<Rightarrow> abort DanglingReference)"

definition modXU :: "rid \<Rightarrow> (proxifierup_data \<Rightarrow> proxifierup_data) \<Rightarrow> unit M" where
  "modXU r f = modR r (\<lambda>x. case cls x of
     CProxifierUpstreamer d \<Rightarrow> x\<lparr>cls := CProxifierUpstreamer (f d)\<rparr> | _ \<Rightarrow> x)"

definition ProxifierDownstreamer_new :: "env \<Rightarrow> rid \<Rightarrow> rid M" where
  "ProxifierDownstreamer_new E upstreamer = bindM (getXU upstreamer) (\<lambda>u.
     bindM (newR (new_reactor (CProxifierDownstreamer \<lparr>xd_proxifier = xu_proxifier u,
       xd_upstreamer = Some upstreamer, xd_state = XD_WAITING_FOR_AUTH_REP,
       xd_supplicant = xu_supplicant u\<rparr>))) (\<lambda>r.
     construct (StreamReactor_destroy E) r
       (seqM (dup_srcSock E r upstreamer) (dup_dstSock E r upstreamer))))"

text \<open>The \<open>streamState\<close> with which a reactor turns into a relay, and the fall through to it.\<close>

definition enter_stream :: "env \<Rightarrow> rid \<Rightarrow> unit M" where
  "enter_stream E r = bindM (getR r) (\<lambda>x.
     seqM (set_streamState r (if usedSize (buf x) > 0 then SS_SENDING else SS_RECEIVING))
          (StreamReactor_process E r))"

text \<open>The case S_WAITING_FOR_OP_REP, from the comment-free parse of the reply on.\<close>

definition ProxifierDownstreamer_opRep :: "env \<Rightarrow> rid \<Rightarrow> bool \<Rightarrow> unit M" where
  "ProxifierDownstreamer_opRep E r fellThrough = bindM (getR r) (\<lambda>x.
     bindM (if \<not> fellThrough then sockRecv E (srcSock x) r else ret 1) (\<lambda>bytes.
     if bytes = 0 then ret ()
     else bindM (buffered r) (\<lambda>bb. case parseOpReply E bb of
         Inl EndOfBufferException \<Rightarrow> Poller_add E r (sk_fd (srcSock x)) IN_EVENTS
       | Inl e \<Rightarrow> throw e
       | Inr (code, used) \<Rightarrow>
           if code \<noteq> SOCKS6_OPERATION_REPLY_SUCCESS then ret ()
           else seqM (modBuf r (unuse (of_nat used)))
                (seqM (modXD r (\<lambda>d. d\<lparr>xd_upstreamer := None, xd_state := XD_STREAM\<rparr>))
                (enter_stream E r)))))"

text \<open>What the reply says about the session the request was sent under.\<close>

definition ProxifierDownstreamer_session :: "env \<Rightarrow> rid \<Rightarrow> nat option \<Rightarrow> authrep_view \<Rightarrow> unit M" where
  "ProxifierDownstreamer_session E p session authRep = (case session of
       None \<Rightarrow> ret ()
     | Some s \<Rightarrow> seqM (if av_rejected authRep \<or> \<not> av_isOK authRep then killSession p session else ret ())
                      (updateWallet E s (av_advertised authRep)))"

text \<open>The case S_WAITING_FOR_AUTH_REP, which falls through.\<close>

definition ProxifierDownstreamer_authRep :: "env \<Rightarrow> rid \<Rightarrow> unit M" where
  "ProxifierDownstreamer_authRep E r = bindM (getR r) (\<lambda>x. bindM (getXD r) (\<lambda>d.
     bindM (sockRecv E (srcSock x) r) (\<lambda>bytes.
     if bytes = 0 then deactivate E r
     else bindM (buffered r) (\<lambda>bb. case parseAuthReply E bb of
         Inl EndOfBufferException \<Rightarrow> Poller_add E r (sk_fd (srcSock x)) IN_EVENTS
       | Inl e \<Rightarrow> throw e
       | Inr (authRep, used) \<Rightarrow>
           (case xd_upstreamer d of
              None \<Rightarrow> abort NullDereference
            | Some u \<Rightarrow> bindM (getXU u) (\<lambda>up.
                seqM (ProxifierDownstreamer_session E (xd_proxifier d) (xu_session up) authRep)
                (if av_code authRep \<noteq> SOCKS6_AUTH_REPLY_SUCCESS then deactivate E r
                 else seqM (modBuf r (unuse (of_nat used)))
                      (seqM (case xd_supplicant d of
                               None \<Rightarrow> ret ()
                             | Some s \<Rightarrow> supplicant_process_reply E s authRep)
                      (seqM (modXD r (\<lambda>d. d\<lparr>xd_state := XD_WAITING_FOR_OP_REP\<rparr>))
                      (ProxifierDownstreamer_opRep E r True))))))))))"

definition ProxifierDownstreamer_process :: "env \<Rightarrow> rid \<Rightarrow> unit M" where
  "ProxifierDownstreamer_process E r = bindM (getXD r) (\<lambda>d. case xd_state d of
       XD_WAITING_FOR_AUTH_REP \<Rightarrow> ProxifierDownstreamer_authRep E r
     | XD_WAITING_FOR_OP_REP \<Rightarrow> ProxifierDownstreamer_opRep E r False
     | XD_STREAM \<Rightarrow> StreamReactor_process E r)"

section \<open>The upstreamer\<close>

definition HEADROOM :: size_t where "HEADROOM = 17 * 1024"

text \<open>
  The descriptor is moved in after the head room was made, which cannot fail on an empty buffer:
  an exception of the constructor finds it in \<open>srcSock\<close>.
\<close>

definition ProxifierUpstreamer_new :: "env \<Rightarrow> rid \<Rightarrow> int \<Rightarrow> nat option \<Rightarrow> rid M" where
  "ProxifierUpstreamer_new E proxifier srcFD sessionSupplicant = bindM (getPF proxifier) (\<lambda>p.
     bindM (Proxifier_getSession proxifier) (\<lambda>session.
     bindM (newR (new_reactor (CProxifierUpstreamer \<lparr>xu_proxifier = proxifier, xu_state = XU_CONNECTING,
       xu_session = session, xu_dest = \<lparr>sa_addr = IPv4 0, sa_port = 0\<rparr>,
       xu_supplicant = sessionSupplicant\<rparr>))) (\<lambda>r.
     construct (StreamReactor_destroy E) r
       (bindM (getR r) (\<lambda>x.
        bindM (liftO (makeHeadroom HEADROOM (buf x))) (\<lambda>b.
        seqM (modBuf r (\<lambda>_. b))
        (bindM (UniqRecvFD_move_assign (sk_fd (srcSock x)) srcFD) (\<lambda>(fd, _).
        seqM (modR r (\<lambda>x. x\<lparr>srcSock := (srcSock x)\<lparr>sk_fd := fd\<rparr>\<rparr>))
        (bindM (extcall E (SocketFD (saFamily E (pf_proxyAddr p)))) (\<lambda>rc.
        bindM (UniqFD_assign (sk_fd (dstSock x)) (c_rc rc)) (\<lambda>dfd.
        seqM (modR r (\<lambda>x. x\<lparr>dstSock := (dstSock x)\<lparr>sk_fd := dfd\<rparr>\<rparr>))
        (if dfd < 0 then throw (SystemError (c_errno rc))
         else seqM (case pf_clientCtx p of
                      None \<Rightarrow> ret ()
                    | Some ctx \<Rightarrow> bindM (TLS_new E ctx dfd) (\<lambda>t.
                        modR r (\<lambda>x. x\<lparr>dstSock := (dstSock x)\<lparr>sk_tls := Some t\<rparr>\<rparr>)))
         (bindM (checked E (GetOriginalDestination fd)) (\<lambda>rc.
          modXU r (\<lambda>d. d\<lparr>xu_dest := c_addr rc\<rparr>)))))))))))))))"

text \<open>Building the request: everything in \<open>start\<close> between the first read and \<open>pack\<close>.\<close>

definition add_opt :: "reqopt \<Rightarrow> client_request \<Rightarrow> client_request" where
  "add_opt opt req = req\<lparr>cq_opts := cq_opts req @ [opt]\<rparr>"

definition ProxifierUpstreamer_request :: "env \<Rightarrow> rid \<Rightarrow> (client_request \<times> recommendation) M" where
  "ProxifierUpstreamer_request E r = bindM (getR r) (\<lambda>x. bindM (getXU r) (\<lambda>d.
     bindM (getPF (xu_proxifier d)) (\<lambda>p.
     let req = \<lparr>cq_code = SOCKS6_REQUEST_CONNECT, cq_dest = xu_dest d, cq_opts = []\<rparr>
     in bindM (extcall E (TfoPayloadSize (sk_fd (srcSock x)))) (\<lambda>tfoPayload.
     let req = (if c_rc tfoPayload > 0 then add_opt (OptTFO (c_rc tfoPayload)) req else req);
         credentials = getCredentials p;
         authenticate = (length (fst credentials) > 0)
     in bindM (case xu_session d of
                 None \<Rightarrow> ret (req, authenticate)
               | Some s \<Rightarrow> bindM (getCS s) (\<lambda>c.
                   ret (add_opt (OptSessionID (cs_id c)) req, authenticate \<and> cs_untrusted c))) (\<lambda>(req, authenticate).
     let req = (if authenticate then add_opt (OptCredentials (fst credentials) (snd credentials)) req else req);
         req = (case xu_supplicant d of None \<Rightarrow> req | Some _ \<Rightarrow> supplicant_process_request req);
         tls = (sk_tls (dstSock x) \<noteq> None)
     in bindM (getR r) (\<lambda>x.
     let recommendation = recommend E req tls (usedSize (buf x))
     in (case (rec_useToken recommendation, xu_session d) of
           (True, Some s) \<Rightarrow> bindM (getToken E s) (\<lambda>token. case token of
               None \<Rightarrow> ret (req, recommendation)
             | Some t \<Rightarrow> ret (add_opt (OptToken t) req, tokenSpent E recommendation tls))
         | _ \<Rightarrow> ret (req, recommendation))))))))"

text \<open>
  The request is packed into an array of HEADROOM bytes and put in front of the data. \<open>prepend\<close>
  takes its size as \<open>uint8_t\<close>: the conversion of \<open>getUsed()\<close> keeps its lowest eight bits.
\<close>

definition ProxifierUpstreamer_start :: "env \<Rightarrow> rid \<Rightarrow> unit M" where
  "ProxifierUpstreamer_start E r = bindM (getR r) (\<lambda>x. bindM (getXU r) (\<lambda>d.
     bindM (tryM (sockRecv E (srcSock x) r) (\<lambda>e. case e of RescheduleException _ _ \<Rightarrow> ret 0 | _ \<Rightarrow> throw e)) (\<lambda>_.
     bindM (ProxifierUpstreamer_request E r) (\<lambda>(req, recommendation).
     (case packRequest E req (unat HEADROOM) of
        Inl e \<Rightarrow> throw e
      | Inr bytes \<Rightarrow> bindM (getR r) (\<lambda>x.
          bindM (liftO (prepend bytes (of_nat (length bytes)) (buf x))) (\<lambda>b.
          seqM (modBuf r (\<lambda>_. b))
          (bindM (getPF (xu_proxifier d)) (\<lambda>p.
          seqM (sockConnect E (dstSock x) r (pf_proxyAddr p) (rec_tfoPayload recommendation)
                  (rec_earlyData recommendation))
          (StreamReactor_start E r))))))))))"

definition ProxifierUpstreamer_sendReq :: "env \<Rightarrow> rid \<Rightarrow> unit M" where
  "ProxifierUpstreamer_sendReq E r = bindM (getR r) (\<lambda>x.
     bindM (if usedSize (buf x) > 0 then sockSend E (dstSock x) r else ret 1) (\<lambda>bytes.
     if bytes = 0 then ret ()
     else bindM (ProxifierDownstreamer_new E r) (\<lambda>s.
          seqM (Poller_assign E s (StreamReactor_start E s))
          (seqM (modXU r (\<lambda>d. d\<lparr>xu_state := XU_STREAM\<rparr>))
          (enter_stream E r)))))"

definition ProxifierUpstreamer_handshake :: "env \<Rightarrow> rid \<Rightarrow> unit M" where
  "ProxifierUpstreamer_handshake E r = bindM (getR r) (\<lambda>x.
     seqM (clientHandshake E (dstSock x) r)
     (seqM (modXU r (\<lambda>d. d\<lparr>xu_state := XU_SENDING_REQ\<rparr>))
     (ProxifierUpstreamer_sendReq E r)))"

text \<open>
  \<open>getsockopt(SO_ERROR)\<close> with both of its failures: of the call, and of the connection (the
  value \<open>err\<close>; the error it stands for is the answer's error number).
\<close>

definition checkConnected :: "env \<Rightarrow> int \<Rightarrow> unit M" where
  "checkConnected E fd = bindM (extcall E (GetSockError fd)) (\<lambda>rc.
     if c_rc rc < 0 then throw (SystemError (c_errno rc))
     else if fst (c_out rc) \<noteq> 0 then throw (SystemError (c_errno rc))
     else ret ())"

definition ProxifierUpstreamer_connecting :: "env \<Rightarrow> rid \<Rightarrow> unit M" where
  "ProxifierUpstreamer_connecting E r = bindM (getR r) (\<lambda>x.
     seqM (checkConnected E (sk_fd (dstSock x)))
     (seqM (modXU r (\<lambda>d. d\<lparr>xu_state := XU_HANDSHAKING\<rparr>))
     (ProxifierUpstreamer_handshake E r)))"

definition ProxifierUpstreamer_process :: "env \<Rightarrow> rid \<Rightarrow> unit M" where
  "ProxifierUpstreamer_process E r = bindM (getXU r) (\<lambda>d. case xu_state d of
       XU_CONNECTING \<Rightarrow> ProxifierUpstreamer_connecting E r
     | XU_HANDSHAKING \<Rightarrow> ProxifierUpstreamer_handshake E r
     | XU_SENDING_REQ \<Rightarrow> ProxifierUpstreamer_sendReq E r
     | XU_STREAM \<Rightarrow> StreamReactor_process E r)"

section \<open>Agents\<close>

text \<open>ReadableDeferReactor keeps its descriptor (not owned) in \<open>listenFD\<close>.\<close>

definition ReadableDeferReactor_new :: "int \<Rightarrow> rid \<Rightarrow> rid M" where
  "ReadableDeferReactor_new fd r = newR ((new_reactor (CReadableDeferReactor r))\<lparr>listenFD := fd\<rparr>)"

definition ReadableDeferReactor_start :: "env \<Rightarrow> rid \<Rightarrow> unit M" where
  "ReadableDeferReactor_start E r = bindM (getR r) (\<lambda>x. Poller_add E r (listenFD x) IN_EVENTS)"

definition ReadableDeferReactor_process :: "env \<Rightarrow> rid \<Rightarrow> unit M" where
  "ReadableDeferReactor_process E r = bindM (getR r) (\<lambda>x. case cls x of
       CReadableDeferReactor u \<Rightarrow> Poller_assign E u (ProxifierUpstreamer_start E u)
     | _ \<Rightarrow> abort DanglingReference)"

definition getSG :: "rid \<Rightarrow> agent_data M" where
  "getSG r = bindM (getR r) (\<lambda>x. case cls x of
     CSessionSupplicationAgent d \<Rightarrow> ret d | _ \<Rightarrow> abort DanglingReference)"

definition set_agent_state :: "rid \<Rightarrow> AgentState \<Rightarrow> unit M" where
  "set_agent_state r s = modR r (\<lambda>x. case cls x of
     CSessionSupplicationAgent d \<Rightarrow> x\<lparr>cls := CSessionSupplicationAgent (d\<lparr>sg_state := s\<rparr>)\<rparr> | _ \<Rightarrow> x)"

text \<open>\<open>sock.fd.assign(socket(...))\<close> of both agents.\<close>

definition agent_socket :: "env \<Rightarrow> rid \<Rightarrow> sockaddr \<Rightarrow> int M" where
  "agent_socket E r proxyAddr = bindM (getR r) (\<lambda>x.
     bindM (extcall E (SocketFD (saFamily E proxyAddr))) (\<lambda>rc.
     bindM (UniqFD_assign (sk_fd (sock x)) (c_rc rc)) (\<lambda>fd.
     seqM (modR r (\<lambda>x. x\<lparr>sock := (sock x)\<lparr>sk_fd := fd\<rparr>\<rparr>))
     (if fd < 0 then throw (SystemError (c_errno rc)) else ret fd))))"

definition SessionSupplicationAgent_new :: "env \<Rightarrow> rid \<Rightarrow> nat \<Rightarrow> tlscontext option \<Rightarrow> rid M" where
  "SessionSupplicationAgent_new E proxifier supplicant clientCtx = bindM (getPF proxifier) (\<lambda>p.
     bindM (newR (new_reactor (CSessionSupplicationAgent \<lparr>sg_proxifier = proxifier,
       sg_state = SA_CONNECTING, sg_supplicant = supplicant\<rparr>))) (\<lambda>r.
     construct (StickReactor_destroy E) r
       (bindM (agent_socket E r (pf_proxyAddr p)) (\<lambda>fd.
        seqM (case clientCtx of
                None \<Rightarrow> ret ()
              | Some ctx \<Rightarrow> bindM (TLS_new E ctx fd) (\<lambda>t.
                  modR r (\<lambda>x. x\<lparr>sock := (sock x)\<lparr>sk_tls := Some t\<rparr>\<rparr>)))
        (let req = \<lparr>cq_code = SOCKS6_REQUEST_NOOP,
                     cq_dest = \<lparr>sa_addr = quadZero E, sa_port = 0\<rparr>, cq_opts = []\<rparr>;
             credentials = getCredentials p;
             req = (if length (fst credentials) > 0
                    then add_opt (OptCredentials (fst credentials) (snd credentials)) req else req);
             req = supplicant_process_request req
         in pack_into r (packRequest E req))))))"

definition SessionSupplicationAgent_start :: "env \<Rightarrow> rid \<Rightarrow> unit M" where
  "SessionSupplicationAgent_start E r = bindM (getR r) (\<lambda>x. bindM (getSG r) (\<lambda>d.
     bindM (getPF (sg_proxifier d)) (\<lambda>p.
     seqM (sockConnect E (sock x) r (pf_proxyAddr p) 0 False)
          (Poller_add E r (sk_fd (sock x)) OUT_EVENTS))))"

definition SessionSupplicationAgent_sendReq :: "env \<Rightarrow> rid \<Rightarrow> unit M" where
  "SessionSupplicationAgent_sendReq E r = bindM (getR r) (\<lambda>x.
     bindM (sockSend E (sock x) r) (\<lambda>bytes.
     if bytes = 0 then ret ()
     else bindM (getR r) (\<lambda>x.
       if usedSize (buf x) > 0 then Poller_add E r (sk_fd (sock x)) OUT_EVENTS
       else seqM (set_agent_state r SA_RECEIVING_AUTH_REP)
                 (Poller_add E r (sk_fd (sock x)) IN_EVENTS))))"

definition SessionSupplicationAgent_recvRep :: "env \<Rightarrow> rid \<Rightarrow> unit M" where
  "SessionSupplicationAgent_recvRep E r = bindM (getR r) (\<lambda>x. bindM (getSG r) (\<lambda>d.
     bindM (sockRecv E (sock x) r) (\<lambda>bytes.
     if bytes = 0 then ret ()
     else bindM (buffered r) (\<lambda>bb. case parseAuthReply E bb of
         Inl EndOfBufferException \<Rightarrow> Poller_add E r (sk_fd (sock x)) IN_EVENTS
       | Inl e \<Rightarrow> throw e
       | Inr (authRep, _) \<Rightarrow> supplicant_process_reply E (sg_supplicant d) authRep))))"

definition SessionSupplicationAgent_process :: "env \<Rightarrow> rid \<Rightarrow> unit M" where
  "SessionSupplicationAgent_process E r = bindM (getR r) (\<lambda>x. bindM (getSG r) (\<lambda>d. case sg_state d of
       SA_CONNECTING \<Rightarrow>
         seqM (checkConnected E (sk_fd (sock x)))
         (seqM (set_agent_state r SA_SENDING_REQ) (SessionSupplicationAgent_sendReq E r))
     | SA_SENDING_REQ \<Rightarrow> SessionSupplicationAgent_sendReq E r
     | SA_RECEIVING_AUTH_REP \<Rightarrow> SessionSupplicationAgent_recvRep E r))"

definition TFOCookieSupplicationAgent_new :: "env \<Rightarrow> rid \<Rightarrow> rid M" where
  "TFOCookieSupplicationAgent_new E proxifier = bindM (getPF proxifier) (\<lambda>p.
     bindM (newR (new_reactor (CTFOCookieSupplicationAgent proxifier))) (\<lambda>r.
     construct (StickReactor_destroy E) r
       (bindM (agent_socket E r (pf_proxyAddr p)) (\<lambda>_. ret ()))))"

definition TFOCookieSupplicationAgent_start :: "env \<Rightarrow> rid \<Rightarrow> rid \<Rightarrow> unit M" where
  "TFOCookieSupplicationAgent_start E r proxifier = bindM (getR r) (\<lambda>x. bindM (getPF proxifier) (\<lambda>p.
     seqM (sockConnect E (sock x) r (pf_proxyAddr p) (- 1) True)
          (Poller_add E r (sk_fd (sock x)) OUT_EVENTS)))"

definition TFOCookieSupplicationAgent_process :: "unit M" where
  "TFOCookieSupplicationAgent_process = ret ()"

section \<open>The proxifier as a listener\<close>

definition Proxifier_new ::
  "env \<Rightarrow> sockaddr \<Rightarrow> sockaddr \<Rightarrow> bool \<Rightarrow> string \<times> string \<Rightarrow> tlscontext option \<Rightarrow> rid M" where
  "Proxifier_new E proxyAddr bindAddr defer credentials clientCtx =
     bindM (ListenReactor_new E (CProxifier \<lparr>pf_proxyAddr = proxyAddr, pf_defer = defer,
       pf_username = fst credentials, pf_password = snd credentials, pf_session = None,
       pf_supplicationLock = False, pf_clientCtx = clientCtx\<rparr>) bindAddr) (\<lambda>r.
     bindM (getR r) (\<lambda>x.
     bindM (extcall E (SaveSYN (listenFD x))) (\<lambda>_. ret r)))"

text \<open>
  A supplicant whose only owner is a local variable dies when an exception leaves the block, which
  releases the lock.
\<close>

definition with_supplicant :: "nat option \<Rightarrow> 'a M \<Rightarrow> 'a M" where
  "with_supplicant s m = tryM m (\<lambda>e. seqM (case s of
     None \<Rightarrow> ret () | Some s \<Rightarrow> SessionSupplicant_destroy s) (throw e))"

definition Proxifier_supplicate :: "env \<Rightarrow> rid \<Rightarrow> tlscontext option \<Rightarrow> bool M" where
  "Proxifier_supplicate E p clientCtx = tryM
     (bindM (SessionSupplicant_new p) (\<lambda>s.
      bindM (with_supplicant (Some s) (SessionSupplicationAgent_new E p s clientCtx)) (\<lambda>a.
      seqM (Poller_assign E a (SessionSupplicationAgent_start E a))
      (ret (clientCtx = None)))))
     (\<lambda>_. ret True)"

definition Proxifier_start :: "env \<Rightarrow> rid \<Rightarrow> unit M" where
  "Proxifier_start E p = bindM (getPF p) (\<lambda>d.
     seqM (supplicationLock_lock p)
     (bindM (Proxifier_supplicate E p (pf_clientCtx d)) (\<lambda>supplicateTFO.
     seqM (if supplicateTFO
           then tryM (bindM (TFOCookieSupplicationAgent_new E p) (\<lambda>a.
                        Poller_assign E a (TFOCookieSupplicationAgent_start E a p)))
                     (\<lambda>_. ret ())
           else ret ())
     (ListenReactor_start E p))))"

definition acquire_supplicant :: "rid \<Rightarrow> nat option M" where
  "acquire_supplicant p = bindM (supplicationLock_try_lock p) (\<lambda>locked.
     if \<not> locked then ret None
     else bindM (Proxifier_getSession p) (\<lambda>session.
       if session = None then bindM (SessionSupplicant_new p) (\<lambda>s. ret (Some s))
       else seqM (supplicantDone p) (ret None)))"

definition Proxifier_handleNewConnection :: "env \<Rightarrow> rid \<Rightarrow> int \<Rightarrow> unit M" where
  "Proxifier_handleNewConnection E p fd = bindM (getPF p) (\<lambda>d.
     bindM (acquire_supplicant p) (\<lambda>supplicant.
     tryM (bindM (with_supplicant supplicant (ProxifierUpstreamer_new E p fd supplicant)) (\<lambda>upstreamer.
           if pf_defer d
           then bindM (ReadableDeferReactor_new fd upstreamer) (\<lambda>r.
                Poller_assign E r (ReadableDeferReactor_start E r))
           else Poller_assign E upstreamer (ProxifierUpstreamer_start E upstreamer)))
          (\<lambda>_. ret ())))"

definition Proxifier_process :: "env \<Rightarrow> rid \<Rightarrow> unit M" where
  "Proxifier_process E r = ListenReactor_process E (Proxifier_handleNewConnection E r) r"

section \<open>Frame facts\<close>

lemma keeps_client_choices:
  "keeps R a \<Longrightarrow> keeps R b \<Longrightarrow> keeps R c \<Longrightarrow>
     keeps R (case s1 of XD_WAITING_FOR_AUTH_REP \<Rightarrow> a | XD_WAITING_FOR_OP_REP \<Rightarrow> b | XD_STREAM \<Rightarrow> c)"
  "keeps R a \<Longrightarrow> keeps R b \<Longrightarrow> keeps R c \<Longrightarrow> keeps R d \<Longrightarrow>
     keeps R (case s2 of XU_CONNECTING \<Rightarrow> a | XU_HANDSHAKING \<Rightarrow> b | XU_SENDING_REQ \<Rightarrow> c | XU_STREAM \<Rightarrow> d)"
  "keeps R a \<Longrightarrow> keeps R b \<Longrightarrow> keeps R c \<Longrightarrow>
     keeps R (case s3 of SA_CONNECTING \<Rightarrow> a | SA_SENDING_REQ \<Rightarrow> b | SA_RECEIVING_AUTH_REP \<Rightarrow> c)"
  "keeps R a \<Longrightarrow> keeps R b \<Longrightarrow> keeps R (case t of True \<Rightarrow> a | False \<Rightarrow> b)"
  by (auto split: ProxifierDownState.split ProxifierUpState.split AgentState.split bool.split)

lemma frame_client_basic [keeps_intro]:
  "keeps frame (getCS s)" "keeps frame (newCS x)" "keeps frame (getSP s)" "keeps frame (setSP s y)"
  "keeps frame (SessionSupplicant_new p)"
  by (auto simp: keeps_def frame_def hist_grows_def heap_grows_def object_after_def poll_inv_def
      getCS_def newCS_def getSP_def setSP_def SessionSupplicant_new_def run_basic split: option.splits)

lemma frame_client_get [keeps_intro]:
  "keeps frame (getPF p)" "keeps frame (getXD r)" "keeps frame (getXU r)" "keeps frame (getSG r)"
  unfolding getPF_def getXD_def getXU_def getSG_def
  by (intro fr.keeps_rules keeps_intro; auto split: rclass.split intro: fr.keeps_rules)+

lemma frame_client_mod [keeps_intro]:
  "keeps frame (modPF p f)" "keeps frame (modXD r g)" "keeps frame (modXU r h)" "keeps frame (set_agent_state r s)"
  unfolding modPF_def modXD_def modXU_def set_agent_state_def
  by (intro keeps_intro; auto split: rclass.split)+

lemmas client_session_defs = ClientSession_new_def updateWallet_def getToken_def
  Proxifier_getSession_def killSession_def setSession_def supplicantDone_def supplicationLock_lock_def
  supplicationLock_try_lock_def

lemma frame_client_session [keeps_intro]:
  "keeps frame (ClientSession_new E sid u win)" "keeps frame (updateWallet E s win)"
  "keeps frame (getToken E s)" "keeps frame (Proxifier_getSession p)" "keeps frame (killSession p so)"
  "keeps frame (setSession p s)" "keeps frame (supplicantDone p)" "keeps frame (supplicationLock_lock p)"
  "keeps frame (supplicationLock_try_lock p)"
  unfolding client_session_defs by (intro fr.keeps_rules keeps_intro shared_call_simps)+

lemma frame_supplicant [keeps_intro]:
  "keeps frame (SessionSupplicant_destroy s)" "keeps frame (supplicant_process_reply E s rep)"
  "keeps frame (acquire_supplicant p)"
  unfolding SessionSupplicant_destroy_def supplicant_process_reply_def acquire_supplicant_def
  by (intro fr.keeps_rules keeps_intro)+

lemma frame_dup [keeps_intro]: "keeps frame (dup_srcSock E r u)" "keeps frame (dup_dstSock E r u)"
  unfolding dup_srcSock_def dup_dstSock_def by (intro fr.keeps_rules keeps_intro object_after_simps)+

lemma frame_construct [keeps_intro]:
  "(\<And>r. keeps frame (destroy r)) \<Longrightarrow> keeps frame body \<Longrightarrow> keeps frame (construct destroy r body)"
  unfolding construct_def by (intro fr.keeps_rules)

lemma frame_enter_stream [keeps_intro]: "keeps frame (enter_stream E r)"
  unfolding enter_stream_def by (intro fr.keeps_rules keeps_intro)

lemma frame_opRep [keeps_intro]: "keeps frame (ProxifierDownstreamer_opRep E r b)"
  unfolding ProxifierDownstreamer_opRep_def by (intro fr.keeps_rules keeps_intro keeps_exn_case)

lemma frame_downstreamer [keeps_intro]:
  "keeps frame (ProxifierDownstreamer_new E u)" "keeps frame (ProxifierDownstreamer_process E r)"
  unfolding ProxifierDownstreamer_new_def ProxifierDownstreamer_process_def
    ProxifierDownstreamer_authRep_def ProxifierDownstreamer_session_def
  by (intro fr.keeps_rules keeps_intro keeps_exn_case keeps_client_choices)+

lemma frame_upstreamer_new [keeps_intro]: "keeps frame (ProxifierUpstreamer_new E p fd s)"
  unfolding ProxifierUpstreamer_new_def
  by (intro fr.keeps_rules keeps_intro shared_call_simps object_after_simps)

lemma frame_request [keeps_intro]: "keeps frame (ProxifierUpstreamer_request E r)"
  unfolding ProxifierUpstreamer_request_def
  by (intro fr.keeps_rules keeps_intro shared_call_simps keeps_client_choices)

lemma frame_upstreamer_start [keeps_intro]: "keeps frame (ProxifierUpstreamer_start E r)"
  unfolding ProxifierUpstreamer_start_def by (intro fr.keeps_rules keeps_intro keeps_exn_case)

lemma frame_upstreamer_process [keeps_intro]: "keeps frame (ProxifierUpstreamer_process E r)"
  unfolding ProxifierUpstreamer_process_def ProxifierUpstreamer_connecting_def
    ProxifierUpstreamer_handshake_def ProxifierUpstreamer_sendReq_def checkConnected_def
  by (intro fr.keeps_rules keeps_intro shared_call_simps keeps_client_choices)

lemma frame_defer [keeps_intro]:
  "keeps frame (ReadableDeferReactor_new fd r)" "keeps frame (ReadableDeferReactor_start E r)"
  "keeps frame (ReadableDeferReactor_process E r)"
  unfolding ReadableDeferReactor_new_def ReadableDeferReactor_start_def ReadableDeferReactor_process_def
  by (intro fr.keeps_rules keeps_intro; auto split: rclass.split intro: fr.keeps_rules keeps_intro)+

lemma frame_agent_new [keeps_intro]:
  "keeps frame (SessionSupplicationAgent_new E p s ctx)" "keeps frame (TFOCookieSupplicationAgent_new E p)"
  unfolding SessionSupplicationAgent_new_def TFOCookieSupplicationAgent_new_def agent_socket_def
  by (intro fr.keeps_rules keeps_intro shared_call_simps object_after_simps)+

lemma frame_agents [keeps_intro]:
  "keeps frame (SessionSupplicationAgent_start E r)" "keeps frame (SessionSupplicationAgent_process E r)"
  "keeps frame (TFOCookieSupplicationAgent_start E r p)" "keeps frame TFOCookieSupplicationAgent_process"
  unfolding SessionSupplicationAgent_start_def SessionSupplicationAgent_process_def
    SessionSupplicationAgent_sendReq_def SessionSupplicationAgent_recvRep_def checkConnected_def
    TFOCookieSupplicationAgent_start_def TFOCookieSupplicationAgent_process_def
  by (intro fr.keeps_rules keeps_intro shared_call_simps keeps_exn_case keeps_client_choices)+

lemma frame_with_supplicant [keeps_intro]: "keeps frame m \<Longrightarrow> keeps frame (with_supplicant s m)"
  unfolding with_supplicant_def by (intro fr.keeps_rules keeps_intro)

lemma frame_handleNewConnection [keeps_intro]: "keeps frame (Proxifier_handleNewConnection E p fd)"
  unfolding Proxifier_handleNewConnection_def by (intro fr.keeps_rules keeps_intro)

lemma frame_Proxifier [keeps_intro]:
  "keeps frame (Proxifier_new E pa ba defer cr ctx)" "keeps frame (Proxifier_start E p)"
  "keeps frame (Proxifier_process E p)"
  unfolding Proxifier_new_def Proxifier_start_def Proxifier_process_def Proxifier_supplicate_def
  by (intro fr.keeps_rules keeps_intro shared_call_simps)+

end
