(* ===== verification/Timeout.thy ===== *)
theory Timeout
  imports ProxyConn
begin

text \<open>
  \<^verbatim>\<open>core/timer.{hh,cc}\<close> and \<^verbatim>\<open>core/timeoutreactor.{hh,cc}\<close>: inactivity timers. A TimeoutReactor has
  one queue of timers per interval; a timer that is armed or refreshed goes to the end of its queue
  with the current time, so that a queue is ordered by arming time and \<open>process\<close> has to look at
  its front only. Times are nanoseconds, as in the clock's time points; intervals are milliseconds.
\<close>

section \<open>Timers\<close>

definition getTM :: "nat \<Rightarrow> timer_object M" where
  "getTM t = (\<lambda>w. case timers w t of
     None \<Rightarrow> (Abort DanglingReference, w) | Some x \<Rightarrow> (Ret x, w))"

definition modTM :: "nat \<Rightarrow> (timer_object \<Rightarrow> timer_object) \<Rightarrow> unit M" where
  "modTM t f = (\<lambda>w. case timers w t of
     None \<Rightarrow> (Abort DanglingReference, w)
   | Some x \<Rightarrow> (Ret (), w\<lparr>timers := (timers w)(t \<mapsto> f x)\<rparr>))"

definition ReactorInactivityTimer_new :: "int \<Rightarrow> rid \<Rightarrow> nat M" where
  "ReactorInactivityTimer_new interval r = (\<lambda>w. (Ret (nextTM w), w\<lparr>
     timers := (timers w)(nextTM w \<mapsto>
       \<lparr>tm_tracker = None, tm_arm = 0, tm_interval = interval, tm_reactor = r\<rparr>),
     nextTM := Suc (nextTM w)\<rparr>))"

definition T_IDLE_CONNECTION :: int where
  "T_IDLE_CONNECTION = 4 * 60 * 1000"

definition trigger :: "env \<Rightarrow> nat \<Rightarrow> unit M" where
  "trigger E t = bindM (getTM t) (\<lambda>x. deactivate E (tm_reactor x))"

section \<open>The reactor's queues\<close>

type_synonym queues = "(int \<times> nat list) list"

definition getQ :: "rid \<Rightarrow> queues M" where
  "getQ r = bindM (getR r) (\<lambda>x. case cls x of CTimeoutReactor q \<Rightarrow> ret q | _ \<Rightarrow> abort DanglingReference)"

definition modQ :: "rid \<Rightarrow> (queues \<Rightarrow> queues) \<Rightarrow> unit M" where
  "modQ r f = modR r (\<lambda>x. case cls x of CTimeoutReactor q \<Rightarrow> x\<lparr>cls := CTimeoutReactor (f q)\<rparr> | _ \<Rightarrow> x)"

text \<open>\<open>timers[i]\<close> of the hash map: an empty queue comes into being when there is none.\<close>

fun upd_queue :: "int \<Rightarrow> (nat list \<Rightarrow> nat list) \<Rightarrow> queues \<Rightarrow> queues" where
  "upd_queue i f [] = [(i, f [])]"
| "upd_queue i f ((k, q) # qs) = (if k = i then (k, f q) # qs else (k, q) # upd_queue i f qs)"

definition queue_at :: "int \<Rightarrow> queues \<Rightarrow> nat list" where
  "queue_at i qs = (case map_of qs i of Some q \<Rightarrow> q | None \<Rightarrow> [])"

definition TimeoutReactor_new :: "env \<Rightarrow> int list \<Rightarrow> rid M" where
  "TimeoutReactor_new E possibleTimeouts =
     bindM (newR (new_reactor (CTimeoutReactor []))) (\<lambda>r.
     tryM (bindM (getR r) (\<lambda>x.
           bindM (extcall E TimerfdCreate) (\<lambda>rc.
           bindM (UniqFD_assign (listenFD x) (c_rc rc)) (\<lambda>fd.
           seqM (modR r (\<lambda>x. x\<lparr>listenFD := fd\<rparr>))
           (if fd < 0 then throw (SystemError (c_errno rc))
            else seqM (modQ r (\<lambda>_. fold (\<lambda>i. upd_queue i id) possibleTimeouts [])) (ret r))))))
       (\<lambda>e. bindM (getR r) (\<lambda>x. seqM (UniqFD_destroy E (listenFD x)) (seqM (deleteR r) (throw e)))))"

definition TimeoutReactor_destroy :: "env \<Rightarrow> rid \<Rightarrow> unit M" where
  "TimeoutReactor_destroy E r = bindM (getR r) (\<lambda>x.
     seqM (tryM (Poller_remove E (listenFD x) False) (\<lambda>_. ret ()))
     (seqM (UniqFD_destroy E (listenFD x)) (deleteR r)))"

definition timer_add :: "rid \<Rightarrow> nat \<Rightarrow> int \<Rightarrow> unit M" where
  "timer_add r t now = bindM (getQ r) (\<lambda>qs. bindM (getTM t) (\<lambda>x.
     seqM (assertM (tm_interval x \<in> fst ` set qs))
     (seqM (assertM (tm_tracker x = None))
     (seqM (modTM t (\<lambda>x. x\<lparr>tm_tracker := Some r, tm_arm := now\<rparr>))
     (modQ r (upd_queue (tm_interval x) (\<lambda>q. q @ [t])))))))"

definition timer_refresh :: "rid \<Rightarrow> nat \<Rightarrow> int \<Rightarrow> unit M" where
  "timer_refresh r t now = bindM (getQ r) (\<lambda>qs. bindM (getTM t) (\<lambda>x.
     seqM (assertM (tm_interval x \<in> fst ` set qs))
     (seqM (assertM (tm_tracker x = Some r))
     (seqM (modTM t (\<lambda>x. x\<lparr>tm_arm := now\<rparr>))
     (if t \<notin> set (queue_at (tm_interval x) qs) then ret ()
      else modQ r (upd_queue (tm_interval x) (\<lambda>q. remove1 t q @ [t])))))))"

definition timer_cancel :: "rid \<Rightarrow> nat \<Rightarrow> unit M" where
  "timer_cancel r t = bindM (getQ r) (\<lambda>qs. bindM (getTM t) (\<lambda>x.
     seqM (assertM (tm_interval x \<in> fst ` set qs))
     (seqM (assertM (tm_tracker x = Some r))
     (if t \<notin> set (queue_at (tm_interval x) qs) then ret ()
      else modQ r (upd_queue (tm_interval x) (remove1 t))))))"

text \<open>The methods of Timer, which go to its tracker.\<close>

definition Timer_refresh :: "nat \<Rightarrow> int \<Rightarrow> unit M" where
  "Timer_refresh t now = bindM (getTM t) (\<lambda>x. case tm_tracker x of
     None \<Rightarrow> abort NullDereference | Some r \<Rightarrow> timer_refresh r t now)"

definition Timer_cancel :: "nat \<Rightarrow> unit M" where
  "Timer_cancel t = bindM (getTM t) (\<lambda>x. case tm_tracker x of
     None \<Rightarrow> abort NullDereference | Some r \<Rightarrow> timer_cancel r t)"

definition Timer_destroy :: "nat \<Rightarrow> unit M" where
  "Timer_destroy t = bindM (getTM t) (\<lambda>x.
     seqM (if tm_tracker x \<noteq> None then Timer_cancel t else ret ())
          (modify (\<lambda>w. w\<lparr>timers := (timers w)(t := None)\<rparr>)))"

definition TimeoutReactor_start :: "env \<Rightarrow> rid \<Rightarrow> unit M" where
  "TimeoutReactor_start E r = bindM (getR r) (\<lambda>x.
     bindM (checked E (TimerfdSettime (listenFD x))) (\<lambda>_.
     Poller_add E r (listenFD x) IN_EVENTS))"

text \<open>\<open>duration_cast<milliseconds>\<close> truncates towards zero.\<close>

definition millis :: "int \<Rightarrow> int" where
  "millis ns = (if 0 \<le> ns then ns div 1000000 else - (- ns div 1000000))"

fun expire :: "env \<Rightarrow> rid \<Rightarrow> int \<Rightarrow> int \<Rightarrow> nat list \<Rightarrow> unit M" where
  "expire E r now timeout [] = ret ()"
| "expire E r now timeout (t # ts) = bindM (getTM t) (\<lambda>x.
     if millis (now - tm_arm x) < timeout then ret ()
     else seqM (trigger E t) (seqM (modQ r (upd_queue timeout tl)) (expire E r now timeout ts)))"

fun expire_all :: "env \<Rightarrow> rid \<Rightarrow> int \<Rightarrow> queues \<Rightarrow> unit M" where
  "expire_all E r now [] = ret ()"
| "expire_all E r now ((timeout, q) # qs) =
     seqM (expire E r now timeout q) (expire_all E r now qs)"

definition TimeoutReactor_process :: "env \<Rightarrow> rid \<Rightarrow> int \<Rightarrow> unit M" where
  "TimeoutReactor_process E r fd =
     bindM (checked E (ReadFD fd 8)) (\<lambda>_.
     bindM (extcall E ClockNow) (\<lambda>now.
     bindM (getQ r) (\<lambda>qs.
     seqM (expire_all E r (c_rc now) qs)
     (Poller_add E r fd IN_EVENTS))))"

section \<open>Frame facts\<close>

lemma frame_timer_basic [keeps_intro]:
  "keeps frame (getTM t)" "keeps frame (modTM t f)" "keeps frame (ReactorInactivityTimer_new i r)"
  by (auto simp: keeps_def frame_def hist_grows_def heap_grows_def object_after_def poll_inv_def
      getTM_def modTM_def ReactorInactivityTimer_new_def split: option.splits)

lemma frame_queue [keeps_intro]: "keeps frame (getQ r)" "keeps frame (modQ r g)"
  unfolding getQ_def modQ_def
  by (intro fr.keeps_rules keeps_intro; auto split: rclass.split intro: fr.keeps_rules)+

lemma frame_timer_ops [keeps_intro]:
  "keeps frame (timer_add r t now)" "keeps frame (timer_refresh r t now)" "keeps frame (timer_cancel r t)"
  "keeps frame (trigger E t)"
  unfolding timer_add_def timer_refresh_def timer_cancel_def trigger_def
  by (intro fr.keeps_rules keeps_intro)+

lemma frame_expire [keeps_intro]: "keeps frame (expire E r now timeout q)"
  by (induction q) (simp_all, (intro fr.keeps_rules keeps_intro | assumption)+)

lemma frame_expire_all [keeps_intro]: "keeps frame (expire_all E r now qs)"
  by (induction qs rule: expire_all.induct) (auto intro: fr.keeps_rules keeps_intro)

lemma frame_TimeoutReactor [keeps_intro]:
  "keeps frame (TimeoutReactor_start E r)" "keeps frame (TimeoutReactor_process E r fd)"
  "keeps frame (TimeoutReactor_new E ts)"
  unfolding TimeoutReactor_start_def TimeoutReactor_process_def TimeoutReactor_new_def
  by (intro fr.keeps_rules keeps_intro shared_call_simps; simp add: object_after_def)+

end
