(* ===== verification/Program.thy ===== *)
theory Program
  imports Proxifier Timeout
begin

text \<open>
  The program as a whole: the set-up of NSS (\<^verbatim>\<open>tls/tlslibrary.{hh,cc}\<close>,
  \<^verbatim>\<open>tls/tlscontext.{hh,cc}\<close>), the command line and \<open>main\<close> (\<^verbatim>\<open>sixtysocks.cc\<close>), and the virtual
  method \<open>process\<close>, which the event loop calls: \<open>dispatch\<close> chooses the override of the dynamic class.
\<close>

section \<open>Setting up NSS\<close>

definition nss_global_call :: "env \<Rightarrow> nss_global \<Rightarrow> cret M" where
  "nss_global_call E g = bindM (extcall E (NssGlobal g)) (\<lambda>rc.
     seqM (if c_rc rc < 0 then PR_SetError (c_prerr rc) else ret ()) (ret rc))"

definition tlsCheck :: "cret \<Rightarrow> unit M" where
  "tlsCheck status = (if c_rc status < 0
     then bindM (gets prError) (\<lambda>e. throw (TLSException e)) else ret ())"

definition checked_global :: "env \<Rightarrow> nss_global \<Rightarrow> unit M" where
  "checked_global E g = bindM (nss_global_call E g) tlsCheck"

definition ignored_global :: "env \<Rightarrow> nss_global \<Rightarrow> unit M" where
  "ignored_global E g = bindM (nss_global_call E g) (\<lambda>_. ret ())"

definition NSPRLibrary_new :: "env \<Rightarrow> unit M" where
  "NSPRLibrary_new E = ignored_global E PR_Init"

definition NSPRLibrary_destroy :: "env \<Rightarrow> unit M" where
  "NSPRLibrary_destroy E = seqM (ignored_global E SSL_ClearSessionCache) (ignored_global E PR_Cleanup)"

definition NSSLibrary_new :: "env \<Rightarrow> string \<Rightarrow> unit M" where
  "NSSLibrary_new E configDir = checked_global E (NSS_Init configDir)"

definition NSSLibrary_destroy :: "env \<Rightarrow> unit M" where
  "NSSLibrary_destroy E = ignored_global E NSS_Shutdown"

definition SID_CACHE_ENTRIES :: nat where "SID_CACHE_ENTRIES = 1024"

definition TLSLibrary_configure :: "env \<Rightarrow> unit M" where
  "TLSLibrary_configure E =
     seqM (checked_global E SSL_VersionRangeSetDefault)
     (seqM (checked_global E (SSL_OptionSetDefault SSL_ENABLE_FDX))
     (seqM (checked_global E (SSL_OptionSetDefault SSL_ENABLE_SESSION_TICKETS))
     (seqM (checked_global E (SSL_OptionSetDefault SSL_ENABLE_FALSE_START))
     (seqM (checked_global E (SSL_OptionSetDefault SSL_ENABLE_0RTT_DATA))
     (checked_global E (SSL_ConfigServerSessionIDCache SID_CACHE_ENTRIES))))))"

text \<open>The members are constructed in order and, on an exception, destroyed in reverse order.\<close>

definition TLSLibrary_new :: "env \<Rightarrow> string \<Rightarrow> unit M" where
  "TLSLibrary_new E configDir =
     seqM (NSPRLibrary_new E)
     (tryM (seqM (NSSLibrary_new E configDir)
            (tryM (TLSLibrary_configure E)
                  (\<lambda>e. seqM (NSSLibrary_destroy E) (throw e))))
           (\<lambda>e. seqM (NSPRLibrary_destroy E) (throw e)))"

definition TLSLibrary_destroy :: "env \<Rightarrow> unit M" where
  "TLSLibrary_destroy E = seqM (NSSLibrary_destroy E) (NSPRLibrary_destroy E)"

text \<open>
  The anti-replay context is stored before the status is looked at: on failure it is whatever the
  uninitialised variable held. \<open>c_flag\<close> of the answer says whether that is not a null pointer. A
  constructor that throws has the members destroyed that it has set.
\<close>

definition TLSContext_new :: "env \<Rightarrow> bool \<Rightarrow> string \<Rightarrow> string \<Rightarrow> tlscontext M" where
  "TLSContext_new E server nick sni =
     (if server then
        bindM (nss_global_call E (PK11_FindCertFromNickname nick)) (\<lambda>cert.
        if c_rc cert < 0 then throw (RuntimeError ''Can't find certificate'')
        else bindM (nss_global_call E PK11_FindKeyByAnyCert) (\<lambda>key.
          if c_rc key < 0
          then seqM (ignored_global E CERT_DestroyCertificate) (throw (RuntimeError ''Can't find key''))
          else bindM (nss_global_call E SSL_CreateAntiReplayContext) (\<lambda>status.
            let ctx = \<lparr>tc_server = server, tc_antiReplay = c_flag status, tc_sni = sni\<rparr>
            in seqM (tryM (tlsCheck status) (\<lambda>e. case e of TLSException _ \<Rightarrow> ret () | _ \<Rightarrow> throw e))
                    (ret ctx))))
      else if sni = '''' then throw (InvalidArgument ''SNI is required'')
      else ret \<lparr>tc_server = server, tc_antiReplay = False, tc_sni = sni\<rparr>)"

text \<open>
  The destructor of a context: its members in reverse order. A server's context owns a certificate
  and a key.
\<close>

definition antiReplayCtxDeleter :: "env \<Rightarrow> unit M" where
  "antiReplayCtxDeleter E = ignored_global E SSL_ReleaseAntiReplayContext"

definition TLSContext_destroy :: "env \<Rightarrow> tlscontext \<Rightarrow> unit M" where
  "TLSContext_destroy E ctx =
     seqM (if tc_antiReplay ctx then antiReplayCtxDeleter E else ret ())
     (if tc_server ctx
      then seqM (ignored_global E SECKEY_DestroyPrivateKey) (ignored_global E CERT_DestroyCertificate)
      else ret ())"

section \<open>The text of an NSPR error\<close>

text \<open>\<open>errorToName\<close> is \<open>PR_ErrorToName\<close>, which returns a null pointer for a number it does not know.\<close>

definition TLSException_default :: "exn M" where
  "TLSException_default = bindM (gets prError) (\<lambda>e. ret (TLSException e))"

definition TLSException_what :: "(prerror \<Rightarrow> string option) \<Rightarrow> prerror \<Rightarrow> string" where
  "TLSException_what errorToName err = (case errorToName err of None \<Rightarrow> ''Unknown error'' | Some s \<Rightarrow> s)"

section \<open>The command line\<close>

text \<open>
  \<open>atoi\<close>: leading white space, a sign, digits. The C library computes \<open>strtol\<close>, which saturates at
  64 bits, and converts to \<open>int\<close>.
\<close>

definition is_space :: "char \<Rightarrow> bool" where
  "is_space c \<longleftrightarrow> c \<in> {CHR '' '', CHR 0x09, CHR 0x0A, CHR 0x0B, CHR 0x0C, CHR 0x0D}"

definition digit_value :: "char \<Rightarrow> int option" where
  "digit_value c = (if 48 \<le> (of_char c :: int) \<and> of_char c \<le> (57 :: int) then Some (of_char c - 48) else None)"

fun digits_value :: "int \<Rightarrow> string \<Rightarrow> int" where
  "digits_value acc [] = acc"
| "digits_value acc (c # cs) = (case digit_value c of
     None \<Rightarrow> acc | Some d \<Rightarrow> digits_value (10 * acc + d) cs)"

definition strtol :: "string \<Rightarrow> int" where
  "strtol s = (let t = dropWhile is_space s;
       v = (case t of
              [] \<Rightarrow> 0
            | c # cs \<Rightarrow> if c = CHR ''-'' then - digits_value 0 cs
                         else if c = CHR ''+'' then digits_value 0 cs
                         else digits_value 0 t)
     in max (- (2 ^ 63)) (min (2 ^ 63 - 1) v))"

definition atoi :: "string \<Rightarrow> int" where
  "atoi s = signed_take_bit 31 (strtol s)"

datatype Mode = M_NONE | M_PROXIFIER | M_PROXY

record settings =
  numThreads :: int
  mode :: Mode
  port :: u16
  tlsPort :: u16
  proxyPort :: u16
  proxyAddr :: sockaddr
  username :: string
  password :: string
  deferReq :: bool
  useTLS :: bool
  certDB :: string
  nick :: string
  sni :: string

definition initial_settings :: "env \<Rightarrow> settings" where
  "initial_settings E = \<lparr>numThreads = 1, mode = M_NONE, port = 0, tlsPort = 0, proxyPort = 1080,
     proxyAddr = emptySockAddr E, username = [], password = [], deferReq = False, useTLS = False,
     certDB = [], nick = [], sni = []\<rparr>"

text \<open>
  One pass of the option loop: \<open>getopt\<close> has returned the option \<open>c\<close> with argument \<open>optarg\<close>. None is
  the call of \<open>usage\<close>, which exits.
\<close>

definition parse_option :: "env \<Rightarrow> char \<times> string \<Rightarrow> settings \<Rightarrow> settings option" where
  "parse_option E opt s = (case opt of (c, optarg) \<Rightarrow>
     if c = CHR ''j'' then
       (let n = atoi optarg in if n < 0 then None else Some (s\<lparr>numThreads := n\<rparr>))
     else if c = CHR ''m'' then
       (if optarg = ''proxify'' then Some (s\<lparr>mode := M_PROXIFIER\<rparr>)
        else if optarg = ''proxy'' then Some (s\<lparr>mode := M_PROXY\<rparr>)
        else None)
     else if c = CHR ''l'' then
       (let p = word_of_int (atoi optarg) in if p = 0 then None else Some (s\<lparr>port := p\<rparr>))
     else if c = CHR ''t'' then
       (let p = word_of_int (atoi optarg) in if p = 0 then None else Some (s\<lparr>tlsPort := p\<rparr>))
     else if c = CHR ''U'' then Some (s\<lparr>username := optarg\<rparr>)
     else if c = CHR ''P'' then Some (s\<lparr>password := optarg\<rparr>)
     else if c = CHR ''s'' then
       (let a = inetAddr E optarg
        in if a = 0 then None else Some (s\<lparr>proxyAddr := (proxyAddr s)\<lparr>sa_addr := IPv4 a\<rparr>\<rparr>))
     else if c = CHR ''p'' then
       (let p = word_of_int (atoi optarg) in if p = 0 then None else Some (s\<lparr>proxyPort := p\<rparr>))
     else if c = CHR ''C'' then Some (s\<lparr>certDB := optarg, useTLS := True\<rparr>)
     else if c = CHR ''S'' then Some (s\<lparr>sni := optarg, useTLS := True\<rparr>)
     else if c = CHR ''n'' then Some (s\<lparr>nick := optarg, useTLS := True\<rparr>)
     else if c = CHR ''D'' then Some (s\<lparr>deferReq := True\<rparr>)
     else None)"

fun parse_options :: "env \<Rightarrow> (char \<times> string) list \<Rightarrow> settings \<Rightarrow> settings option" where
  "parse_options E [] s = Some s"
| "parse_options E (opt # opts) s = (case parse_option E opt s of
     None \<Rightarrow> None | Some s' \<Rightarrow> parse_options E opts s')"

text \<open>
  The checks after the loop. The password checker is made outside of the \<open>try\<close> block: an exception
  of its constructor leaves \<open>main\<close>.
\<close>

definition check_settings :: "settings \<Rightarrow> (settings \<times> password_checker option) option outcome" where
  "check_settings s =
     (if mode s = M_NONE then Ret None
      else let s = s\<lparr>proxyAddr := (proxyAddr s)\<lparr>sa_port := proxyPort s\<rparr>\<rparr>
      in if min (length (username s)) (length (password s)) = 0 \<and>
            max (length (username s)) (length (password s)) > 0 then Ret None
      else (case (if mode s = M_PROXY \<and> length (username s) > 0
                  then (case SimplePasswordChecker_new (username s, password s) of
                          Inl e \<Rightarrow> Inl e | Inr c \<Rightarrow> Inr (Some c))
                  else Inr None) of
              Inl e \<Rightarrow> Abort Terminated
            | Inr checker \<Rightarrow>
                let s = (if \<not> useTLS s then s\<lparr>tlsPort := 0\<rparr> else s)
                in if mode s = M_PROXY \<and> port s = 0 \<and> tlsPort s = 0 then Ret None
                   else Ret (Some (s, checker))))"

section \<open>The event loop's virtual call\<close>

definition dispatch :: "env \<Rightarrow> rid \<Rightarrow> int \<Rightarrow> u32 \<Rightarrow> unit M" where
  "dispatch E r fd events = bindM (getR r) (\<lambda>x. case cls x of
       CProxy _ \<Rightarrow> Proxy_process E r
     | CProxifier _ \<Rightarrow> Proxifier_process E r
     | CProxyUpstreamer _ \<Rightarrow> ProxyUpstreamer_process E r
     | CAuthServer _ \<Rightarrow> AuthServer_process E r
     | CSimpleProxyDownstreamer \<Rightarrow> StreamReactor_process E r
     | CConnectProxyDownstreamer _ \<Rightarrow> ConnectProxyDownstreamer_process E r
     | CProxifierUpstreamer _ \<Rightarrow> ProxifierUpstreamer_process E r
     | CProxifierDownstreamer _ \<Rightarrow> ProxifierDownstreamer_process E r
     | CReadableDeferReactor _ \<Rightarrow> ReadableDeferReactor_process E r
     | CSessionSupplicationAgent _ \<Rightarrow> SessionSupplicationAgent_process E r
     | CTFOCookieSupplicationAgent _ \<Rightarrow> TFOCookieSupplicationAgent_process
     | CTimeoutReactor _ \<Rightarrow> TimeoutReactor_process E r fd
     | CResolver \<Rightarrow> Resolver_process)"

section \<open>main\<close>

definition any_address :: "u16 \<Rightarrow> sockaddr" where
  "any_address p = \<lparr>sa_addr = IPv4 0, sa_port = p\<rparr>"

definition expectedFDs :: nat where "expectedFDs = 2 ^ 17"

definition main_listeners ::
  "env \<Rightarrow> settings \<Rightarrow> password_checker option \<Rightarrow> tlscontext option \<Rightarrow> tlscontext option \<Rightarrow> unit M" where
  "main_listeners E s passwordChecker clientCtx serverCtx =
     (if mode s = M_PROXIFIER then
        bindM (Proxifier_new E (proxyAddr s) (any_address (port s)) (deferReq s)
                 (username s, password s) clientCtx) (\<lambda>r.
        Poller_assign E r (Proxifier_start E r))
      else seqM (if port s \<noteq> 0
                 then bindM (Proxy_new E (any_address (port s)) passwordChecker None) (\<lambda>r.
                      Poller_assign E r (Proxy_start E r))
                 else ret ())
                (if tlsPort s \<noteq> 0
                 then bindM (Proxy_new E (any_address (tlsPort s)) passwordChecker serverCtx) (\<lambda>r.
                      Poller_assign E r (Proxy_start E r))
                 else ret ()))"

definition main_contexts :: "env \<Rightarrow> settings \<Rightarrow> (tlscontext option \<times> tlscontext option) M" where
  "main_contexts E s =
     (if \<not> useTLS s then ret (None, None)
      else if mode s = M_PROXIFIER
      then bindM (TLSContext_new E False '''' (sni s)) (\<lambda>c. ret (Some c, None))
      else bindM (TLSContext_new E True (nick s) '''') (\<lambda>c. ret (None, Some c)))"

datatype exit_status = EXIT_SUCCESS | EXIT_FAILURE | Running

text \<open>\<open>usage\<close> prints these lines, all but the first after a tab, to the error output and exits.\<close>

definition USAGE_LINES :: "string list" where
  "USAGE_LINES =
    [''usage: sixtysocks [-j <thread count>] [-m <mode>] ('' @ [CHR 0x22] @ ''proxify'' @ [CHR 0x22, CHR ''/'', CHR 0x22]
       @ ''proxy'' @ [CHR 0x22, CHR '')''],
     ''[-l <listen port>] [-t <TLS listen port>]'',
     ''[-s <proxy IP>] [-p <proxy port>] (proxifier only)'',
     ''[-U <username>] [-P <password>]'',
     ''[-C <certificate DB>] [-n <key nickname>] [-S <SNI>]'',
     ''[-D] (defer request until socket is readable; proxifier only)'']"

fun usage_loop :: "bool \<Rightarrow> string list \<Rightarrow> string" where
  "usage_loop first [] = []"
| "usage_loop first (line # lines) =
     (if \<not> first then [CHR 0x09] else []) @ line @ [CHR 0x0A] @ usage_loop False lines"

definition usage :: "string \<times> exit_status" where
  "usage = (usage_loop True USAGE_LINES, EXIT_FAILURE)"

lemma usage_exit [simp]: "snd usage = EXIT_FAILURE"
  by (simp add: usage_def)

text \<open>
  An object of a block lives until the block is left, in whatever way; a loop that is still running
  has not left it.
\<close>

definition scoped :: "unit M \<Rightarrow> exit_status M \<Rightarrow> exit_status M" where
  "scoped destroy body =
     bindM (tryM body (\<lambda>e. seqM destroy (throw e))) (\<lambda>status.
     if status = Running then ret status else seqM destroy (ret status))"

text \<open>The library and the contexts are local variables of the \<open>try\<close> block of \<open>main\<close>.\<close>

definition with_library :: "env \<Rightarrow> settings \<Rightarrow> exit_status M \<Rightarrow> exit_status M" where
  "with_library E s body =
     (if \<not> useTLS s then body
      else seqM (TLSLibrary_new E (certDB s)) (scoped (TLSLibrary_destroy E) body))"

definition destroy_contexts :: "env \<Rightarrow> tlscontext option \<Rightarrow> tlscontext option \<Rightarrow> unit M" where
  "destroy_contexts E clientCtx serverCtx =
     seqM (case serverCtx of None \<Rightarrow> ret () | Some c \<Rightarrow> TLSContext_destroy E c)
          (case clientCtx of None \<Rightarrow> ret () | Some c \<Rightarrow> TLSContext_destroy E c)"

text \<open>
  \<open>main\<close>, with the event loop followed for \<open>n\<close> passes (Running when it has not returned by then).
\<close>

definition main_loop ::
  "env \<Rightarrow> settings \<Rightarrow> password_checker option \<Rightarrow> tlscontext option \<Rightarrow> tlscontext option \<Rightarrow> nat \<Rightarrow> exit_status M" where
  "main_loop E s passwordChecker clientCtx serverCtx n =
     seqM (Poller_new E expectedFDs)
     (seqM (main_listeners E s passwordChecker clientCtx serverCtx)
     (bindM (threadFun E (dispatch E) n) (\<lambda>running.
      if running then ret Running
      else seqM Poller_stop (seqM (Poller_join E) (ret EXIT_SUCCESS)))))"

definition main_run :: "env \<Rightarrow> settings \<Rightarrow> password_checker option \<Rightarrow> nat \<Rightarrow> exit_status M" where
  "main_run E s passwordChecker n =
     bindM (main_contexts E s) (\<lambda>(clientCtx, serverCtx).
     scoped (destroy_contexts E clientCtx serverCtx)
       (main_loop E s passwordChecker clientCtx serverCtx n))"

definition main :: "env \<Rightarrow> (char \<times> string) list \<Rightarrow> nat \<Rightarrow> exit_status M" where
  "main E argv n = (case parse_options E argv (initial_settings E) of
       None \<Rightarrow> ret (snd usage)
     | Some s \<Rightarrow> bindM (liftO (check_settings s)) (\<lambda>ok. case ok of
         None \<Rightarrow> ret (snd usage)
       | Some (s, passwordChecker) \<Rightarrow>
           tryM (with_library E s (main_run E s passwordChecker n)) (\<lambda>_. ret EXIT_FAILURE)))"

section \<open>Frame facts\<close>

lemma keeps_class_case:
  assumes "\<And>x. keeps R (f1 x)" "\<And>x. keeps R (f2 x)" "\<And>x. keeps R (f3 x)" "\<And>x. keeps R (f4 x)"
    "keeps R f5" "\<And>x. keeps R (f6 x)" "\<And>x. keeps R (f7 x)" "\<And>x. keeps R (f8 x)" "\<And>x. keeps R (f9 x)"
    "\<And>x. keeps R (f10 x)" "\<And>x. keeps R (f11 x)" "\<And>x. keeps R (f12 x)" "keeps R f13"
  shows "keeps R (case c of CProxy x \<Rightarrow> f1 x | CProxifier x \<Rightarrow> f2 x | CProxyUpstreamer x \<Rightarrow> f3 x
     | CAuthServer x \<Rightarrow> f4 x | CSimpleProxyDownstreamer \<Rightarrow> f5 | CConnectProxyDownstreamer x \<Rightarrow> f6 x
     | CProxifierUpstreamer x \<Rightarrow> f7 x | CProxifierDownstreamer x \<Rightarrow> f8 x | CReadableDeferReactor x \<Rightarrow> f9 x
     | CSessionSupplicationAgent x \<Rightarrow> f10 x | CTFOCookieSupplicationAgent x \<Rightarrow> f11 x
     | CTimeoutReactor x \<Rightarrow> f12 x | CResolver \<Rightarrow> f13)"
  using assms by (simp split: rclass.split)

lemma frame_dispatch [keeps_intro]: "keeps frame (dispatch E r fd ev)"
  unfolding dispatch_def Resolver_process_def
  by (intro fr.keeps_rules keeps_intro keeps_class_case)

lemma frame_listeners [keeps_intro]: "keeps frame (main_listeners E s pc cctx sctx)"
  unfolding main_listeners_def by (intro fr.keeps_rules keeps_intro)

end
