(* ===== verification/Live.thy ===== *)
theory Live
  imports Program
begin

text \<open>
  The event loop never follows a dangling reference: every reactor in the poller's table exists.
  An object disappears from the heap only when its constructor fails, and a constructor registers
  nothing. Methods that register nothing are \<open>calm\<close>: the table loses entries at most and no object
  but those of a given set disappears. Only \<open>Poller_add\<close> is not calm, and it registers a reactor
  that exists. Together with the frame this gives the invariant \<open>loop_ok\<close> of the event loop, for
  the program's own \<open>dispatch\<close>.
\<close>

section \<open>Calm methods\<close>

definition live :: "world \<Rightarrow> bool" where
  "live w \<longleftrightarrow> (\<forall>r. reactors w r \<noteq> None \<longrightarrow> r < nextRid w) \<and>
     (\<forall>n r. fe_reactor (fdEntries w n) = Some r \<longrightarrow> reactors w r \<noteq> None)"

definition calm :: "rid set \<Rightarrow> world \<Rightarrow> world \<Rightarrow> bool" where
  "calm X w w' \<longleftrightarrow> nextRid w \<le> nextRid w' \<and>
     (\<forall>n. fe_reactor (fdEntries w' n) = None \<or> fe_reactor (fdEntries w' n) = fe_reactor (fdEntries w n)) \<and>
     (\<forall>r. r \<notin> X \<and> r < nextRid w \<and> reactors w r \<noteq> None \<longrightarrow> reactors w' r \<noteq> None) \<and>
     (\<forall>r. reactors w' r \<noteq> None \<longrightarrow> reactors w r \<noteq> None \<or> nextRid w \<le> r \<and> r < nextRid w')"

interpretation cm: world_preorder "calm X"
proof unfold_locales
  fix u v w assume uv: "calm X u v" and vw: "calm X v w"
  show "calm X u w"
    unfolding calm_def
  proof (intro conjI allI impI)
    show "nextRid u \<le> nextRid w" using uv vw by (auto simp: calm_def)
  next
    fix n
    from uv vw show "fe_reactor (fdEntries w n) = None \<or>
        fe_reactor (fdEntries w n) = fe_reactor (fdEntries u n)"
      unfolding calm_def by metis
  next
    fix r assume r: "r \<notin> X \<and> r < nextRid u \<and> reactors u r \<noteq> None"
    with uv have "reactors v r \<noteq> None" "r < nextRid v" by (auto simp: calm_def)
    with r vw show "reactors w r \<noteq> None" by (auto simp: calm_def)
  next
    fix r assume "reactors w r \<noteq> None"
    with vw have "reactors v r \<noteq> None \<or> nextRid v \<le> r \<and> r < nextRid w" by (auto simp: calm_def)
    with uv vw show "reactors u r \<noteq> None \<or> nextRid u \<le> r \<and> r < nextRid w"
      unfolding calm_def by (meson less_le_trans le_trans)
  qed
qed (auto simp: calm_def)

lemma calm_heap:
  "reactors w' = reactors w \<Longrightarrow> nextRid w' = nextRid w \<Longrightarrow> fdEntries w' = fdEntries w \<Longrightarrow> calm X w w'"
  by (simp add: calm_def)

lemma calm_extcall [keeps_intro]: "keeps (calm X) (extcall E c)"
  by (rule keepsI) (simp add: run_extcall calm_heap)

lemma calm_checked [keeps_intro]: "keeps (calm X) (checked E c)"
  unfolding checked_def by (intro cm.keeps_rules keeps_intro)

lemma calm_modR [keeps_intro]: "keeps (calm X) (modR r f)"
  by (rule keepsI) (auto simp: modR_def calm_def split: option.splits)

lemma calm_basic [keeps_intro]:
  "keeps (calm X) (getR r)" "keeps (calm X) (newR x)" "keeps (calm X) (entry_at fd)"
  "keeps (calm X) (modBuf r g)"
  by (auto simp: keeps_def getR_def newR_def entry_at_def modBuf_def modR_def calm_def split: option.splits)

lemma calm_delete: "r \<in> X \<Longrightarrow> keeps (calm X) (deleteR r)"
  by (rule keepsI) (auto simp: deleteR_def run_basic calm_def)

text \<open>Changes of the other parts of the state.\<close>

lemma calm_others [keeps_intro]:
  "keeps (calm X) (getT t)" "keeps (calm X) (modT t g)" "keeps (calm X) (PR_SetError e)"
  "keeps (calm X) (set_blockDirection d)" "keeps (calm X) (newT fd)" "keeps (calm X) (deleteT t)"
  "keeps (calm X) (setReadFD t fd)" "keeps (calm X) (setWriteFD t fd)"
  "keeps (calm X) (getSS s)" "keeps (calm X) (newSS sid)" "keeps (calm X) (modSS s f)"
  "keeps (calm X) (getCS cs)" "keeps (calm X) (newCS cx)" "keeps (calm X) (getSP sp)" "keeps (calm X) (setSP sp y)"
  "keeps (calm X) (SessionSupplicant_new p)" "keeps (calm X) (getTM tm)" "keeps (calm X) (modTM tm h)"
  by (auto simp: keeps_def getT_def modT_def PR_SetError_def set_blockDirection_def newT_def deleteT_def
      setReadFD_def setWriteFD_def getSS_def newSS_def modSS_def getCS_def newCS_def getSP_def setSP_def
      SessionSupplicant_new_def getTM_def modTM_def run_basic intro!: calm_heap split: option.splits)

lemma calm_remove [keeps_intro]: "keeps (calm X) (Poller_remove E fd False)"
  by (rule keepsI) (auto simp: Poller_remove_eq Let_def calm_def no_entry_def)

lemma calm_uniqfd [keeps_intro]:
  "keeps (calm X) (UniqFD_assign a b)" "keeps (calm X) (UniqFD_reset E fd)"
  "keeps (calm X) (UniqFD_destroy E fd)" "keeps (calm X) (UniqRecvFD_reset E fd)"
  "keeps (calm X) (UniqRecvFD_destroy E fd)" "keeps (calm X) (UniqSendFD_reset E fd)"
  "keeps (calm X) (UniqSendFD_destroy E fd)" "keeps (calm X) (UniqRecvFD_move_assign a b)"
  "keeps (calm X) (UniqSendFD_move_assign a b)"
  unfolding uniqfd_defs by (intro cm.keeps_rules keeps_intro)+

lemma calm_deactivates [keeps_intro]:
  "keeps (calm X) (Reactor_deactivate r)" "keeps (calm X) (ListenReactor_deactivate E r)"
  "keeps (calm X) (StickReactor_deactivate E r)" "keeps (calm X) (StreamReactor_deactivate E r)"
  "keeps (calm X) (TimeoutReactor_deactivate E r)" "keeps (calm X) (AuthServer_deactivate E r u)"
  unfolding deactivate_defs by (intro cm.keeps_rules keeps_intro)+

lemma calm_deactivate [keeps_intro]: "keeps (calm X) (deactivate E r)"
  unfolding deactivate_def by (intro cm.keeps_rules keeps_intro keeps_class_case)

lemma calm_mapError [keeps_intro]:
  "keeps (calm X) (mapError e)" "keeps (calm X) (mapError_override ov e)"
  unfolding mapError_override_def mapError_def by (intro cm.keeps_rules keeps_intro)+

lemma calm_layer [keeps_intro]:
  "keeps (calm X) (dRecv E t n)" "keeps (calm X) (dSend E t xs)"
  "keeps (calm X) (dGetName E t)" "keeps (calm X) (dGetPeerName E t)"
  "keeps (calm X) (dRead E t n)" "keeps (calm X) (dWrite E t xs)" "keeps (calm X) invalidFn"
  unfolding tls_layer_defs by (intro cm.keeps_rules keeps_intro)+

lemma calm_METHODS [keeps_intro]: "keeps (calm X) (METHODS E t c)"
  unfolding METHODS_def by (cases c) (auto intro!: cm.keeps_rules keeps_intro)

lemma calm_callbacks [keeps_intro]: "keeps (calm X) (run_callbacks E t cs)"
  by (induction cs) (auto intro!: cm.keeps_rules keeps_intro)

lemma calm_nss [keeps_intro]: "keeps (calm X) (nss E t c)"
  unfolding nss_def by (intro cm.keeps_rules keeps_intro)

lemma calm_tls [keeps_intro]:
  "keeps (calm X) (tlsHandleErr fd)" "keeps (calm X) (tlsDisableEarlyData E t)"
  "keeps (calm X) (tls_clientHandshake E t r)" "keeps (calm X) (tlsWrite E t r)"
  "keeps (calm X) (tlsRead E t r)" "keeps (calm X) (buffered r)" "keeps (calm X) (buf_receive r xs k)"
  unfolding tls_defs by (intro cm.keeps_rules keeps_intro keeps_handshake_case)+

lemma calm_TLS_new [keeps_intro]: "keeps (calm X) (TLS_new E ctx fd)"
  unfolding TLS_new_def nss_checked_def by (intro cm.keeps_rules keeps_intro)

lemma calm_socket [keeps_intro]:
  "keeps (calm X) (clientHandshake E s r)" "keeps (calm X) (sockRecv E s r)"
  "keeps (calm X) (sockSend E s r)" "keeps (calm X) (sockConnect E s r a m e)"
  "keeps (calm X) (getConnectError E s)" "keeps (calm X) (duplicate_for_read E s s')"
  "keeps (calm X) (duplicate_for_write E s s')" "keeps (calm X) (keepAlive E s)"
  unfolding socket_defs by (intro cm.keeps_rules keeps_intro)+

lemma calm_stream_basic [keeps_intro]:
  "keeps (calm X) (set_streamState r s)" "keeps (calm X) (reset_srcSock E r)" "keeps (calm X) (reset_dstSock E r)"
  "keeps (calm X) (close_srcSock E r)" "keeps (calm X) (close_dstSock E r)"
  unfolding set_streamState_def reset_srcSock_def reset_dstSock_def close_srcSock_def close_dstSock_def
  by (intro cm.keeps_rules keeps_intro)+

lemma calm_destroy [keeps_intro]:
  "keeps (calm {r}) (StreamReactor_destroy E r)" "keeps (calm {r}) (StickReactor_destroy E r)"
  "keeps (calm {r}) (ListenReactor_unwind E r)"
  unfolding StreamReactor_destroy_def StickReactor_destroy_def ListenReactor_unwind_def
  by (intro cm.keeps_rules keeps_intro calm_delete singletonI)+

text \<open>
  A constructor: the object has a fresh name, so that its disappearance is none of the others' business.
\<close>

lemma calm_fresh:
  assumes "calm {nextRid w} (w\<lparr>reactors := (reactors w)(nextRid w \<mapsto> x), nextRid := Suc (nextRid w)\<rparr>) v"
  shows "calm X w v"
  unfolding calm_def
proof (intro conjI allI impI)
  fix n
  from assms show "fe_reactor (fdEntries v n) = None \<or>
      fe_reactor (fdEntries v n) = fe_reactor (fdEntries w n)" by (simp add: calm_def)
next
  fix r assume "r \<notin> X \<and> r < nextRid w \<and> reactors w r \<noteq> None"
  moreover have "r \<notin> {nextRid w} \<and> r < Suc (nextRid w) \<and> ((reactors w)(nextRid w \<mapsto> x)) r \<noteq> None \<longrightarrow>
      reactors v r \<noteq> None" using assms by (simp add: calm_def)
  ultimately show "reactors v r \<noteq> None" by simp
next
  fix r assume "reactors v r \<noteq> None"
  with assms show "reactors w r \<noteq> None \<or> nextRid w \<le> r \<and> r < nextRid v"
    by (cases "r = nextRid w") (auto simp: calm_def)
qed (use assms in \<open>auto simp: calm_def\<close>)

lemma calm_construct:
  assumes "\<And>r. keeps (calm {r}) (body r)" "\<And>r. keeps (calm {r}) (undo r)"
  shows "keeps (calm X) (bindM (newR x) (\<lambda>r. tryM (body r) (\<lambda>e. seqM (undo r) (throw e))))"
proof (rule keepsI)
  fix w :: world
  let ?r = "nextRid w"
  let ?m = "tryM (body ?r) (\<lambda>e. seqM (undo ?r) (throw e))"
  let ?v = "w\<lparr>reactors := (reactors w)(?r \<mapsto> x), nextRid := Suc ?r\<rparr>"
  have "keeps (calm {?r}) ?m" by (intro cm.keeps_rules assms)
  then have "calm {?r} ?v (snd (?m ?v))" by (rule keepsD)
  then have "calm X w (snd (?m ?v))" by (rule calm_fresh)
  then show "calm X w (snd (bindM (newR x) (\<lambda>r. tryM (body r) (\<lambda>e. seqM (undo r) (throw e))) w))"
    by (simp add: run_bind(1)[OF run_newR])
qed

lemma calm_pack_dup [keeps_intro]:
  "keeps (calm X) (pack_into r pk)" "keeps (calm X) (dup_dstSock E r u)" "keeps (calm X) (dup_srcSock E r u)"
  unfolding pack_into_def dup_dstSock_def dup_srcSock_def by (intro cm.keeps_rules keeps_intro)+

lemma calm_getters [keeps_intro]:
  "keeps (calm X) (getPU r)" "keeps (calm X) (getAS r)" "keeps (calm X) (the_request d)"
  "keeps (calm X) (getProxy p)" "keeps (calm X) (getPF p)" "keeps (calm X) (getXD r)" "keeps (calm X) (getXU r)"
  "keeps (calm X) (getSG r)" "keeps (calm X) (getQ r)"
  unfolding getPU_def getAS_def the_request_def getProxy_def getPF_def getXD_def getXU_def getSG_def getQ_def
  by (intro cm.keeps_rules keeps_intro keeps_class_case)+

lemma calm_setters [keeps_intro]:
  "keeps (calm X) (modPU r f)" "keeps (calm X) (modAS r g)" "keeps (calm X) (modProxy p h)"
  "keeps (calm X) (modPF p k)" "keeps (calm X) (modXD r l)" "keeps (calm X) (modXU r m)" "keeps (calm X) (modQ r q)"
  "keeps (calm X) (set_agent_state r s)" "keeps (calm X) (set_reply_code r c)" "keeps (calm X) (set_pu_state r t)"
  "keeps (calm X) (set_listenFD r fd)"
  unfolding modPU_def modAS_def modProxy_def modPF_def modXD_def modXU_def modQ_def set_agent_state_def
    set_reply_code_def set_pu_state_def set_listenFD_def by (intro keeps_intro)+

lemma calm_sessions [keeps_intro]:
  "keeps (calm X) (ServerSession_new E)" "keeps (calm X) (getID s)" "keeps (calm X) (getTokenBank s)"
  "keeps (calm X) (makeBank E s sz)" "keeps (calm X) (getPasswordChecker p)" "keeps (calm X) (getSession p sid)"
  unfolding auth_defs by (intro cm.keeps_rules keeps_intro)+

lemma calm_spawn [keeps_intro]: "keeps (calm X) (spawnSession E p)"
proof -
  have "keeps (calm X) (spawnSession_loop E p n)" for n
    by (induction n) (simp_all, (intro cm.keeps_rules keeps_intro | assumption)+)
  then show ?thesis by (simp add: spawnSession_def)
qed

lemma calm_idempotence [keeps_intro]: "keeps (calm X) (authenticate_idempotence E opts reply s)"
  unfolding authenticate_idempotence_def by (intro cm.keeps_rules keeps_intro)

lemma calm_authenticate [keeps_intro]: "keeps (calm X) (authenticate E opts p)"
  unfolding authenticate_def authenticate_user_def authenticate_session_def Let_def
  by (intro cm.keeps_rules keeps_intro)

lemma calm_downstreamers [keeps_intro]:
  "keeps (calm X) (SimpleProxyDownstreamer_new E u rep)" "keeps (calm X) (SimpleProxyDownstreamer_new_version E u)"
  "keeps (calm X) (ConnectProxyDownstreamer_new E u rep)" "keeps (calm X) (AuthServer_new E u)"
  unfolding SimpleProxyDownstreamer_new_def SimpleProxyDownstreamer_new_version_def
    ConnectProxyDownstreamer_new_def AuthServer_new_def construct_def
  by (intro calm_construct cm.keeps_rules keeps_intro)+

lemma calm_ProxyUpstreamer_new [keeps_intro]: "keeps (calm X) (ProxyUpstreamer_new E p fd)"
  unfolding ProxyUpstreamer_new_def construct_def
  by (rule cm.keeps_rules, rule keeps_intro) (intro calm_construct cm.keeps_rules keeps_intro)

lemma calm_client_session [keeps_intro]:
  "keeps (calm X) (ClientSession_new E sid u win)" "keeps (calm X) (updateWallet E s win)"
  "keeps (calm X) (getToken E s)" "keeps (calm X) (Proxifier_getSession p)" "keeps (calm X) (killSession p so)"
  "keeps (calm X) (setSession p s)" "keeps (calm X) (supplicantDone p)" "keeps (calm X) (supplicationLock_lock p)"
  "keeps (calm X) (supplicationLock_try_lock p)"
  unfolding client_session_defs by (intro cm.keeps_rules keeps_intro)+

lemma calm_supplicant [keeps_intro]:
  "keeps (calm X) (SessionSupplicant_destroy s)" "keeps (calm X) (supplicant_process_reply E s rep)"
  "keeps (calm X) (acquire_supplicant p)" "keeps (calm X) (ProxifierDownstreamer_session E p so rep)"
  unfolding SessionSupplicant_destroy_def supplicant_process_reply_def acquire_supplicant_def
    ProxifierDownstreamer_session_def
  by (intro cm.keeps_rules keeps_intro)+

lemma calm_client_new [keeps_intro]:
  "keeps (calm X) (ProxifierDownstreamer_new E u)" "keeps (calm X) (SessionSupplicationAgent_new E p s ctx)"
  "keeps (calm X) (TFOCookieSupplicationAgent_new E p)" "keeps (calm X) (ReadableDeferReactor_new fd r)"
  unfolding ProxifierDownstreamer_new_def SessionSupplicationAgent_new_def TFOCookieSupplicationAgent_new_def
    ReadableDeferReactor_new_def agent_socket_def construct_def
  by (rule cm.keeps_bind, rule keeps_intro, intro calm_construct cm.keeps_rules keeps_intro |
      rule keeps_intro)+

lemma calm_ProxifierUpstreamer_new [keeps_intro]: "keeps (calm X) (ProxifierUpstreamer_new E p fd s)"
  unfolding ProxifierUpstreamer_new_def construct_def
  by (rule cm.keeps_bind, rule keeps_intro, rule cm.keeps_bind, rule keeps_intro)
    (intro calm_construct cm.keeps_rules keeps_intro)

lemma calm_request [keeps_intro]: "keeps (calm X) (ProxifierUpstreamer_request E r)"
  unfolding ProxifierUpstreamer_request_def
  by (intro cm.keeps_rules keeps_intro keeps_client_choices)

lemma calm_with_supplicant [keeps_intro]: "keeps (calm X) m \<Longrightarrow> keeps (calm X) (with_supplicant s m)"
  unfolding with_supplicant_def by (intro cm.keeps_rules keeps_intro)

lemma calm_listen_new [keeps_intro]: "keeps (calm X) (ListenReactor_new E c a)"
  unfolding ListenReactor_new_def ListenReactor_init_def construct_def
  by (intro calm_construct cm.keeps_rules keeps_intro)

lemma calm_listeners_new [keeps_intro]:
  "keeps (calm X) (Proxy_new E a pc ctx)" "keeps (calm X) (Proxifier_new E pa ba defer cr ctx)"
  unfolding Proxy_new_def Proxifier_new_def by (intro cm.keeps_rules keeps_intro)+

lemma calm_trigger [keeps_intro]: "keeps (calm X) (trigger E t)"
  unfolding trigger_def by (intro cm.keeps_rules keeps_intro)

lemma calm_expire [keeps_intro]: "keeps (calm X) (expire E r now timeout q)"
  by (induction q) (simp_all, (intro cm.keeps_rules keeps_intro | assumption)+)

lemma calm_expire_all [keeps_intro]: "keeps (calm X) (expire_all E r now qs)"
  by (induction qs rule: expire_all.induct) (auto intro: cm.keeps_rules keeps_intro)

section \<open>Methods that register\<close>

definition lively :: "world \<Rightarrow> world \<Rightarrow> bool" where
  "lively w w' \<longleftrightarrow> (live w \<longrightarrow> live w')"

interpretation lv: world_preorder lively
  by unfold_locales (auto simp: lively_def)

lemma calm_lively: "calm {} w w' \<Longrightarrow> lively w w'"
  unfolding lively_def live_def
proof (intro impI conjI allI)
  fix r assume c: "calm {} w w'" and l: "(\<forall>r. reactors w r \<noteq> None \<longrightarrow> r < nextRid w) \<and>
    (\<forall>n r. fe_reactor (fdEntries w n) = Some r \<longrightarrow> reactors w r \<noteq> None)"
  {
    assume "reactors w' r \<noteq> None"
    with c l show "r < nextRid w'" unfolding calm_def by (meson less_le_trans)
  next
    fix n assume "fe_reactor (fdEntries w' n) = Some r"
    with c have "fe_reactor (fdEntries w n) = Some r" unfolding calm_def by (metis option.distinct(1))
    with c l show "reactors w' r \<noteq> None" unfolding calm_def by blast
  }
qed

lemma calm_keeps_lively: "keeps (calm {}) m \<Longrightarrow> keeps lively m"
  by (simp add: keeps_def calm_lively)

lemma lively_add [keeps_intro]: "keeps lively (Poller_add E r fd ev)"
proof (rule keepsI)
  fix w
  show "lively w (snd (Poller_add E r fd ev w))"
  proof (cases "reactors w r")
    case None
    then show ?thesis by (simp add: Poller_add_def runIfActive_def isActive_def exec_simps lv.R_refl)
  next
    case (Some x)
    then show ?thesis by (auto simp: Poller_add_eq Let_def lively_def live_def)
  qed
qed

lemmas lively_calm [keeps_intro] =
  calm_basic(1,4)[THEN calm_keeps_lively] calm_deactivate[THEN calm_keeps_lively]
  calm_socket[THEN calm_keeps_lively] calm_stream_basic[THEN calm_keeps_lively]
  calm_tls(6,7)[THEN calm_keeps_lively] calm_extcall[THEN calm_keeps_lively]
  calm_checked[THEN calm_keeps_lively] calm_getters[THEN calm_keeps_lively] calm_setters[THEN calm_keeps_lively]
  calm_downstreamers[THEN calm_keeps_lively] calm_ProxyUpstreamer_new[THEN calm_keeps_lively]
  calm_client_session[THEN calm_keeps_lively] calm_supplicant[THEN calm_keeps_lively]
  calm_client_new[THEN calm_keeps_lively] calm_ProxifierUpstreamer_new[THEN calm_keeps_lively]
  calm_request[THEN calm_keeps_lively] calm_listeners_new[THEN calm_keeps_lively]
  calm_expire_all[THEN calm_keeps_lively] calm_uniqfd[THEN calm_keeps_lively]
  calm_others[THEN calm_keeps_lively] calm_modR[THEN calm_keeps_lively]

lemma lively_runAs [keeps_intro]: "keeps lively m \<Longrightarrow> keeps lively (Poller_runAs E r m)"
  unfolding Poller_runAs_def by (intro lv.keeps_rules keeps_exn_case keeps_intro)

lemma lively_assign [keeps_intro]: "keeps lively m \<Longrightarrow> keeps lively (Poller_assign E r m)"
  unfolding Poller_assign_def by (rule lively_runAs)

lemma lively_stream [keeps_intro]:
  "keeps lively (StreamReactor_process E r)" "keeps lively (StreamReactor_start E r)"
  unfolding StreamReactor_process_def StreamReactor_start_def StreamReactor_sending_def StreamReactor_receiving_def
  by (intro lv.keeps_rules keeps_intro keeps_choices)+

lemma lively_assign_simple [keeps_intro]: "keeps lively (assign_simple E r)"
  unfolding assign_simple_def by (intro lv.keeps_rules keeps_intro)

lemma lively_tfo [keeps_intro]: "keeps lively (ProxyUpstreamer_tfo E r)"
  unfolding ProxyUpstreamer_tfo_def ProxyUpstreamer_readTFO_def ProxyUpstreamer_connect_def
  by (intro lv.keeps_rules keeps_intro keeps_exn_case)

lemma lively_honorRequest [keeps_intro]: "keeps lively (honorRequest E r)"
  unfolding honorRequest_def honorConnect_def honorConnectStackOptions_def
  by (intro lv.keeps_rules keeps_intro keeps_choices)

lemma lively_authDone [keeps_intro]: "keeps lively (authDone E r)"
  unfolding authDone_def addrFixupAndHonorRequest_def by (intro lv.keeps_rules keeps_intro keeps_choices)

lemma lively_AuthServer [keeps_intro]:
  "keeps lively (AuthServer_process E r)" "keeps lively (AuthServer_start E r)"
  unfolding AuthServer_start_def AuthServer_process_def sendReply_def by (intro lv.keeps_rules keeps_intro)+

lemma lively_ProxyUpstreamer [keeps_intro]: "keeps lively (ProxyUpstreamer_process E r)"
  unfolding ProxyUpstreamer_process_def ProxyUpstreamer_readReq_def ProxyUpstreamer_connecting_def
    populateConnectStackOptions_def
  by (intro lv.keeps_rules keeps_intro keeps_choices keeps_exn_case)

lemma lively_listen_start [keeps_intro]: "keeps lively (ListenReactor_start E r)" "keeps lively (isActive r)"
  unfolding ListenReactor_start_def isActive_def by (intro lv.keeps_rules keeps_intro)+

lemma lively_listen_loop:
  assumes "\<And>fd. keeps lively (h fd)"
  shows "keeps lively (ListenReactor_loop E h r n)"
  by (induction n) (simp_all, (intro lv.keeps_rules keeps_intro assms | assumption)+)

lemma lively_proxy [keeps_intro]: "keeps lively (Proxy_process E r)" "keeps lively (Proxy_start E r)"
  unfolding Proxy_process_def ListenReactor_process_def Proxy_handleNewConnection_def
    ProxyUpstreamer_start_def Proxy_start_def
  by (intro lively_listen_loop lv.keeps_rules keeps_intro)+

lemma lively_enter_stream [keeps_intro]: "keeps lively (enter_stream E r)"
  unfolding enter_stream_def by (intro lv.keeps_rules keeps_intro)

lemma lively_opRep [keeps_intro]: "keeps lively (ProxifierDownstreamer_opRep E r b)"
  unfolding ProxifierDownstreamer_opRep_def by (intro lv.keeps_rules keeps_intro keeps_exn_case)

lemma lively_downstreamer [keeps_intro]: "keeps lively (ProxifierDownstreamer_process E r)"
  unfolding ProxifierDownstreamer_process_def ProxifierDownstreamer_authRep_def
  by (intro lv.keeps_rules keeps_intro keeps_exn_case keeps_client_choices)

lemma lively_upstreamer_start [keeps_intro]: "keeps lively (ProxifierUpstreamer_start E r)"
  unfolding ProxifierUpstreamer_start_def by (intro lv.keeps_rules keeps_intro keeps_exn_case)

lemma lively_upstreamer [keeps_intro]: "keeps lively (ProxifierUpstreamer_process E r)"
  unfolding ProxifierUpstreamer_process_def ProxifierUpstreamer_connecting_def
    ProxifierUpstreamer_handshake_def ProxifierUpstreamer_sendReq_def checkConnected_def
  by (intro lv.keeps_rules keeps_intro keeps_client_choices)

lemma lively_defer [keeps_intro]:
  "keeps lively (ReadableDeferReactor_start E r)" "keeps lively (ReadableDeferReactor_process E r)"
  unfolding ReadableDeferReactor_start_def ReadableDeferReactor_process_def
  by (intro lv.keeps_rules keeps_intro keeps_class_case)+

lemma lively_agents [keeps_intro]:
  "keeps lively (SessionSupplicationAgent_start E r)" "keeps lively (SessionSupplicationAgent_process E r)"
  "keeps lively (TFOCookieSupplicationAgent_start E r p)"
  unfolding SessionSupplicationAgent_start_def SessionSupplicationAgent_process_def
    SessionSupplicationAgent_sendReq_def SessionSupplicationAgent_recvRep_def checkConnected_def
    TFOCookieSupplicationAgent_start_def
  by (intro lv.keeps_rules keeps_intro keeps_exn_case keeps_client_choices)+

lemma lively_with_supplicant [keeps_intro]: "keeps lively m \<Longrightarrow> keeps lively (with_supplicant s m)"
  unfolding with_supplicant_def by (intro lv.keeps_rules keeps_intro)

lemma lively_handleNewConnection [keeps_intro]: "keeps lively (Proxifier_handleNewConnection E p fd)"
  unfolding Proxifier_handleNewConnection_def by (intro lv.keeps_rules keeps_intro)

lemma lively_Proxifier [keeps_intro]: "keeps lively (Proxifier_start E p)" "keeps lively (Proxifier_process E p)"
  unfolding Proxifier_start_def Proxifier_process_def Proxifier_supplicate_def ListenReactor_process_def
  by (intro lively_listen_loop lv.keeps_rules keeps_intro)+

lemma lively_timeout [keeps_intro]: "keeps lively (TimeoutReactor_process E r fd)"
  unfolding TimeoutReactor_process_def by (intro lv.keeps_rules keeps_intro)

lemma lively_dispatch [keeps_intro]: "keeps lively (dispatch E r fd ev)"
  unfolding dispatch_def ConnectProxyDownstreamer_process_def TFOCookieSupplicationAgent_process_def
    Resolver_process_def
  by (intro lv.keeps_rules keeps_intro keeps_class_case)

lemma lively_listeners [keeps_intro]: "keeps lively (main_listeners E s pc cctx sctx)"
  unfolding main_listeners_def by (intro lv.keeps_rules keeps_intro)

section \<open>The event loop\<close>

definition loop_ok :: "world \<Rightarrow> bool" where
  "loop_ok w \<longleftrightarrow> poll_inv w \<and> live w"

text \<open>
  What one event does to the loop's state: the invariant stays, the history grows, and objects
  develop as \<open>heap_grows\<close> says (a deactivated reactor is never active again).
\<close>

definition loop_step :: "world \<Rightarrow> world \<Rightarrow> bool" where
  "loop_step w w' \<longleftrightarrow> (loop_ok w \<longrightarrow> loop_ok w' \<and> hist_grows w w' \<and> heap_grows w w' \<and> fdCount w' = fdCount w)"

interpretation ls: world_preorder loop_step
  by unfold_locales
    (auto simp: loop_step_def intro: hg.R_refl heap.R_refl hg.R_trans heap.R_trans)

lemma loop_step_method: "keeps frame m \<Longrightarrow> keeps lively m \<Longrightarrow> keeps loop_step m"
  by (simp add: keeps_def frame_def lively_def loop_step_def loop_ok_def)

lemma live_entries: "live w \<Longrightarrow> entries_live w"
  by (simp add: live_def entries_live_def)

lemma after_event_step:
  assumes "epoll_wait_ok E" "0 < c_rc (os E (hist w) EpollWait)"
  shows "loop_step w (after_event E w)"
proof -
  have "live w \<Longrightarrow> live (after_event E w)" by (auto simp: live_def after_event_def Let_def)
  moreover have "hist_grows w (after_event E w)" "heap_grows w (after_event E w)"
    "fdCount (after_event E w) = fdCount w"
    by (auto simp: hist_grows_def heap_grows_def object_after_def after_event_def Let_def)
  ultimately show ?thesis
    using poll_inv_after_event[OF _ assms] by (simp add: loop_step_def loop_ok_def)
qed

text \<open>No event: the history grows by the call, and epoll's state is the same.\<close>

lemma no_event_step:
  assumes "c_rc (os E (hist w) EpollWait) \<le> 0"
  shows "loop_step w (w\<lparr>hist := hist w @ [(EpollWait, os E (hist w) EpollWait)]\<rparr>)"
  using assms
  by (auto simp: loop_step_def loop_ok_def live_def poll_inv_def epoll_simps hist_grows_def heap_grows_def
      object_after_def)

lemma threadFun_pass_event:
  assumes "epoll_wait_ok E" "loop_ok w" "0 < c_rc (os E (hist w) EpollWait)"
    "c_out (os E (hist w) EpollWait) = (fd, ev)"
  shows "\<exists>r x. fe_reactor (fdEntries w (nat fd)) = Some r \<and> reactors w r = Some x \<and>
    threadFun_pass E process w =
      (if active x then seqM (Poller_runAs E r (process r fd ev)) (ret True) (after_event E w)
       else (Ret False, after_event E w))"
proof -
  from assms(2) have "poll_inv w" "entries_live w" by (auto simp: loop_ok_def live_entries)
  then obtain r x where r: "0 \<le> fd" "fd < int (fdCount w)" "fe_reactor (fdEntries w (nat fd)) = Some r"
    "reactors w r = Some x"
    using event_has_reactor[OF _ _ assms(1,3)] assms(4) by (metis fst_conv)
  from threadFun_pass_eq[OF assms(3,4) r] r show ?thesis by blast
qed

lemma threadFun_pass_idle:
  assumes "c_rc (os E (hist w) EpollWait) \<le> 0"
  shows "snd (threadFun_pass E process w) = w\<lparr>hist := hist w @ [(EpollWait, os E (hist w) EpollWait)]\<rparr>"
  using assms by (auto simp: threadFun_pass_def bindM_def run_extcall run_basic)

lemma pass_step:
  assumes E: "epoll_wait_ok E" and p: "\<And>r fd ev. keeps frame (process r fd ev)" "\<And>r fd ev. keeps lively (process r fd ev)"
  shows "keeps loop_step (threadFun_pass E process)"
proof (rule keepsI)
  fix w
  show "loop_step w (snd (threadFun_pass E process w))"
  proof (cases "loop_ok w \<and> 0 < c_rc (os E (hist w) EpollWait)")
    case True
    obtain fd ev where out: "c_out (os E (hist w) EpollWait) = (fd, ev)" by fastforce
    obtain r and x :: reactor where pass: "threadFun_pass E process w =
        (if active x then seqM (Poller_runAs E r (process r fd ev)) (ret True) (after_event E w)
         else (Ret False, after_event E w))"
      using threadFun_pass_event[OF E _ _ out, of process] True by blast
    have "keeps loop_step (Poller_runAs E r (process r fd ev))"
      by (intro loop_step_method keeps_intro p)
    then have "keeps loop_step (seqM (Poller_runAs E r (process r fd ev)) (ret True))"
      by (intro ls.keeps_rules)
    from keepsD[OF this, of "after_event E w"] ls.R_refl[of "after_event E w"]
    have "loop_step (after_event E w) (snd (threadFun_pass E process w))" by (simp add: pass)
    with after_event_step[OF E] True show ?thesis by (blast intro: ls.R_trans)
  next
    case False
    then consider "\<not> loop_ok w" | "c_rc (os E (hist w) EpollWait) \<le> 0" by force
    then show ?thesis
      by cases (simp_all add: threadFun_pass_idle no_event_step, simp add: loop_step_def)
  qed
qed

lemma threadFun_step:
  assumes "epoll_wait_ok E" "\<And>r fd ev. keeps frame (process r fd ev)" "\<And>r fd ev. keeps lively (process r fd ev)"
  shows "keeps loop_step (threadFun E process n)"
  by (induction n) (simp_all, (intro ls.keeps_rules pass_step assms | assumption)+)

lemma join_step: "keeps loop_step (Poller_join E)"
proof -
  have "keeps loop_step (deactivate E r)" for r
    by (intro loop_step_method keeps_intro)
  moreover from this have "keeps loop_step (Poller_join_loop E ns)" for ns
    by (induction ns) (simp_all, (intro ls.keeps_rules | assumption)+)
  ultimately show ?thesis unfolding Poller_join_def by (intro ls.keeps_rules)
qed

section \<open>From the start of the program\<close>

text \<open>Before the poller exists: nothing is registered anywhere.\<close>

definition initial_ok :: "world \<Rightarrow> bool" where
  "initial_ok w \<longleftrightarrow> interest (hist w) = {} \<and> armed (hist w) = {} \<and> (\<forall>n. fdEntries w n = no_entry) \<and>
     (\<forall>r. reactors w r \<noteq> None \<longrightarrow> r < nextRid w)"

definition started :: "world \<Rightarrow> world \<Rightarrow> bool" where
  "started w w' \<longleftrightarrow> (initial_ok w \<longrightarrow> loop_ok w')"

lemma initial_loop_ok: "initial_ok w \<Longrightarrow> loop_ok w"
  by (auto simp: initial_ok_def loop_ok_def poll_inv_def live_def no_entry_def)

lemma started_after_start:
  assumes "keeps (preserves initial_ok) m" "\<And>a. keeps started (f a)"
  shows "keeps started (bindM m f)"
proof (rule keepsI)
  fix w
  from keepsD[OF assms(1), of w] have m: "initial_ok w \<longrightarrow> initial_ok (snd (m w))"
    by (simp add: preserves_def)
  show "started w (snd (bindM m f w))"
  proof (cases "fst (m w)")
    case (Ret a)
    then have "bindM m f w = f a (snd (m w))" by (intro run_bind) (simp add: prod_eq_iff)
    with keepsD[OF assms(2)[of a], of "snd (m w)"] m show ?thesis by (simp add: started_def)
  qed (use m in \<open>auto simp: bindM_def started_def initial_loop_ok split: prod.splits outcome.splits\<close>)
qed

lemma started_then_step:
  assumes "keeps started m" "\<And>a. keeps loop_step (f a)"
  shows "keeps started (bindM m f)"
proof (rule keepsI)
  fix w
  from keepsD[OF assms(1), of w] have m: "initial_ok w \<longrightarrow> loop_ok (snd (m w))"
    by (simp add: started_def)
  show "started w (snd (bindM m f w))"
  proof (cases "fst (m w)")
    case (Ret a)
    then have "bindM m f w = f a (snd (m w))" by (intro run_bind) (simp add: prod_eq_iff)
    with keepsD[OF assms(2)[of a], of "snd (m w)"] m show ?thesis by (simp add: started_def loop_step_def)
  qed (use m in \<open>auto simp: bindM_def started_def split: prod.splits outcome.splits\<close>)
qed

lemma started_Poller_new: "keeps started (Poller_new E n)"
proof (rule keepsI)
  fix w :: world
  have "interest (hist w @ [(EpollCreate, rc)]) = interest (hist w)"
    "armed (hist w @ [(EpollCreate, rc)]) = armed (hist w)" for rc
    by (intro epoll_other; simp add: poll_call_def)+
  then show "started w (snd (Poller_new E n w))"
    by (auto simp: Poller_new_def bindM_def run_extcall run_basic started_def initial_ok_def loop_ok_def
        poll_inv_def live_def no_entry_def)
qed

lemma initial_global [keeps_intro]:
  "keeps (preserves initial_ok) (nss_global_call E g)" "keeps (preserves initial_ok) (tlsCheck rc)"
proof -
  have "keeps (preserves initial_ok) (extcall E (NssGlobal g))"
    by (auto simp: keeps_def preserves_def run_extcall initial_ok_def epoll_other poll_call_def)
  moreover have "keeps (preserves initial_ok) (PR_SetError e)" for e
    by (auto simp: keeps_def preserves_def PR_SetError_def run_basic initial_ok_def)
  ultimately show "keeps (preserves initial_ok) (nss_global_call E g)"
    unfolding nss_global_call_def by (intro pres.keeps_rules)
  show "keeps (preserves initial_ok) (tlsCheck rc)"
    unfolding tlsCheck_def by (intro pres.keeps_rules)
qed

lemma initial_library [keeps_intro]:
  "keeps (preserves initial_ok) (TLSLibrary_new E dir)" "keeps (preserves initial_ok) (TLSContext_new E srv nn sn)"
  unfolding TLSLibrary_new_def NSPRLibrary_new_def NSSLibrary_new_def TLSLibrary_configure_def
    NSSLibrary_destroy_def NSPRLibrary_destroy_def ignored_global_def checked_global_def TLSContext_new_def
  by (intro pres.keeps_rules keeps_intro keeps_exn_case)+

lemma initial_contexts: "keeps (preserves initial_ok) (main_contexts E s)"
  unfolding main_contexts_def by (intro pres.keeps_rules keeps_intro)

lemma step_global [keeps_intro]: "keeps loop_step (TLSLibrary_destroy E)" "keeps loop_step (destroy_contexts E c c')"
proof -
  have "keeps loop_step (extcall E (NssGlobal g))" for g
    by (auto simp: keeps_def run_extcall loop_step_def loop_ok_def poll_inv_def live_def epoll_other poll_call_def
        hist_grows_def heap_grows_def object_after_def)
  moreover have "keeps loop_step (PR_SetError e)" for e
    by (intro loop_step_method keeps_intro)
  ultimately have g: "keeps loop_step (ignored_global E g)" for g
    unfolding ignored_global_def nss_global_call_def by (intro ls.keeps_rules)
  show "keeps loop_step (TLSLibrary_destroy E)" "keeps loop_step (destroy_contexts E c c')"
    unfolding TLSLibrary_destroy_def NSSLibrary_destroy_def NSPRLibrary_destroy_def destroy_contexts_def
      TLSContext_destroy_def antiReplayCtxDeleter_def by (intro ls.keeps_rules g)+
qed

lemma step_stop: "keeps loop_step Poller_stop"
  by (auto simp: keeps_def Poller_stop_def run_basic loop_step_def loop_ok_def poll_inv_def live_def
      hist_grows_def heap_grows_def object_after_def)

lemma started_main_loop:
  assumes "epoll_wait_ok E"
  shows "keeps started (main_loop E s pc cctx sctx n)"
  unfolding main_loop_def seqM_def
proof (intro started_then_step[OF started_Poller_new])
  show "keeps loop_step (bindM (main_listeners E s pc cctx sctx) (\<lambda>_. bindM (threadFun E (dispatch E) n)
      (\<lambda>running. if running then ret Running
        else bindM Poller_stop (\<lambda>_. bindM (Poller_join E) (\<lambda>_. ret EXIT_SUCCESS)))))"
    by (intro ls.keeps_rules threadFun_step[OF assms] join_step step_stop keeps_intro)
      (intro loop_step_method keeps_intro)
qed

lemma started_pure: "keeps started (ret v)" "keeps started (throw e)" "keeps started (abort x)" "keeps started (liftO o')"
  by (simp_all add: keeps_def started_def run_basic initial_loop_ok)

lemma started_try:
  assumes "keeps started m" "\<And>e. keeps loop_step (h e)"
  shows "keeps started (tryM m h)"
proof (rule keepsI)
  fix w
  from keepsD[OF assms(1), of w] have m: "initial_ok w \<longrightarrow> loop_ok (snd (m w))"
    by (simp add: started_def)
  show "started w (snd (tryM m h w))"
  proof (cases "fst (m w)")
    case (Throw e)
    then have "tryM m h w = h e (snd (m w))" by (intro run_try) (simp add: prod_eq_iff)
    with keepsD[OF assms(2)[of e], of "snd (m w)"] m show ?thesis by (simp add: started_def loop_step_def)
  qed (use m in \<open>auto simp: tryM_def started_def split: prod.splits outcome.splits\<close>)
qed

lemma started_scoped: "keeps started body \<Longrightarrow> keeps loop_step destroy \<Longrightarrow> keeps started (scoped destroy body)"
  unfolding scoped_def seqM_def by (intro started_then_step started_try ls.keeps_rules)

lemma started_main_run: "epoll_wait_ok E \<Longrightarrow> keeps started (main_run E s pc n)"
  unfolding main_run_def
  by (rule started_after_start[OF initial_contexts], clarify)
    (intro started_scoped started_main_loop keeps_intro)

lemma started_with_library: "keeps started body \<Longrightarrow> keeps started (with_library E s body)"
  unfolding with_library_def seqM_def
  by (cases "useTLS s", simp_all) (intro started_after_start started_scoped keeps_intro)

lemma started_main:
  assumes "epoll_wait_ok E"
  shows "keeps started (main E argv n)"
proof (cases "parse_options E argv (initial_settings E)")
  case None
  then show ?thesis by (simp add: main_def started_pure)
next
  case (Some s)
  have "keeps started (tryM (with_library E s' (main_run E s' pc n)) (\<lambda>_. ret EXIT_FAILURE))" for s' pc
    by (intro started_try started_with_library started_main_run assms ls.keeps_rules)
  moreover have "keeps (preserves initial_ok) (liftO (check_settings s))" by (intro pres.keeps_rules)
  ultimately show ?thesis
    using Some by (auto simp: main_def intro!: started_after_start started_pure split: option.split)
qed

end
