(* ===== verification/Relay.thy ===== *)
theory Relay
  imports StreamReactor
begin

text \<open>
  What a stream reactor does to the bytes that pass through it. From a piece of call history,
  \<open>data_in s\<close> collects the bytes that socket \<open>s\<close> has delivered and \<open>data_out d\<close> the bytes that
  socket \<open>d\<close> has accepted (plain data: with TLS these are the bytes that \<open>PR_Read\<close> and \<open>PR_Write\<close>
  moved). The relation \<open>relayed r\<close> says that nothing is lost, duplicated or reordered between the
  two: what was in the buffer of \<open>r\<close> followed by what came in is what went out followed by what is
  now in the buffer. It is a preorder, so it holds for any sequence of steps that keep it.
\<close>

section \<open>Data in a call history\<close>

definition data_call :: "call \<Rightarrow> bool" where
  "data_call c \<longleftrightarrow> (case c of Recv _ _ \<Rightarrow> True | Send _ _ \<Rightarrow> True | SendToTFO _ _ _ \<Rightarrow> True
     | PR_Read _ _ \<Rightarrow> True | PR_Write _ _ \<Rightarrow> True | _ \<Rightarrow> False)"

definition in_of :: "socket \<Rightarrow> call \<times> cret \<Rightarrow> byte list" where
  "in_of s e = (case fst e of
       Recv fd _ \<Rightarrow> if sk_tls s = None \<and> fd = sk_fd s \<and> 0 \<le> c_rc (snd e) then c_data (snd e) else []
     | PR_Read t _ \<Rightarrow> if sk_tls s = Some t \<and> 0 \<le> c_rc (snd e) then c_data (snd e) else []
     | _ \<Rightarrow> [])"

definition out_of :: "socket \<Rightarrow> call \<times> cret \<Rightarrow> byte list" where
  "out_of d e = (case fst e of
       Send fd xs \<Rightarrow> if sk_tls d = None \<and> fd = sk_fd d then take (nat (c_rc (snd e))) xs else []
     | SendToTFO fd xs _ \<Rightarrow> if sk_tls d = None \<and> fd = sk_fd d then take (nat (c_rc (snd e))) xs else []
     | PR_Write t xs \<Rightarrow> if sk_tls d = Some t then take (nat (c_rc (snd e))) xs else []
     | _ \<Rightarrow> [])"

definition data_in :: "socket \<Rightarrow> history \<Rightarrow> byte list" where
  "data_in s h = concat (map (in_of s) h)"

definition data_out :: "socket \<Rightarrow> history \<Rightarrow> byte list" where
  "data_out d h = concat (map (out_of d) h)"

definition data_free :: "history \<Rightarrow> bool" where
  "data_free h \<longleftrightarrow> (\<forall>e \<in> set h. \<not> data_call (fst e))"

lemma data_append [simp]:
  "data_in s (h @ k) = data_in s h @ data_in s k" "data_out d (h @ k) = data_out d h @ data_out d k"
  by (simp_all add: data_in_def data_out_def)

lemma data_nil [simp]: "data_in s [] = []" "data_out d [] = []" "data_free []"
  by (simp_all add: data_in_def data_out_def data_free_def)

lemma data_free_append [simp]: "data_free (h @ k) \<longleftrightarrow> data_free h \<and> data_free k"
  by (auto simp: data_free_def)

lemma data_free_single [simp]: "data_free [(c, r)] \<longleftrightarrow> \<not> data_call c"
  by (simp add: data_free_def)

lemma data_free_no_data: "data_free h \<Longrightarrow> data_in s h = [] \<and> data_out d h = []"
  by (auto simp: data_free_def data_in_def data_out_def data_call_def in_of_def out_of_def
      split: call.splits)

lemma data_call_simps [simp]:
  "\<not> data_call (CloseFD fd)" "\<not> data_call (ShutdownFD fd how)" "\<not> data_call (EpollCtl epo fd ev)"
  "\<not> data_call (NssRecv fd n)" "\<not> data_call (NssSend fd xs)" "\<not> data_call (GetSockName fd)"
  "\<not> data_call (GetPeerName fd)" "\<not> data_call (SSL_ForceHandshake t)"
  "\<not> data_call (SSL_GetChannelInfo t)" "\<not> data_call (SSL_Disable0RTT t)" "\<not> data_call (Connect fd a)"
  "\<not> data_call (SetSockOpt fd opt i)" "\<not> data_call (GetSockError fd)" "\<not> data_call (DupFD fd)"
  "\<not> data_call (SocketFD fam)" "\<not> data_call (HasMPTCP fd)" "\<not> data_call (Accept4 fd)"
  by (simp_all add: data_call_def)

section \<open>Steps that move no data\<close>

text \<open>A member socket changes only by being closed, which leaves -1 in its descriptor.\<close>

definition sock_after :: "socket \<Rightarrow> socket \<Rightarrow> bool" where
  "sock_after s s' \<longleftrightarrow> s' = s \<or> s' = s\<lparr>sk_fd := -1\<rparr>"

lemma sock_after_refl [simp]: "sock_after s s"
  by (simp add: sock_after_def)

lemma sock_after_closed [simp]: "sock_after s (s\<lparr>sk_fd := -1\<rparr>)"
  by (simp add: sock_after_def)

lemma sock_after_trans: "sock_after a b \<Longrightarrow> sock_after b c \<Longrightarrow> sock_after a c"
  by (auto simp: sock_after_def)

definition quiet :: "rid \<Rightarrow> world \<Rightarrow> world \<Rightarrow> bool" where
  "quiet r w w' \<longleftrightarrow> (\<exists>h. hist w' = hist w @ h \<and> data_free h) \<and>
     (\<forall>x. reactors w r = Some x \<longrightarrow> (\<exists>x'. reactors w' r = Some x' \<and> buf x' = buf x \<and>
        streamState x' = streamState x \<and>
        sock_after (srcSock x) (srcSock x') \<and> sock_after (dstSock x) (dstSock x')))"

interpretation quiet: world_preorder "quiet r"
proof unfold_locales
  fix u v w assume "quiet r u v" "quiet r v w"
  then show "quiet r u w"
    unfolding quiet_def by (force intro: sock_after_trans)
qed (auto simp: quiet_def)

lemma keeps_quiet_extcall [keeps_intro]: "\<not> data_call c \<Longrightarrow> keeps (quiet r) (extcall E c)"
  by (auto simp: keeps_def quiet_def exec_simps)

lemma keeps_quiet_modR [keeps_intro]:
  "(\<And>x. buf (f x) = buf x \<and> streamState (f x) = streamState x \<and>
        sock_after (srcSock x) (srcSock (f x)) \<and> sock_after (dstSock x) (dstSock (f x))) \<Longrightarrow> keeps (quiet r) (modR r' f)"
  by (auto simp: keeps_def quiet_def modR_def split: option.splits)

lemma keeps_quiet_basic [keeps_intro]:
  "keeps (quiet r) (getR r')" "keeps (quiet r) (set_entry n e)" "keeps (quiet r) (entry_at fd)"
  "keeps (quiet r) (getT t)" "keeps (quiet r) (modT t g)" "keeps (quiet r) (PR_SetError pe)"
  "keeps (quiet r) (set_blockDirection bd)"
  by (auto simp: keeps_def quiet_def getR_def set_entry_def entry_at_def exec_simps getT_def
      modT_def PR_SetError_def set_blockDirection_def split: option.splits)

lemma keeps_quiet_uniqfd [keeps_intro]:
  "keeps (quiet r) (UniqRecvFD_reset E fd)" "keeps (quiet r) (UniqSendFD_reset E fd)"
  unfolding uniqfd_defs by (intro quiet.keeps_rules keeps_intro data_call_simps)+

lemma keeps_quiet_poller [keeps_intro]:
  "keeps (quiet r) (Poller_add E r' fd ev)" "keeps (quiet r) (Poller_remove E fd force)"
  unfolding Poller_add_def Poller_remove_def runIfActive_def isActive_def Let_def
  by (intro quiet.keeps_rules keeps_intro data_call_simps)+

lemma reset_result:
  "UniqRecvFD_reset E fd w = (Ret fd', w') \<Longrightarrow> fd' = -1"
  "UniqSendFD_reset E fd w = (Ret fd', w') \<Longrightarrow> fd' = -1"
  by (auto simp: UniqRecvFD_reset_def UniqSendFD_reset_def bindM_def run_basic run_extcall
      split: if_splits)

lemma keeps_quiet_reset [keeps_intro]:
  "keeps (quiet r) (reset_srcSock E r')" "keeps (quiet r) (reset_dstSock E r')"
  unfolding reset_srcSock_def reset_dstSock_def
  by (rule quiet.keeps_bind keeps_intro quiet.keeps_bind_result[where P = "\<lambda>n. n = -1"] | erule reset_result | simp)+

lemma keeps_quiet_close [keeps_intro]:
  "keeps (quiet r) (close_srcSock E r')" "keeps (quiet r) (close_dstSock E r')"
  unfolding close_srcSock_def close_dstSock_def by (intro quiet.keeps_rules keeps_intro)+

lemma keeps_quiet_deactivates [keeps_intro]:
  "keeps (quiet r) (Reactor_deactivate r')" "keeps (quiet r) (ListenReactor_deactivate E r')"
  "keeps (quiet r) (StickReactor_deactivate E r')" "keeps (quiet r) (StreamReactor_deactivate E r')"
  "keeps (quiet r) (TimeoutReactor_deactivate E r')" "keeps (quiet r) (AuthServer_deactivate E r' u)"
  unfolding deactivate_defs by (intro quiet.keeps_rules keeps_intro; simp)+

lemma keeps_quiet_deactivate [keeps_intro]: "keeps (quiet r) (deactivate E r')"
  unfolding deactivate_def
  by (intro quiet.keeps_rules keeps_intro) (auto split: rclass.split intro: keeps_intro)

section \<open>The layer below NSS\<close>

text \<open>
  What the callbacks of an NSS call may do: they leave the reactors and the poller alone and move
  no plain data.
\<close>

definition below_nss :: "world \<Rightarrow> world \<Rightarrow> bool" where
  "below_nss w w' \<longleftrightarrow> reactors w' = reactors w \<and> nextRid w' = nextRid w \<and>
     fdEntries w' = fdEntries w \<and> fdCount w' = fdCount w \<and>
     (\<exists>h. hist w' = hist w @ h \<and> data_free h)"

interpretation low: world_preorder below_nss
  by unfold_locales (auto simp: below_nss_def)

lemma below_nss_quiet: "keeps below_nss m \<Longrightarrow> keeps (quiet r) m"
  by (auto simp: keeps_def below_nss_def quiet_def)

lemma keeps_low_basic [keeps_intro]:
  "\<not> data_call c \<Longrightarrow> keeps below_nss (extcall E c)" "keeps below_nss (getR r)"
  "keeps below_nss (getT t)" "keeps below_nss (modT t g)" "keeps below_nss (PR_SetError pe)"
  "keeps below_nss (set_blockDirection bd)"
  by (auto simp: keeps_def below_nss_def exec_simps getR_def getT_def modT_def PR_SetError_def
      set_blockDirection_def split: option.splits)

lemma keeps_low_mapError [keeps_intro]:
  "keeps below_nss (mapError e)" "keeps below_nss (mapError_override ov e)"
  unfolding mapError_override_def mapError_def by (intro low.keeps_rules keeps_intro)+

lemma keeps_low_layer [keeps_intro]:
  "keeps below_nss (dRecv E t n)" "keeps below_nss (dSend E t xs)"
  "keeps below_nss (dGetName E t)" "keeps below_nss (dGetPeerName E t)"
  "keeps below_nss (dRead E t n)" "keeps below_nss (dWrite E t xs)" "keeps below_nss invalidFn"
  unfolding tls_layer_defs
  by (intro low.keeps_rules keeps_intro data_call_simps)+

lemma keeps_low_METHODS [keeps_intro]: "keeps below_nss (METHODS E t c)"
  unfolding METHODS_def by (cases c) (auto intro!: low.keeps_rules keeps_intro)

lemma keeps_low_callbacks [keeps_intro]: "keeps below_nss (run_callbacks E t cs)"
  by (induction cs) (auto intro!: low.keeps_rules keeps_intro)

lemma keeps_low_tlsHandleErr [keeps_intro]: "keeps below_nss (tlsHandleErr fd)"
  unfolding tlsHandleErr_def by (intro low.keeps_rules keeps_intro)

text \<open>An NSS call is the callbacks, which may fail, and then the call itself.\<close>

lemma nss_cases:
  assumes "nss E t c w = (res, w')"
  obtains (fault) "\<And>a. res \<noteq> Ret a" "below_nss w w'"
  | (finished) v where "below_nss w v" "res = Ret (os E (hist v) c)" "reactors w' = reactors w"
      "fdEntries w' = fdEntries w" "fdCount w' = fdCount w" "nextRid w' = nextRid w"
      "hist w' = hist v @ [(c, os E (hist v) c)]"
proof -
  obtain cb v where run: "run_callbacks E t (nssCallbacks E (hist w) c) w = (cb, v)"
    by fastforce
  with keepsD[OF keeps_low_callbacks, of w] have v: "below_nss w v"
    by (metis snd_conv)
  show thesis
  proof (cases cb)
    case (Ret u)
    with run assms v show thesis
      by (intro finished[of v])
        (auto simp: nss_def bindM_def seqM_def run_basic run_extcall PR_SetError_def below_nss_def
          split: if_splits)
  qed (use run assms v in \<open>auto intro!: fault simp: nss_def bindM_def seqM_def run_basic\<close>)
qed

section \<open>Reading and writing\<close>

text \<open>
  The law of a read on socket \<open>s\<close> into the buffer of \<open>r\<close>: the bytes delivered are appended to the
  buffer, their number is returned, and an exception delivers nothing. The law of a write:
  the bytes accepted are the front of the buffer and leave it.
\<close>

definition read_law :: "socket \<Rightarrow> rid \<Rightarrow> int M \<Rightarrow> bool" where
  "read_law s r m \<longleftrightarrow> (\<forall>w x res w'. reactors w r = Some x \<and> sb_ok (buf x) \<and> m w = (res, w') \<longrightarrow>
     (\<exists>b h. hist w' = hist w @ h \<and> reactors w' = (reactors w)(r \<mapsto> x\<lparr>buf := b\<rparr>) \<and> sb_ok b \<and>
        contents b = contents (buf x) @ data_in s h \<and> (\<forall>d. data_out d h = []) \<and>
        (case res of Ret n \<Rightarrow> n = int (length (data_in s h)) | _ \<Rightarrow> data_in s h = [])))"

definition write_law :: "socket \<Rightarrow> rid \<Rightarrow> int M \<Rightarrow> bool" where
  "write_law d r m \<longleftrightarrow> (\<forall>w x res w'. reactors w r = Some x \<and> sb_ok (buf x) \<and> m w = (res, w') \<longrightarrow>
     (\<exists>b h. hist w' = hist w @ h \<and> reactors w' = (reactors w)(r \<mapsto> x\<lparr>buf := b\<rparr>) \<and> sb_ok b \<and>
        contents (buf x) = data_out d h @ contents b \<and> (\<forall>s. data_in s h = []) \<and>
        (case res of Ret n \<Rightarrow> n = int (length (data_out d h)) | _ \<Rightarrow> data_out d h = [])))"

lemma buf_receive_run:
  assumes "reactors w r = Some x" "sb_ok (buf x)" "length xs \<le> unat (availSize (buf x))"
  shows "buf_receive r xs (int (length xs)) w =
    (Ret (), w\<lparr>reactors := (reactors w)(r \<mapsto> x\<lparr>buf := store xs (buf x)\<rparr>)\<rparr>)"
  using assms
  by (simp add: buf_receive_def bindM_def run_basic run_getR getTail_store_Ret modBuf_def run_modR
      store_def)

lemma buffered_run:
  assumes "reactors w r = Some x" "sb_ok (buf x)"
  shows "buffered r w = (Ret (contents (buf x)), w)"
  using assms sb_ok_unat[OF assms(2)] unat_usedSize[OF assms(2)]
  by (simp add: buffered_def bindM_def run_basic run_getR getHead_def contents_def)

lemma unuse_run:
  assumes "reactors w r = Some x" "sb_ok (buf x)" "0 \<le> n" "n \<le> int (length (contents (buf x)))"
  shows "modBuf r (unuse (word_of_int n)) w =
      (Ret (), w\<lparr>reactors := (reactors w)(r \<mapsto> x\<lparr>buf := leave_bytes (nat n) (buf x)\<rparr>)\<rparr>)"
    "sb_ok (leave_bytes (nat n) (buf x))"
    "contents (leave_bytes (nat n) (buf x)) = drop (nat n) (contents (buf x))"
proof -
  have "word_of_int n = (of_nat (nat n) :: size_t)"
    using assms(3) by (metis int_nat_eq of_int_of_nat_eq)
  with assms(1) show "modBuf r (unuse (word_of_int n)) w =
      (Ret (), w\<lparr>reactors := (reactors w)(r \<mapsto> x\<lparr>buf := leave_bytes (nat n) (buf x)\<rparr>)\<rparr>)"
    by (simp add: modBuf_def run_modR leave_bytes_def)
  show "sb_ok (leave_bytes (nat n) (buf x))"
    "contents (leave_bytes (nat n) (buf x)) = drop (nat n) (contents (buf x))"
    using assms(2-4) by (auto intro!: sb.invar_leave sb.bytes_leave)
qed

text \<open>A step that moves no data satisfies both laws with nothing transferred.\<close>

lemma below_nssD:
  assumes "below_nss w w'"
  obtains h where "hist w' = hist w @ h" "data_free h" "reactors w' = reactors w"
  using assms by (auto simp: below_nss_def)

lemma in_of_call:
  "in_of s (Recv fd n, rc) = (if sk_tls s = None \<and> fd = sk_fd s \<and> 0 \<le> c_rc rc then c_data rc else [])"
  "in_of s (PR_Read t n, rc) = (if sk_tls s = Some t \<and> 0 \<le> c_rc rc then c_data rc else [])"
  "in_of s (Send fd xs, rc) = []" "in_of s (PR_Write t xs, rc) = []"
  "out_of d (Recv fd n, rc) = []" "out_of d (PR_Read t n, rc) = []"
  "out_of d (Send fd xs, rc) = (if sk_tls d = None \<and> fd = sk_fd d then take (nat (c_rc rc)) xs else [])"
  "out_of d (PR_Write t xs, rc) = (if sk_tls d = Some t then take (nat (c_rc rc)) xs else [])"
  by (simp_all add: in_of_def out_of_def)

lemma data_single [simp]: "data_in s [e] = in_of s e" "data_out d [e] = out_of d e"
  by (simp_all add: data_in_def data_out_def)

lemma io_okD:
  assumes "io_ok E"
  shows "0 \<le> c_rc (os E h (Recv fd n)) \<Longrightarrow> 0 \<le> fd \<and> nat (c_rc (os E h (Recv fd n))) \<le> n \<and>
      length (c_data (os E h (Recv fd n))) = nat (c_rc (os E h (Recv fd n)))"
    "0 \<le> c_rc (os E h (PR_Read t n)) \<Longrightarrow> nat (c_rc (os E h (PR_Read t n))) \<le> n \<and>
      length (c_data (os E h (PR_Read t n))) = nat (c_rc (os E h (PR_Read t n)))"
    "0 \<le> c_rc (os E h (Send fd xs)) \<Longrightarrow> 0 \<le> fd \<and> c_rc (os E h (Send fd xs)) \<le> int (length xs)"
    "0 \<le> c_rc (os E h (SendToTFO fd xs a)) \<Longrightarrow> 0 \<le> fd \<and> c_rc (os E h (SendToTFO fd xs a)) \<le> int (length xs)"
    "0 \<le> c_rc (os E h (PR_Write t xs)) \<Longrightarrow> c_rc (os E h (PR_Write t xs)) \<le> int (length xs)"
proof -
  have r: "recv_ok c (os E h c)" and s: "send_ok c (os E h c)" for c h
    using assms by (simp_all add: io_ok_def)
  show "0 \<le> c_rc (os E h (Recv fd n)) \<Longrightarrow> 0 \<le> fd \<and> nat (c_rc (os E h (Recv fd n))) \<le> n \<and>
      length (c_data (os E h (Recv fd n))) = nat (c_rc (os E h (Recv fd n)))"
    using r[of "Recv fd n" h] by (simp add: recv_ok_def)
  show "0 \<le> c_rc (os E h (PR_Read t n)) \<Longrightarrow> nat (c_rc (os E h (PR_Read t n))) \<le> n \<and>
      length (c_data (os E h (PR_Read t n))) = nat (c_rc (os E h (PR_Read t n)))"
    using r[of "PR_Read t n" h] by (simp add: recv_ok_def)
  show "0 \<le> c_rc (os E h (Send fd xs)) \<Longrightarrow> 0 \<le> fd \<and> c_rc (os E h (Send fd xs)) \<le> int (length xs)"
    using s[of "Send fd xs" h] by (simp add: send_ok_def)
  show "0 \<le> c_rc (os E h (SendToTFO fd xs a)) \<Longrightarrow> 0 \<le> fd \<and> c_rc (os E h (SendToTFO fd xs a)) \<le> int (length xs)"
    using s[of "SendToTFO fd xs a" h] by (simp add: send_ok_def)
  show "0 \<le> c_rc (os E h (PR_Write t xs)) \<Longrightarrow> c_rc (os E h (PR_Write t xs)) \<le> int (length xs)"
    using s[of "PR_Write t xs" h] by (simp add: send_ok_def)
qed

text \<open>A socket that may meanwhile have been closed reads and writes for the original one.\<close>

lemma tcpRecv_law:
  assumes "io_ok E" "sk_tls s = None" "sock_after s s'"
  shows "read_law s r (tcpRecv E s' r)"
  unfolding read_law_def
proof (intro allI impI, elim conjE)
  fix w x res w'
  assume x: "reactors w r = Some x" "sb_ok (buf x)" and run: "tcpRecv E s' r w = (res, w')"
  let ?c = "Recv (sk_fd s') (unat (availSize (buf x)))"
  let ?rc = "os E (hist w) ?c"
  let ?w1 = "w\<lparr>hist := hist w @ [(?c, ?rc)]\<rparr>"
  note io = io_okD(1)[OF assms(1), of "hist w" "sk_fd s'" "unat (availSize (buf x))"]
  show "\<exists>b h. hist w' = hist w @ h \<and> reactors w' = (reactors w)(r \<mapsto> x\<lparr>buf := b\<rparr>) \<and> sb_ok b \<and>
        contents b = contents (buf x) @ data_in s h \<and> (\<forall>d. data_out d h = []) \<and>
        (case res of Ret n \<Rightarrow> n = int (length (data_in s h)) | _ \<Rightarrow> data_in s h = [])"
  proof (cases "c_rc ?rc < 0")
    case True
    with run x have "w' = ?w1" "(\<forall>n. res = Ret n \<longrightarrow> n = 0)"
      by (auto simp: tcpRecv_def bindM_def run_basic run_getR run_extcall split: if_splits)
    with x True show ?thesis
      by (intro exI[of _ "buf x"] exI[of _ "[(?c, ?rc)]"])
        (auto simp: in_of_call fun_upd_idem split: outcome.splits)
  next
    case False
    then have l: "length (c_data ?rc) \<le> unat (availSize (buf x))" "c_rc ?rc = int (length (c_data ?rc))"
      and s: "sk_fd s' = sk_fd s"
      using io assms(3) by (auto simp: sock_after_def)
    have "buf_receive r (c_data ?rc) (c_rc ?rc) ?w1 =
        (Ret (), ?w1\<lparr>reactors := (reactors w)(r \<mapsto> x\<lparr>buf := store (c_data ?rc) (buf x)\<rparr>)\<rparr>)"
      using buf_receive_run[of ?w1 r x "c_data ?rc"] x l by simp
    with run x False have "res = Ret (c_rc ?rc)"
      "w' = ?w1\<lparr>reactors := (reactors w)(r \<mapsto> x\<lparr>buf := store (c_data ?rc) (buf x)\<rparr>)\<rparr>"
      by (auto simp: tcpRecv_def bindM_def seqM_def run_basic run_getR run_extcall)
    with x False l s assms(2) store_ok[OF x(2) l(1)] show ?thesis
      by (intro exI[of _ "store (c_data ?rc) (buf x)"] exI[of _ "[(?c, ?rc)]"])
        (auto simp: in_of_call)
  qed
qed

lemma tcpSend_eq:
  assumes "reactors w r = Some x" "sb_ok (buf x)"
  shows "tcpSend E d r w =
     (let c = Send (sk_fd d) (contents (buf x)); rc = os E (hist w) c;
          w1 = w\<lparr>hist := hist w @ [(c, rc)]\<rparr>
      in if c_rc rc < 0
         then (if c_errno rc = EAGAIN then Throw (RescheduleException (sk_fd d) OUT_EVENTS)
               else if c_errno rc = EPIPE then Ret 0 else Throw (SystemError (c_errno rc)), w1)
         else seqM (modBuf r (unuse (word_of_int (c_rc rc)))) (ret (c_rc rc)) w1)"
  by (simp add: tcpSend_def bindM_def run_basic buffered_run[OF assms] run_extcall Let_def)

lemma tcpSend_law:
  assumes "io_ok E" "sk_tls d = None" "sock_after d d'"
  shows "write_law d r (tcpSend E d' r)"
  unfolding write_law_def
proof (intro allI impI, elim conjE)
  fix w x res w'
  assume x: "reactors w r = Some x" "sb_ok (buf x)" and run: "tcpSend E d' r w = (res, w')"
  let ?c = "Send (sk_fd d') (contents (buf x))"
  let ?rc = "os E (hist w) ?c"
  let ?w1 = "w\<lparr>hist := hist w @ [(?c, ?rc)]\<rparr>"
  note io = io_okD(3)[OF assms(1), of "hist w" "sk_fd d'" "contents (buf x)"]
  show "\<exists>b h. hist w' = hist w @ h \<and> reactors w' = (reactors w)(r \<mapsto> x\<lparr>buf := b\<rparr>) \<and> sb_ok b \<and>
        contents (buf x) = data_out d h @ contents b \<and> (\<forall>s. data_in s h = []) \<and>
        (case res of Ret n \<Rightarrow> n = int (length (data_out d h)) | _ \<Rightarrow> data_out d h = [])"
  proof (cases "c_rc ?rc < 0")
    case True
    with run have "w' = ?w1" "(\<forall>n. res = Ret n \<longrightarrow> n = 0)"
      by (auto simp: tcpSend_eq[OF x] Let_def split: if_splits)
    moreover have "data_out d [(?c, ?rc)] = []" "data_in s [(?c, ?rc)] = []" for s
      using True by (auto simp: in_of_call)
    moreover have "reactors w = (reactors w)(r \<mapsto> x\<lparr>buf := buf x\<rparr>)"
      using x(1) by (simp add: fun_upd_idem)
    ultimately show ?thesis
      using x(2) by (intro exI[of _ "buf x"] exI[of _ "[(?c, ?rc)]"]) (simp split: outcome.split)
  next
    case False
    with io assms(3) have n: "0 \<le> c_rc ?rc" "c_rc ?rc \<le> int (length (contents (buf x)))"
      and s: "sk_fd d' = sk_fd d"
      by (auto simp: sock_after_def)
    have x1: "reactors ?w1 r = Some x" using x(1) by simp
    note un = unuse_run[OF x1 x(2) n]
    have eq: "res = Ret (c_rc ?rc) \<and>
        w' = ?w1\<lparr>reactors := (reactors ?w1)(r \<mapsto> x\<lparr>buf := leave_bytes (nat (c_rc ?rc)) (buf x)\<rparr>)\<rparr>"
      using run x False un(1)
      by (simp add: tcpSend_eq[OF x] Let_def run_seq run_basic)
    have out: "data_out d [(?c, ?rc)] = take (nat (c_rc ?rc)) (contents (buf x))"
      using s assms(2) by (simp add: in_of_call)
    show ?thesis
    proof (intro exI[of _ "leave_bytes (nat (c_rc ?rc)) (buf x)"] exI[of _ "[(?c, ?rc)]"] conjI)
      show "contents (buf x) = data_out d [(?c, ?rc)] @ contents (leave_bytes (nat (c_rc ?rc)) (buf x))"
        unfolding out un(3) by simp
    qed (use eq n un(2) out in \<open>auto simp: in_of_call\<close>)
  qed
qed

text \<open>How the TLS methods treat a failed NSS call: no state changes until the error is classified.\<close>

lemma tlsHandleErr_cases:
  obtains "tlsHandleErr fd w = (Ret (), w)" | e where "tlsHandleErr fd w = (Throw e, w)"
  by (cases "prError w = PR_END_OF_FILE_ERROR";
      cases "prError w = PR_WOULD_BLOCK_ERROR \<or> prError w = PR_IN_PROGRESS_ERROR";
      cases "blockDirection w = BD_IN")
    (auto simp: tlsHandleErr_def bindM_def run_basic)

lemma getT_cases:
  obtains y where "getT t w = (Ret y, w)" | "getT t w = (Abort DanglingReference, w)"
  by (cases "tlsObjs w t") (auto simp: getT_def)

lemma tls_failed:
  obtains "bindM (getT t) (\<lambda>x. seqM (tlsHandleErr (g x)) m) w = m w"
  | e where "bindM (getT t) (\<lambda>x. seqM (tlsHandleErr (g x)) m) w = (Throw e, w)"
  | "bindM (getT t) (\<lambda>x. seqM (tlsHandleErr (g x)) m) w = (Abort DanglingReference, w)"
proof (cases rule: getT_cases[of t w])
  case (1 y)
  then show ?thesis
    using that by (cases rule: tlsHandleErr_cases[of "g y" w]) (auto simp: run_bind run_seq)
next
  case 2
  then show ?thesis using that by (auto simp: run_bind)
qed

lemma nothing_read:
  assumes "reactors w r = Some x" "sb_ok (buf x)" "hist w' = hist w @ h" "reactors w' = reactors w"
    "data_in s h = []" "\<And>d. data_out d h = []" "\<And>n. res = Ret n \<Longrightarrow> n = 0"
  shows "\<exists>b h. hist w' = hist w @ h \<and> reactors w' = (reactors w)(r \<mapsto> x\<lparr>buf := b\<rparr>) \<and> sb_ok b \<and>
        contents b = contents (buf x) @ data_in s h \<and> (\<forall>d. data_out d h = []) \<and>
        (case res of Ret n \<Rightarrow> n = int (length (data_in s h)) | _ \<Rightarrow> data_in s h = [])"
  using assms by (intro exI[of _ "buf x"] exI[of _ h]) (auto simp: fun_upd_idem split: outcome.split)

text \<open>
  A call of NSS that comes to its end appears in the history behind calls that carry no data of the
  program; one that does not leaves only such calls.
\<close>

lemma nss_answer:
  assumes "nss E t c w = (res, w')"
  obtains (fault) h where "\<And>a. res \<noteq> Ret a" "hist w' = hist w @ h" "data_free h" "reactors w' = reactors w"
  | (finished) h rc where "rc = os E (hist w @ h) c" "res = Ret rc" "hist w' = hist w @ h @ [(c, rc)]" "data_free h"
      "reactors w' = reactors w"
  using assms
proof (cases rule: nss_cases)
  case fault
  from fault(2) obtain h where "hist w' = hist w @ h" "data_free h" "reactors w' = reactors w" by (rule below_nssD)
  with fault(1) show thesis by (rule that(1))
next
  case (finished v)
  from finished(1) obtain h where "hist v = hist w @ h" "data_free h" by (rule below_nssD)
  with finished show thesis by (intro that(2)) auto
qed

lemma tlsRead_step:
  assumes "reactors w r = Some x" "nss E t (PR_Read t (unat (availSize (buf x)))) w = (nr, w1)"
  shows "tlsRead E t r w = (case nr of
       Ret rc \<Rightarrow> (if c_rc rc < 0
          then bindM (getT t) (\<lambda>x. seqM (tlsHandleErr (readFD x)) (seqM (buf_receive r [] 0) (ret 0))) w1
          else seqM (buf_receive r (c_data rc) (c_rc rc)) (ret (c_rc rc)) w1)
     | Throw e \<Rightarrow> (Throw e, w1) | Abort e \<Rightarrow> (Abort e, w1))"
  using assms by (simp add: tlsRead_def bindM_def[of "getR r"] bindM_def[of "nss E t c" for c]
      run_getR split: outcome.splits)

text \<open>An error of NSS: nothing was read, or the stream has ended.\<close>

lemma tlsRead_failed:
  assumes "reactors w r = Some x" "sb_ok (buf x)"
    "bindM (getT t) (\<lambda>x. seqM (tlsHandleErr (readFD x)) (seqM (buf_receive r [] 0) (ret (0 :: int)))) w = (res, w')"
  obtains (threw) "w' = w" "\<And>n. res \<noteq> Ret n" "res \<noteq> Abort OutOfBounds"
  | (eof) "res = Ret 0" "w' = w\<lparr>reactors := (reactors w)(r \<mapsto> x\<lparr>buf := store [] (buf x)\<rparr>)\<rparr>"
proof -
  have "buf_receive r [] 0 w = (Ret (), w\<lparr>reactors := (reactors w)(r \<mapsto> x\<lparr>buf := store [] (buf x)\<rparr>)\<rparr>)"
    using buf_receive_run[OF assms(1,2), of "[]"] by simp
  with assms(3) that show thesis
    by (cases rule: tls_failed[of t readFD "seqM (buf_receive r [] 0) (ret (0::int))" w])
      (auto simp: run_seq run_basic)
qed

lemma tlsRead_law:
  assumes "io_ok E" "sk_tls s = Some t"
  shows "read_law s r (tlsRead E t r)"
  unfolding read_law_def
proof (intro allI impI, elim conjE)
  fix w x res w'
  assume x: "reactors w r = Some x" "sb_ok (buf x)" and run: "tlsRead E t r w = (res, w')"
  let ?c = "PR_Read t (unat (availSize (buf x)))"
  obtain nr w1 where nr: "nss E t ?c w = (nr, w1)" by fastforce
  note step = tlsRead_step[OF x(1) nr] run
  from nr show "\<exists>b h. hist w' = hist w @ h \<and> reactors w' = (reactors w)(r \<mapsto> x\<lparr>buf := b\<rparr>) \<and> sb_ok b \<and>
        contents b = contents (buf x) @ data_in s h \<and> (\<forall>d. data_out d h = []) \<and>
        (case res of Ret n \<Rightarrow> n = int (length (data_in s h)) | _ \<Rightarrow> data_in s h = [])"
  proof (cases rule: nss_answer)
    case (fault h)
    then have "w' = w1" "\<And>n. res \<noteq> Ret n" using step by (auto split: outcome.splits)
    with fault data_free_no_data[OF fault(3)] show ?thesis by (intro nothing_read[OF x, of w' h]) auto
  next
    case (finished h rc)
    have r1: "reactors w1 r = Some x" using finished x by simp
    note none = data_free_no_data[OF finished(4)]
    show ?thesis
    proof (cases "c_rc rc < 0")
      case True
      have "bindM (getT t) (\<lambda>x. seqM (tlsHandleErr (readFD x)) (seqM (buf_receive r [] 0) (ret 0))) w1 = (res, w')"
        using step finished(2) True by simp
      with r1 x(2) show ?thesis
      proof (cases rule: tlsRead_failed)
        case threw
        with finished True none show ?thesis
          by (intro nothing_read[OF x, of w' "h @ [(?c, rc)]"]) (auto simp: in_of_call)
      next
        case eof
        with finished True none store_ok[OF x(2), of "[]"] show ?thesis
          by (intro exI[of _ "store [] (buf x)"] exI[of _ "h @ [(?c, rc)]"]) (auto simp: in_of_call)
      qed
    next
      case False
      then have l: "length (c_data rc) \<le> unat (availSize (buf x))" "c_rc rc = int (length (c_data rc))"
        using io_okD(2)[OF assms(1), of "hist w @ h" t "unat (availSize (buf x))"] finished(1) by auto
      have "buf_receive r (c_data rc) (c_rc rc) w1 =
          (Ret (), w1\<lparr>reactors := (reactors w1)(r \<mapsto> x\<lparr>buf := store (c_data rc) (buf x)\<rparr>)\<rparr>)"
        using buf_receive_run[OF r1 x(2) l(1)] l(2) by simp
      with step finished(2) False
      have "res = Ret (c_rc rc)" "w' = w1\<lparr>reactors := (reactors w1)(r \<mapsto> x\<lparr>buf := store (c_data rc) (buf x)\<rparr>)\<rparr>"
        by (auto simp: run_seq run_basic)
      with finished l assms(2) False none store_ok[OF x(2) l(1)] show ?thesis
        by (intro exI[of _ "store (c_data rc) (buf x)"] exI[of _ "h @ [(?c, rc)]"]) (auto simp: in_of_call)
    qed
  qed
qed

lemma nothing_written:
  assumes "reactors w r = Some x" "sb_ok (buf x)" "hist w' = hist w @ h" "reactors w' = reactors w"
    "data_out d h = []" "\<And>s. data_in s h = []" "\<And>n. res = Ret n \<Longrightarrow> n = 0"
  shows "\<exists>b h. hist w' = hist w @ h \<and> reactors w' = (reactors w)(r \<mapsto> x\<lparr>buf := b\<rparr>) \<and> sb_ok b \<and>
        contents (buf x) = data_out d h @ contents b \<and> (\<forall>s. data_in s h = []) \<and>
        (case res of Ret n \<Rightarrow> n = int (length (data_out d h)) | _ \<Rightarrow> data_out d h = [])"
  using assms by (intro exI[of _ "buf x"] exI[of _ h]) (auto simp: fun_upd_idem split: outcome.split)

text \<open>The bytes that NSS reports as written leave the buffer.\<close>

lemma wrote:
  assumes x: "reactors w1 r = Some x" "sb_ok (buf x)" "sk_tls d = Some t" and h: "data_free h"
    and n: "0 \<le> n" "n \<le> int (length (contents (buf x)))" "nat n = nat (c_rc rc)"
    and run: "seqM (modBuf r (unuse (word_of_int n))) (ret n) w1 = (res, w')"
    and w1: "hist w1 = hist w @ h @ [(PR_Write t (contents (buf x)), rc)]" "reactors w1 = reactors w"
  shows "\<exists>b h. hist w' = hist w @ h \<and> reactors w' = (reactors w)(r \<mapsto> x\<lparr>buf := b\<rparr>) \<and> sb_ok b \<and>
        contents (buf x) = data_out d h @ contents b \<and> (\<forall>s. data_in s h = []) \<and>
        (case res of Ret n \<Rightarrow> n = int (length (data_out d h)) | _ \<Rightarrow> data_out d h = [])"
proof -
  let ?h = "h @ [(PR_Write t (contents (buf x)), rc)]"
  note un = unuse_run[OF x(1,2) n(1,2)]
  have eq: "res = Ret n \<and> w' = w1\<lparr>reactors := (reactors w1)(r \<mapsto> x\<lparr>buf := leave_bytes (nat n) (buf x)\<rparr>)\<rparr>"
    using run un(1) by (simp add: run_seq run_basic)
  have out: "data_out d ?h = take (nat n) (contents (buf x))"
    using x(3) data_free_no_data[OF h] n(3) by (simp add: in_of_call)
  have none: "\<forall>s. data_in s ?h = []" using data_free_no_data[OF h] by (simp add: in_of_call)
  show ?thesis
  proof (intro exI[of _ "leave_bytes (nat n) (buf x)"] exI[of _ ?h] conjI)
    show "contents (buf x) = data_out d ?h @ contents (leave_bytes (nat n) (buf x))" unfolding out un(3) by simp
    have "int (length (data_out d ?h)) = n" unfolding out using n(1,2) by simp
    then show "case res of Ret n \<Rightarrow> n = int (length (data_out d ?h)) | _ \<Rightarrow> data_out d ?h = []" using eq by simp
  qed (use eq w1 un(2) none in auto)
qed

lemma tlsWrite_failed:
  assumes "bindM (bindM (getT t) (\<lambda>x. seqM (tlsHandleErr (writeFD x)) (ret (0 :: int)))) rest w = (res, w')"
  obtains (threw) "w' = w" "\<And>n. res \<noteq> Ret n" | (eof) "rest 0 w = (res, w')"
  using assms that by (cases rule: tls_failed[of t writeFD "ret (0::int)" w]) (auto simp: run_bind run_basic)

lemma tlsWrite_law:
  assumes "io_ok E" "sk_tls d = Some t"
  shows "write_law d r (tlsWrite E t r)"
  unfolding write_law_def
proof (intro allI impI, elim conjE)
  fix w x res w'
  assume x: "reactors w r = Some x" "sb_ok (buf x)" and run: "tlsWrite E t r w = (res, w')"
  let ?c = "PR_Write t (contents (buf x))"
  let ?rest = "\<lambda>bytes. seqM (modBuf r (unuse (word_of_int bytes))) (ret bytes)"
  obtain nr w1 where nr: "nss E t ?c w = (nr, w1)" by fastforce
  have step: "(res, w') = (case nr of
       Ret rc \<Rightarrow> bindM (if c_rc rc < 0 then bindM (getT t) (\<lambda>x. seqM (tlsHandleErr (writeFD x)) (ret 0))
                        else ret (c_rc rc)) ?rest w1
     | Throw e \<Rightarrow> (Throw e, w1) | Abort e \<Rightarrow> (Abort e, w1))"
    using nr run[symmetric] by (simp add: tlsWrite_def bindM_def[of "buffered r"] bindM_def[of "nss E t c" for c]
        buffered_run[OF x] split: outcome.splits)
  from nr show "\<exists>b h. hist w' = hist w @ h \<and> reactors w' = (reactors w)(r \<mapsto> x\<lparr>buf := b\<rparr>) \<and> sb_ok b \<and>
        contents (buf x) = data_out d h @ contents b \<and> (\<forall>s. data_in s h = []) \<and>
        (case res of Ret n \<Rightarrow> n = int (length (data_out d h)) | _ \<Rightarrow> data_out d h = [])"
  proof (cases rule: nss_answer)
    case (fault h)
    then have "w' = w1" "\<And>n. res \<noteq> Ret n" using step by (auto split: outcome.splits)
    with fault data_free_no_data[OF fault(3)] show ?thesis by (intro nothing_written[OF x, of w' h]) auto
  next
    case (finished h rc)
    have r1: "reactors w1 r = Some x" using finished x by simp
    note leaves = wrote[OF r1 x(2) assms(2) finished(4) _ _ _ _ finished(3,5)]
    show ?thesis
    proof (cases "c_rc rc < 0")
      case True
      have "bindM (bindM (getT t) (\<lambda>x. seqM (tlsHandleErr (writeFD x)) (ret 0))) ?rest w1 = (res, w')"
        using step finished(2) True by simp
      then show ?thesis
      proof (cases rule: tlsWrite_failed)
        case threw
        with True finished data_free_no_data[OF finished(4)] show ?thesis
          by (intro nothing_written[OF x, of w' "h @ [(?c, rc)]"]) (auto simp: in_of_call)
      next
        case eof
        with True show ?thesis by (intro leaves[of 0]) auto
      qed
    next
      case False
      with io_okD(5)[OF assms(1), of "hist w @ h" t "contents (buf x)"] step finished(1,2) show ?thesis
        by (intro leaves[of "c_rc rc"]) (auto simp: run_bind run_basic)
    qed
  qed
qed

text \<open>With or without TLS: the interface the stream reactors use.\<close>

lemma sockRecv_law:
  assumes "io_ok E" "sock_after s s'"
  shows "read_law s r (sockRecv E s' r)"
proof (cases "sk_tls s")
  case None
  with assms show ?thesis
    using tcpRecv_law[OF assms(1) None assms(2)] by (auto simp: sockRecv_def sock_after_def)
next
  case (Some t)
  with assms show ?thesis
    using tlsRead_law[OF assms(1) Some] by (auto simp: sockRecv_def sock_after_def)
qed

lemma sockSend_law:
  assumes "io_ok E" "sock_after d d'"
  shows "write_law d r (sockSend E d' r)"
proof (cases "sk_tls d")
  case None
  with assms show ?thesis
    using tcpSend_law[OF assms(1) None assms(2)] by (auto simp: sockSend_def sock_after_def)
next
  case (Some t)
  with assms show ?thesis
    using tlsWrite_law[OF assms(1) Some] by (auto simp: sockSend_def sock_after_def)
qed

section \<open>Lossless relaying\<close>

definition relayed :: "rid \<Rightarrow> world \<Rightarrow> world \<Rightarrow> bool" where
  "relayed r w w' \<longleftrightarrow> hist_grows w w' \<and>
     (\<forall>x s d. reactors w r = Some x \<and> sb_ok (buf x) \<and>
        sock_after s (srcSock x) \<and> sock_after d (dstSock x) \<longrightarrow>
        (\<exists>x'. reactors w' r = Some x' \<and> sb_ok (buf x') \<and>
           sock_after s (srcSock x') \<and> sock_after d (dstSock x') \<and>
           contents (buf x) @ data_in s (new_calls w w') =
             data_out d (new_calls w w') @ contents (buf x')))"

lemma relayed_trans:
  assumes "relayed r u v" "relayed r v w"
  shows "relayed r u w"
  unfolding relayed_def
proof (intro conjI allI impI, goal_cases)
  case 1
  from assms show ?case unfolding relayed_def by (auto intro: hg.R_trans)
next
  case (2 x s d)
  with assms(1) obtain y where y: "reactors v r = Some y" "sb_ok (buf y)"
    "sock_after s (srcSock y)" "sock_after d (dstSock y)"
    "contents (buf x) @ data_in s (new_calls u v) = data_out d (new_calls u v) @ contents (buf y)"
    unfolding relayed_def by blast
  with assms(2) obtain z where z: "reactors w r = Some z" "sb_ok (buf z)"
    "sock_after s (srcSock z)" "sock_after d (dstSock z)"
    "contents (buf y) @ data_in s (new_calls v w) = data_out d (new_calls v w) @ contents (buf z)"
    unfolding relayed_def by blast
  have "new_calls u w = new_calls u v @ new_calls v w"
    using assms by (auto simp: relayed_def intro: new_calls_trans)
  with y z show ?case by simp (metis append.assoc)
qed

interpretation rel: world_preorder "relayed r"
proof unfold_locales
  show "relayed r w w" for w by (auto simp: relayed_def new_calls_def hg.R_refl)
qed (rule relayed_trans)

lemma quiet_relayed:
  assumes "keeps (quiet r) m"
  shows "keeps (relayed r) m"
proof (rule keepsI)
  fix w
  from assms have "quiet r w (snd (m w))" by (rule keepsD)
  then obtain h where h: "hist (snd (m w)) = hist w @ h" "data_free h"
    and x: "\<And>x. reactors w r = Some x \<Longrightarrow> \<exists>x'. reactors (snd (m w)) r = Some x' \<and> buf x' = buf x \<and>
        streamState x' = streamState x \<and> sock_after (srcSock x) (srcSock x') \<and> sock_after (dstSock x) (dstSock x')"
    unfolding quiet_def by blast
  from h have grows: "hist_grows w (snd (m w))" by (simp add: hist_grows_def)
  show "relayed r w (snd (m w))"
    unfolding relayed_def
  proof (intro conjI allI impI)
    fix y s d
    assume y: "reactors w r = Some y \<and> sb_ok (buf y) \<and> sock_after s (srcSock y) \<and> sock_after d (dstSock y)"
    with x[of y] obtain x' where "reactors (snd (m w)) r = Some x'" "buf x' = buf y"
      "sock_after (srcSock y) (srcSock x')" "sock_after (dstSock y) (dstSock x')"
      by blast
    with y show "\<exists>x'. reactors (snd (m w)) r = Some x' \<and> sb_ok (buf x') \<and>
           sock_after s (srcSock x') \<and> sock_after d (dstSock x') \<and>
           contents (buf y) @ data_in s (new_calls w (snd (m w))) =
             data_out d (new_calls w (snd (m w))) @ contents (buf x')"
      using h data_free_no_data[OF h(2)] by (auto intro: sock_after_trans)
  qed (rule grows)
qed

text \<open>
  The interface of the sockets: any pair of a read and a write that satisfy the laws relays
  losslessly when used on the members of the reactor, in any continuation that does.
\<close>

locale stream_io =
  fixes recv send :: "env \<Rightarrow> socket \<Rightarrow> rid \<Rightarrow> int M"
  assumes recv_law: "io_ok E \<Longrightarrow> sock_after s s' \<Longrightarrow> read_law s r (recv E s' r)"
    and send_law: "io_ok E \<Longrightarrow> sock_after d d' \<Longrightarrow> write_law d r (send E d' r)"
    and recv_grows: "keeps hist_grows (recv E s r)"
    and send_grows: "keeps hist_grows (send E s r)"
begin

lemma relayed_recv:
  assumes "io_ok E" "reactors w r = Some x"
  shows "relayed r w (snd (recv E (srcSock x) r w))"
  unfolding relayed_def
proof (intro conjI allI impI)
  obtain res w' where run: "recv E (srcSock x) r w = (res, w')" by fastforce
  fix y s d
  assume y: "reactors w r = Some y \<and> sb_ok (buf y) \<and> sock_after s (srcSock y) \<and> sock_after d (dstSock y)"
  then have "y = x" using assms(2) by simp
  with y run recv_law[OF assms(1), of s "srcSock x" r]
  have "\<exists>b h. hist w' = hist w @ h \<and> reactors w' = (reactors w)(r \<mapsto> x\<lparr>buf := b\<rparr>) \<and> sb_ok b \<and>
        contents b = contents (buf x) @ data_in s h \<and> (\<forall>d. data_out d h = [])"
    unfolding read_law_def by blast
  with y \<open>y = x\<close> run show "\<exists>x'. reactors (snd (recv E (srcSock x) r w)) r = Some x' \<and> sb_ok (buf x') \<and>
      sock_after s (srcSock x') \<and> sock_after d (dstSock x') \<and>
      contents (buf y) @ data_in s (new_calls w (snd (recv E (srcSock x) r w))) =
      data_out d (new_calls w (snd (recv E (srcSock x) r w))) @ contents (buf x')"
    by auto
qed (rule keepsD[OF recv_grows])

lemma relayed_send:
  assumes "io_ok E" "reactors w r = Some x"
  shows "relayed r w (snd (send E (dstSock x) r w))"
  unfolding relayed_def
proof (intro conjI allI impI)
  obtain res w' where run: "send E (dstSock x) r w = (res, w')" by fastforce
  fix y s d
  assume y: "reactors w r = Some y \<and> sb_ok (buf y) \<and> sock_after s (srcSock y) \<and> sock_after d (dstSock y)"
  then have "y = x" using assms(2) by simp
  with y run send_law[OF assms(1), of d "dstSock x" r]
  have "\<exists>b h. hist w' = hist w @ h \<and> reactors w' = (reactors w)(r \<mapsto> x\<lparr>buf := b\<rparr>) \<and> sb_ok b \<and>
        contents (buf x) = data_out d h @ contents b \<and> (\<forall>s. data_in s h = [])"
    unfolding write_law_def by blast
  with y \<open>y = x\<close> run show "\<exists>x'. reactors (snd (send E (dstSock x) r w)) r = Some x' \<and> sb_ok (buf x') \<and>
      sock_after s (srcSock x') \<and> sock_after d (dstSock x') \<and>
      contents (buf y) @ data_in s (new_calls w (snd (send E (dstSock x) r w))) =
      data_out d (new_calls w (snd (send E (dstSock x) r w))) @ contents (buf x')"
    by auto
qed (rule keepsD[OF send_grows])

lemma relayed_after_recv:
  assumes "io_ok E" "\<And>n. keeps (relayed r) (f n)"
  shows "keeps (relayed r) (bindM (getR r) (\<lambda>x. bindM (recv E (srcSock x) r) f))"
proof (rule keepsI)
  fix w
  show "relayed r w (snd (bindM (getR r) (\<lambda>x. bindM (recv E (srcSock x) r) f) w))"
  proof (cases "reactors w r")
    case (Some x)
    from relayed_recv[OF assms(1) Some] assms(2)[THEN keepsD] show ?thesis
      by (auto simp: run_bind(1)[of "getR r" w x w, OF run_getR(1)[OF Some]] bindM_def[of "recv E s r" for s]
          intro: relayed_trans split: prod.split outcome.split)
  qed (simp add: run_bind run_getR rel.R_refl)
qed

lemma relayed_after_send:
  assumes "io_ok E" "\<And>n. keeps (relayed r) (f n)"
  shows "keeps (relayed r) (bindM (getR r) (\<lambda>x. bindM (send E (dstSock x) r) f))"
proof (rule keepsI)
  fix w
  show "relayed r w (snd (bindM (getR r) (\<lambda>x. bindM (send E (dstSock x) r) f) w))"
  proof (cases "reactors w r")
    case (Some x)
    from relayed_send[OF assms(1) Some] assms(2)[THEN keepsD] show ?thesis
      by (auto simp: run_bind(1)[of "getR r" w x w, OF run_getR(1)[OF Some]] bindM_def[of "send E s r" for s]
          intro: relayed_trans split: prod.split outcome.split)
  qed (simp add: run_bind run_getR rel.R_refl)
qed

end

interpretation io: stream_io sockRecv sockSend
  by unfold_locales (auto intro: sockRecv_law sockSend_law frame_hist keeps_intro)

lemma keeps_relayed_quiet [keeps_intro]:
  "keeps (relayed r) (getR r')" "keeps (relayed r) (Poller_add E r' fd ev)"
  "keeps (relayed r) (close_srcSock E r')" "keeps (relayed r) (close_dstSock E r')"
  "keeps (relayed r) (deactivate E r')" "keeps (relayed r) (Poller_remove E fd force)"
  by (intro quiet_relayed keeps_intro)+

lemma keeps_relayed_set_streamState [keeps_intro]: "keeps (relayed r) (set_streamState r' s)"
  by (auto simp: keeps_def set_streamState_def modR_def relayed_def hist_grows_def new_calls_def
      split: option.split)

lemma keeps_relayed_runAs [keeps_intro]:
  "keeps (relayed r) m \<Longrightarrow> keeps (relayed r) (Poller_runAs E r' m)"
  unfolding Poller_runAs_def
  by (intro rel.keeps_rules) (auto split: exn.split intro: keeps_intro)

lemma relayed_sending: "io_ok E \<Longrightarrow> keeps (relayed r) (StreamReactor_sending E r)"
  unfolding StreamReactor_sending_def
  by (intro io.relayed_after_send rel.keeps_rules keeps_intro)

lemma relayed_receiving: "io_ok E \<Longrightarrow> keeps (relayed r) (StreamReactor_receiving E r)"
  unfolding StreamReactor_receiving_def
  by (intro io.relayed_after_recv rel.keeps_rules keeps_intro relayed_sending)

lemma relayed_process: "io_ok E \<Longrightarrow> keeps (relayed r) (StreamReactor_process E r)"
  unfolding StreamReactor_process_def
  by (intro rel.keeps_rules keeps_intro; simp split: StreamState.split)
    (auto intro: relayed_sending relayed_receiving)

text \<open>Any number of events in a row for the same stream reactor, each run by the poller.\<close>

fun pump :: "env \<Rightarrow> rid \<Rightarrow> nat \<Rightarrow> unit M" where
  "pump E r 0 = ret ()"
| "pump E r (Suc n) = seqM (Poller_runAs E r (StreamReactor_process E r)) (pump E r n)"

lemma relayed_pump: "io_ok E \<Longrightarrow> keeps (relayed r) (pump E r n)"
  by (induction n) (auto intro: rel.keeps_rules keeps_intro relayed_process)

end
