(* ===== verification/BufferSpec.thy ===== *)
theory BufferSpec
  imports StreamBuffer
begin

text \<open>
  The contract of the stream buffer (\<^verbatim>\<open>core/streambuffer.hh\<close>) and the proof that the class implements
  it. The abstract buffer is a list of bytes with the size of the gap in front of it; it knows no
  array, no indices and no words. A command is a thing a caller does with the class: store received
  bytes at the tail and count them, take sent bytes off the head, make head room, prepend. Every
  outcome is part of the contract: the bytes handed out, the exception of \<open>makeHeadroom\<close>, and the
  overrun of the array when more bytes are stored than there is room for.
\<close>

section \<open>Commands on the class\<close>

datatype buf_cmd =
    Receive "byte list"
  | Send nat
  | Headroom size_t
  | Prepend "byte list"

definition buf_step :: "buf_cmd \<Rightarrow> streambuf \<Rightarrow> (byte list \<times> streambuf) outcome" where
  "buf_step c b = (case c of
       Receive xs \<Rightarrow> (case getTail_store xs b of
           Ret b' \<Rightarrow> Ret ([], use_bytes (of_nat (length xs)) b') | Throw e \<Rightarrow> Throw e | Abort a \<Rightarrow> Abort a)
     | Send n \<Rightarrow> (case getHead b n of
           Ret xs \<Rightarrow> Ret (xs, unuse (of_nat n) b) | Throw e \<Rightarrow> Throw e | Abort a \<Rightarrow> Abort a)
     | Headroom sz \<Rightarrow> (case makeHeadroom sz b of
           Ret b' \<Rightarrow> Ret ([], b') | Throw e \<Rightarrow> Throw e | Abort a \<Rightarrow> Abort a)
     | Prepend xs \<Rightarrow> (case prepend xs (of_nat (length xs)) b of
           Ret b' \<Rightarrow> Ret ([], b') | Throw e \<Rightarrow> Throw e | Abort a \<Rightarrow> Abort a))"

fun buf_run :: "buf_cmd list \<Rightarrow> streambuf \<Rightarrow> (byte list \<times> streambuf) outcome" where
  "buf_run [] b = Ret ([], b)"
| "buf_run (c # cs) b = (case buf_step c b of
     Ret (xs, b') \<Rightarrow> (case buf_run cs b' of
         Ret (ys, b'') \<Rightarrow> Ret (xs @ ys, b'') | Throw e \<Rightarrow> Throw e | Abort a \<Rightarrow> Abort a)
   | Throw e \<Rightarrow> Throw e
   | Abort a \<Rightarrow> Abort a)"

section \<open>Commands on the abstract buffer\<close>

type_synonym gapped = "nat \<times> byte list"

definition CAPACITY :: nat where "CAPACITY = 35 * 1024"

definition spec_step :: "buf_cmd \<Rightarrow> gapped \<Rightarrow> (byte list \<times> gapped) outcome" where
  "spec_step c s = (case s of (gap, q) \<Rightarrow> (case c of
       Receive xs \<Rightarrow>
         if gap + length q + length xs \<le> CAPACITY then Ret ([], gap, q @ xs) else Abort OutOfBounds
     | Send n \<Rightarrow> Ret (take n q, if n = length q then (0, []) else (gap + n, drop n q))
     | Headroom sz \<Rightarrow>
         if unat sz + length q \<le> CAPACITY then Ret ([], max gap (unat sz), q)
         else Throw (RuntimeError ''No room in stream buffer'')
     | Prepend xs \<Rightarrow>
         let n = length xs mod 256
         in if n + length q \<le> CAPACITY then Ret ([], max gap n - n, take n xs @ q)
            else Throw (RuntimeError ''No room in stream buffer'')))"

fun spec_run :: "buf_cmd list \<Rightarrow> gapped \<Rightarrow> (byte list \<times> gapped) outcome" where
  "spec_run [] s = Ret ([], s)"
| "spec_run (c # cs) s = (case spec_step c s of
     Ret (xs, s') \<Rightarrow> (case spec_run cs s' of
         Ret (ys, s'') \<Rightarrow> Ret (xs @ ys, s'') | Throw e \<Rightarrow> Throw e | Abort a \<Rightarrow> Abort a)
   | Throw e \<Rightarrow> Throw e
   | Abort a \<Rightarrow> Abort a)"

text \<open>
  What a caller must respect: no more bytes are taken off than there are, and the head room asked
  for is smaller than the array (with all of it as head room an empty buffer could never receive).
\<close>

fun obeys :: "buf_cmd \<Rightarrow> gapped \<Rightarrow> bool" where
  "obeys (Send n) s = (n \<le> length (snd s))"
| "obeys (Headroom sz) s = (unat sz < CAPACITY)"
| "obeys _ s = True"

fun respectful :: "buf_cmd list \<Rightarrow> gapped \<Rightarrow> bool" where
  "respectful [] s = True"
| "respectful (c # cs) s = (obeys c s \<and> (case spec_step c s of
     Ret (_, s') \<Rightarrow> respectful cs s' | _ \<Rightarrow> True))"

section \<open>Refinement\<close>

definition gapped_of :: "streambuf \<Rightarrow> gapped" where
  "gapped_of b = (unat (head b), contents b)"

fun implements :: "(byte list \<times> streambuf) outcome \<Rightarrow> (byte list \<times> gapped) outcome \<Rightarrow> bool" where
  "implements (Ret (xs, b)) (Ret (ys, s)) = (xs = ys \<and> sb_ok b \<and> gapped_of b = s)"
| "implements (Throw e) (Throw f) = (e = f)"
| "implements (Abort a) (Abort c) = (a = c)"
| "implements _ _ = False"

lemma capacity [simp]: "CAPACITY = 35840"
  by (simp add: CAPACITY_def)

lemma tail_gapped: "sb_ok b \<Longrightarrow> unat (tail b) = unat (head b) + length (contents b)"
  using sb_ok_unat[of b] by (simp add: length_contents unat_usedSize)

lemma implements_receive: "sb_ok b \<Longrightarrow> implements (buf_step (Receive xs) b) (spec_step (Receive xs) (gapped_of b))"
proof (cases "unat (tail b) + length xs \<le> 35840")
  assume b: "sb_ok b"
  case True
  then have l: "length xs \<le> unat (availSize b)" using b by (simp add: unat_availSize)
  have "head (store xs b) = head b" by (simp add: store_def use_bytes_def)
  with True store_ok[OF b l] show ?thesis
    using tail_gapped[OF b] by (simp add: buf_step_def spec_step_def gapped_of_def
        getTail_store_Ret[OF b l] store_def use_bytes_def)
next
  assume b: "sb_ok b"
  case False
  then show ?thesis
    using tail_gapped[OF b] by (simp add: buf_step_def spec_step_def gapped_of_def getTail_store_def)
qed

lemma head_unuse:
  assumes "sb_ok b" "unat n \<le> length (contents b)"
  shows "unat (head (unuse n b)) = (if unat n = length (contents b) then 0 else unat (head b) + unat n)"
proof -
  note u = tail_gapped[OF assms(1)] sb_ok_unat[OF assms(1)]
  have n: "unat (head b + n) = unat (head b) + unat n"
    using assms(2) u by (intro unat_plus_bounded) simp
  then have "head b + n = tail b \<longleftrightarrow> unat n = length (contents b)"
    using u by (metis add_left_cancel word_unat_eq_iff)
  with n show ?thesis by (simp add: unuse_def Let_def)
qed

lemma implements_send:
  assumes b: "sb_ok b" and n: "n \<le> length (contents b)"
  shows "implements (buf_step (Send n) b) (spec_step (Send n) (gapped_of b))"
proof -
  have u: "unat (of_nat n :: size_t) = n"
    using n tail_gapped[OF b] sb_ok_unat[OF b] by (simp add: unat_of_nat)
  then have m: "unat (of_nat n :: size_t) \<le> length (contents b)" using n by simp
  have "getHead b n = Ret (take n (contents b))"
    using n tail_gapped[OF b] sb_ok_unat[OF b]
    by (simp add: getHead_def contents_def take_block length_contents)
  with unuse_ok[OF b m] head_unuse[OF b m] u n show ?thesis
    by (simp add: buf_step_def spec_step_def gapped_of_def)
qed

lemma head_makeHeadroom:
  assumes "makeHeadroom sz b = Ret b'"
  shows "unat (head b') = max (unat (head b)) (unat sz)"
  using assms by (auto simp: makeHeadroom_def Let_def word_less_nat_alt split: if_splits)

lemma implements_headroom:
  assumes b: "sb_ok b" and n: "unat sz < 35840"
  shows "implements (buf_step (Headroom sz) b) (spec_step (Headroom sz) (gapped_of b))"
proof (cases "unat sz + length (contents b) \<le> 35840")
  case True
  with makeHeadroom_ok[OF b True n] obtain b' where "makeHeadroom sz b = Ret b'" "sb_ok b'"
    "contents b' = contents b" by blast
  with True head_makeHeadroom show ?thesis by (simp add: buf_step_def spec_step_def gapped_of_def)
next
  case False
  with makeHeadroom_full[OF b, of sz] show ?thesis
    by (simp add: buf_step_def spec_step_def gapped_of_def)
qed

lemma unat_size_of_byte: "unat (ucast (sz :: 8 word) :: size_t) = unat sz"
  using unsigned_less[of sz, where ?'a = nat] by (auto simp: unsigned_ucast_eq take_bit_nat_eq_self)

lemma prepend_full:
  assumes "sb_ok b" "35840 < unat sz + length (contents b)"
  shows "prepend stuff sz b = Throw (RuntimeError ''No room in stream buffer'')"
  using makeHeadroom_full[OF assms(1), of "ucast sz"] assms(2)
  by (simp add: prepend_def unat_size_of_byte)

lemma head_prepend:
  assumes "prepend stuff sz b = Ret b'" "sb_ok b'" "sb_ok b"
    and "contents b' = take (unat sz) stuff @ contents b" "unat sz \<le> length stuff"
  shows "unat (head b') = max (unat (head b)) (unat sz) - unat sz"
proof -
  obtain b1 where b1: "makeHeadroom (ucast sz) b = Ret b1" and h: "head b' = head b1 - ucast sz"
    using assms(1) by (auto simp: prepend_def Let_def split: outcome.splits if_splits)
  have "unat (head b1) = max (unat (head b)) (unat sz)"
    using head_makeHeadroom[OF b1] by (simp add: unat_size_of_byte)
  with h show ?thesis by (simp add: unat_diff_le word_le_nat_alt unat_size_of_byte)
qed

lemma implements_prepend:
  assumes b: "sb_ok b"
  shows "implements (buf_step (Prepend xs) b) (spec_step (Prepend xs) (gapped_of b))"
proof -
  let ?n = "of_nat (length xs) :: 8 word"
  have n: "unat ?n = length xs mod 256" by (simp add: unat_of_nat)
  then have l: "unat ?n \<le> length xs" by simp
  show ?thesis
  proof (cases "unat ?n + length (contents b) \<le> 35840")
    case True
    obtain b' where r: "prepend xs ?n b = Ret b'" "sb_ok b'" "contents b' = take (unat ?n) xs @ contents b"
      using prepend_ok[OF b l True] .
    with True n head_prepend[OF r(1,2) b r(3) l] show ?thesis
      by (simp add: buf_step_def spec_step_def gapped_of_def Let_def)
  next
    case False
    with n prepend_full[OF b, of ?n xs] show ?thesis
      by (simp add: buf_step_def spec_step_def gapped_of_def Let_def)
  qed
qed

lemma buf_step_implements:
  "sb_ok b \<Longrightarrow> obeys c (gapped_of b) \<Longrightarrow> implements (buf_step c b) (spec_step c (gapped_of b))"
proof (cases c)
  case (Send n)
  moreover assume "sb_ok b" "obeys c (gapped_of b)"
  ultimately show ?thesis using implements_send by (simp add: gapped_of_def)
qed (simp_all add: implements_receive implements_prepend implements_headroom)

lemma implements_cases:
  assumes "implements r q"
  obtains (ok) xs b where "r = Ret (xs, b)" "q = Ret (xs, gapped_of b)" "sb_ok b"
  | (thrown) e where "r = Throw e" "q = Throw e"
  | (aborted) a where "r = Abort a" "q = Abort a"
  using assms by (cases rule: implements.cases[of "(r, q)"]) auto

text \<open>
  C9: the buffer implements its contract. From any well-formed buffer, a sequence of commands that
  respects the contract hands out exactly the bytes the abstract queue hands out, ends in a
  well-formed buffer that represents the abstract one, and fails exactly when and how the
  contract says.
\<close>

theorem buffer_refines_queue:
  "sb_ok b \<Longrightarrow> respectful cs (gapped_of b) \<Longrightarrow> implements (buf_run cs b) (spec_run cs (gapped_of b))"
proof (induction cs arbitrary: b)
  case (Cons c cs)
  then have "implements (buf_step c b) (spec_step c (gapped_of b))"
    by (simp add: buf_step_implements)
  then show ?case
  proof (cases rule: implements_cases)
    case (ok xs b')
    with Cons have "implements (buf_run cs b') (spec_run cs (gapped_of b'))" by simp
    from this ok show ?thesis by (cases rule: implements_cases) auto
  qed simp_all
qed simp

theorem buffer_refines_queue_witness:
  "implements (buf_run [Headroom 4, Receive [7, 8, 9], Send 1, Prepend [1, 2], Send 3] new_buffer)
     (Ret ([7, 1, 2, 8], 6, [9]))"
proof -
  let ?cs = "[Headroom 4, Receive [7, 8, 9], Send 1, Prepend [1, 2], Send 3]"
  have g: "gapped_of new_buffer = (0, [])" by (simp add: gapped_of_def new_buffer_ok) (simp add: new_buffer_def)
  have "respectful ?cs (0, [])" "spec_run ?cs (0, []) = Ret ([7, 1, 2, 8], 6, [9])"
    by (simp_all add: spec_step_def Let_def)
  with buffer_refines_queue[OF new_buffer_ok(1), of ?cs] g show ?thesis by simp
qed

end
