(* ===== verification/ClientPath.thy ===== *)
theory ClientPath
  imports Relay Proxifier BufferSpec
begin

text \<open>
  The path of a client's data through the proxifier, from the accepted connection to the proxy:
  the request is put in front of what the client has already sent, part of both may go out with the
  connection attempt (TCP Fast Open), the rest follows once the connection stands, and from then on
  the upstreamer is a relay. The relation \<open>piped P r\<close> extends losslessness of a relay to steps that
  create other objects, for a connection to the proxy without TLS: over any sequence of such steps,
  what was buffered followed by what the client sent is what the proxy was sent followed by
  what is still buffered.
\<close>

section \<open>Lossless steps that may create objects\<close>

definition no_tls :: "socket \<Rightarrow> bool" where
  [simp]: "no_tls d \<longleftrightarrow> sk_tls d = None"

definition moved :: "(socket \<Rightarrow> bool) \<Rightarrow> rid \<Rightarrow> world \<Rightarrow> world \<Rightarrow> bool" where
  "moved P r w w' \<longleftrightarrow> (\<forall>x s d. reactors w r = Some x \<and> sb_ok (buf x) \<and>
      sock_after s (srcSock x) \<and> sock_after d (dstSock x) \<and> P d \<longrightarrow>
      (\<exists>x'. reactors w' r = Some x' \<and> sb_ok (buf x') \<and>
         sock_after s (srcSock x') \<and> sock_after d (dstSock x') \<and>
         contents (buf x) @ data_in s (new_calls w w') =
           data_out d (new_calls w w') @ contents (buf x')))"

definition piped :: "(socket \<Rightarrow> bool) \<Rightarrow> rid \<Rightarrow> world \<Rightarrow> world \<Rightarrow> bool" where
  "piped P r w w' \<longleftrightarrow> frame w w' \<and> (r < nextRid w \<longrightarrow> moved P r w w')"

lemma frame_nextRid: "frame w w' \<Longrightarrow> nextRid w \<le> nextRid w'"
  by (simp add: frame_def heap_grows_def)

lemma frame_calls: "frame u v \<Longrightarrow> frame v w \<Longrightarrow> new_calls u w = new_calls u v @ new_calls v w"
  by (auto simp: frame_def intro: new_calls_trans)

lemma moved_trans:
  assumes "frame u v" "frame v w" "moved P r u v" "moved P r v w"
  shows "moved P r u w"
  unfolding moved_def
proof (intro allI impI)
  fix x s d
  assume x: "reactors u r = Some x \<and> sb_ok (buf x) \<and>
      sock_after s (srcSock x) \<and> sock_after d (dstSock x) \<and> P d"
  with assms(3) obtain y where y: "reactors v r = Some y" "sb_ok (buf y)"
    "sock_after s (srcSock y)" "sock_after d (dstSock y)"
    "contents (buf x) @ data_in s (new_calls u v) = data_out d (new_calls u v) @ contents (buf y)"
    unfolding moved_def by blast
  with x assms(4) obtain z where z: "reactors w r = Some z" "sb_ok (buf z)"
    "sock_after s (srcSock z)" "sock_after d (dstSock z)"
    "contents (buf y) @ data_in s (new_calls v w) = data_out d (new_calls v w) @ contents (buf z)"
    unfolding moved_def by blast
  from y z show "\<exists>z. reactors w r = Some z \<and> sb_ok (buf z) \<and>
         sock_after s (srcSock z) \<and> sock_after d (dstSock z) \<and>
         contents (buf x) @ data_in s (new_calls u w) = data_out d (new_calls u w) @ contents (buf z)"
    by (simp add: frame_calls[OF assms(1,2)]) (metis append.assoc)
qed

lemma moved_refl: "moved P r w w"
  by (auto simp: moved_def new_calls_def)

interpretation pi: world_preorder "piped P r"
proof unfold_locales
  fix u v w assume uv: "piped P r u v" and vw: "piped P r v w"
  then have "frame u v" "frame v w" by (simp_all add: piped_def)
  with uv vw show "piped P r u w"
    using frame_nextRid[of u v] by (auto simp: piped_def intro: moved_trans fr.R_trans)
qed (auto simp: piped_def moved_refl fr.R_refl)

lemma relayed_moved: "relayed r w w' \<Longrightarrow> moved P r w w'"
  by (auto simp: relayed_def moved_def)

lemma piped_relayed: "keeps frame m \<Longrightarrow> keeps (relayed r) m \<Longrightarrow> keeps (piped P r) m"
  by (simp add: keeps_def piped_def relayed_moved)

lemma piped_quiet: "keeps frame m \<Longrightarrow> keeps (quiet r) m \<Longrightarrow> keeps (piped P r) m"
  by (rule piped_relayed) (auto intro: quiet_relayed)

text \<open>A step that uses the object's members as they are when it starts.\<close>

lemma piped_member:
  assumes "\<And>w x. reactors w r = Some x \<Longrightarrow> moved P r w (snd (m x w))" "\<And>x. keeps frame (m x)"
    and "\<And>n. keeps (piped P r) (f n)"
  shows "keeps (piped P r) (bindM (getR r) (\<lambda>x. bindM (m x) f))"
proof (rule keepsI)
  fix w :: world
  show "piped P r w (snd (bindM (getR r) (\<lambda>x. bindM (m x) f) w))"
  proof (cases "reactors w r")
    case (Some x)
    have "piped P r w (snd (m x w))"
      using assms(1)[OF Some] keepsD[OF assms(2)] by (simp add: piped_def)
    with assms(3)[THEN keepsD] show ?thesis
      by (auto simp: run_bind(1)[of "getR r" w x w, OF run_getR(1)[OF Some]] bindM_def[of "m x"]
          intro: pi.R_trans split: prod.split outcome.split)
  qed (simp add: run_bind run_getR pi.R_refl)
qed

text \<open>A new object is another one.\<close>

lemma piped_new:
  assumes "\<And>s. s \<noteq> r \<Longrightarrow> keeps (piped P r) (f s)" "\<And>s. keeps frame (f s)"
  shows "keeps (piped P r) (bindM (newR y) f)"
proof (rule keepsI)
  fix w :: world
  let ?v = "w\<lparr>reactors := (reactors w)(nextRid w \<mapsto> y), nextRid := Suc (nextRid w)\<rparr>"
  have run: "bindM (newR y) f w = f (nextRid w) ?v" by (simp add: bindM_def newR_def)
  have fr: "frame w ?v" using keepsD[OF frame_basic(2)[of y], of w] by (simp add: newR_def)
  show "piped P r w (snd (bindM (newR y) f w))"
  proof (cases "r < nextRid w")
    case True
    then have "moved P r w ?v" by (auto simp: moved_def new_calls_def)
    with fr have "piped P r w ?v" by (simp add: piped_def)
    with True assms(1)[of "nextRid w", THEN keepsD, of ?v] show ?thesis
      unfolding run by (auto intro: pi.R_trans)
  next
    case False
    with fr keepsD[OF assms(2)[of "nextRid w"], of ?v] show ?thesis
      unfolding run by (auto simp: piped_def intro: fr.R_trans)
  qed
qed

section \<open>Steps on other objects\<close>

lemma quiet_other [keeps_intro]:
  "s \<noteq> r \<Longrightarrow> keeps (quiet r) (modR s f)" "s \<noteq> r \<Longrightarrow> keeps (quiet r) (deleteR s)"
  by (auto simp: keeps_def quiet_def modR_def deleteR_def run_basic split: option.split)

lemma quiet_fd [keeps_intro]:
  "keeps (quiet r) (UniqFD_assign fd rc)" "keeps (quiet r) (UniqSendFD_destroy E fd)"
  "keeps (quiet r) (UniqRecvFD_destroy E fd)"
  "keeps (quiet r) (setReadFD t fd)" "keeps (quiet r) (setWriteFD t fd)"
  unfolding uniqfd_defs setReadFD_def setWriteFD_def
  by (intro quiet.keeps_rules keeps_intro data_call_simps)+

lemma quiet_dup [keeps_intro]:
  "s \<noteq> r \<Longrightarrow> keeps (quiet r) (dup_srcSock E s u)" "s \<noteq> r \<Longrightarrow> keeps (quiet r) (dup_dstSock E s u)"
  unfolding dup_srcSock_def dup_dstSock_def duplicate_for_read_def duplicate_for_write_def
  by (intro quiet.keeps_rules keeps_intro data_call_simps; assumption)+

lemma quiet_destroy [keeps_intro]: "s \<noteq> r \<Longrightarrow> keeps (quiet r) (StreamReactor_destroy E s)"
  unfolding StreamReactor_destroy_def by (intro quiet.keeps_rules keeps_intro; assumption?)

lemma quiet_construct [keeps_intro]:
  "keeps (quiet r) (destroy s) \<Longrightarrow> keeps (quiet r) body \<Longrightarrow> keeps (quiet r) (construct destroy s body)"
  unfolding construct_def by (intro quiet.keeps_rules)

lemma relayed_start [keeps_intro]: "keeps (relayed r) (StreamReactor_start E s)"
  unfolding StreamReactor_start_def
  by (intro rel.keeps_rules keeps_intro; simp split: StreamState.split) (auto intro: keeps_intro)

lemma quiet_getXU [keeps_intro]: "keeps (quiet r) (getXU s)"
  unfolding getXU_def by (intro quiet.keeps_rules keeps_intro) (auto split: rclass.split intro: quiet.keeps_rules)

lemma quiet_modXU [keeps_intro]: "keeps (quiet r) (modXU s f)"
  unfolding modXU_def by (intro keeps_intro) (auto split: rclass.split)

lemma piped_downstreamer: "keeps (piped P r) (ProxifierDownstreamer_new E u)"
  unfolding ProxifierDownstreamer_new_def
proof (rule pi.keeps_bind)
  show "keeps (piped P r) (getXU u)" by (intro piped_quiet keeps_intro)
qed (rule piped_new, rule piped_quiet; intro quiet.keeps_rules fr.keeps_rules keeps_intro; assumption?)

section \<open>Handshake and connection\<close>

text \<open>Without TLS there is no handshake; with TLS nothing is claimed.\<close>

lemma piped_handshake:
  assumes "keeps (piped no_tls r) k" shows "keeps (piped no_tls r) (bindM (getR r) (\<lambda>x. seqM (clientHandshake E (dstSock x) r) k))"
  unfolding seqM_def
proof (rule piped_member)
  fix w :: world and x assume x: "reactors w r = Some x"
  show "moved no_tls r w (snd (clientHandshake E (dstSock x) r w))"
  proof (cases "sk_tls (dstSock x)")
    case None
    then show ?thesis by (simp add: clientHandshake_def run_basic moved_refl)
  next
    case (Some t)
    with x show ?thesis by (auto simp: moved_def sock_after_def no_tls_def)
  qed
qed (intro keeps_intro assms)+

lemma piped_send:
  assumes "io_ok E" "\<And>n. keeps (piped P r) (f n)"
  shows "keeps (piped P r) (bindM (getR r) (\<lambda>x.
    bindM (if 0 < usedSize (buf x) then sockSend E (dstSock x) r else ret 1) f))"
proof (rule piped_member)
  fix w :: world and x assume "reactors w r = Some x"
  with io.relayed_send[OF assms(1) this] show "moved P r w (snd ((if 0 < usedSize (buf x) then sockSend E (dstSock x) r else ret 1) w))"
    by (auto simp: run_basic moved_refl intro: relayed_moved)
qed (intro fr.keeps_rules keeps_intro assms(2))+

section \<open>The upstreamer's events\<close>

lemma piped_basic:
  "keeps (piped P r) (getXU s)" "keeps (piped P r) (modXU s f)" "keeps (piped P r) (checkConnected E fd)"
  "keeps (piped P r) (getR s)"
  unfolding checkConnected_def
  by (intro piped_quiet quiet.keeps_rules fr.keeps_rules keeps_intro data_call_simps shared_call_simps)+

lemma piped_enter: "io_ok E \<Longrightarrow> keeps (piped P r) (enter_stream E r)"
  unfolding enter_stream_def
  by (intro piped_relayed fr.keeps_rules rel.keeps_rules keeps_intro relayed_process)

lemma piped_assign: "keeps (piped P r) (Poller_assign E s (StreamReactor_start E s))"
  unfolding Poller_assign_def by (intro piped_relayed keeps_intro)

lemma piped_sendReq: "io_ok E \<Longrightarrow> keeps (piped P r) (ProxifierUpstreamer_sendReq E r)"
  unfolding ProxifierUpstreamer_sendReq_def
  by (intro piped_send pi.keeps_rules piped_downstreamer piped_assign piped_basic piped_enter)

lemma piped_handshaking: "io_ok E \<Longrightarrow> keeps (piped no_tls r) (ProxifierUpstreamer_handshake E r)"
  unfolding ProxifierUpstreamer_handshake_def
  by (intro piped_handshake pi.keeps_rules piped_basic piped_sendReq)

lemma piped_connecting: "io_ok E \<Longrightarrow> keeps (piped no_tls r) (ProxifierUpstreamer_connecting E r)"
  unfolding ProxifierUpstreamer_connecting_def
  by (intro pi.keeps_rules piped_basic piped_handshaking)

lemma piped_stream: "io_ok E \<Longrightarrow> keeps (piped P r) (StreamReactor_process E r)"
  by (intro piped_relayed keeps_intro relayed_process)

lemma piped_process: "io_ok E \<Longrightarrow> keeps (piped no_tls r) (ProxifierUpstreamer_process E r)"
  unfolding ProxifierUpstreamer_process_def
  by (intro pi.keeps_rules piped_basic keeps_client_choices piped_connecting piped_handshaking piped_sendReq
      piped_stream)

lemma piped_runAs: "keeps (piped P r) m \<Longrightarrow> keeps (piped P r) (Poller_runAs E s m)"
  unfolding Poller_runAs_def
  by (intro pi.keeps_rules) (auto split: exn.split intro!: piped_relayed keeps_intro)

section \<open>The start: request, data, connection\<close>

lemma tfo_call:
  "in_of s (SendToTFO fd xs a, rc) = []"
  "out_of d (SendToTFO fd xs a, rc) = (if sk_tls d = None \<and> fd = sk_fd d then take (nat (c_rc rc)) xs else [])"
  by (simp_all add: in_of_def out_of_def)

text \<open>What goes out with the connection attempt is the front of the buffer, at most the payload given.\<close>

lemma tcpSendTFO_eq:
  fixes w :: world and m :: size_t
  assumes "reactors w r = Some x" "sb_ok (buf x)"
  defines "xs \<equiv> take (unat (min (usedSize (buf x)) m)) (contents (buf x))"
  shows "tcpSendTFO E d r m a w =
     (let c = SendToTFO (sk_fd d) xs a; rc = os E (hist w) c; w1 = w\<lparr>hist := hist w @ [(c, rc)]\<rparr>
      in if c_rc rc < 0 \<and> c_errno rc \<noteq> EINPROGRESS then (Throw (SystemError (c_errno rc)), w1)
         else if 0 < c_rc rc then seqM (modBuf r (unuse (word_of_int (c_rc rc)))) (ret (c_rc rc)) w1
         else (Ret (c_rc rc), w1))"
proof -
  let ?n = "unat (min (usedSize (buf x)) m)"
  have "?n \<le> length (contents (buf x))" by (simp add: length_contents min_def word_le_nat_alt)
  then have "getHead (buf x) ?n = Ret xs"
    using tail_gapped[OF assms(2)] sb_ok_unat[OF assms(2)]
    by (simp add: getHead_def xs_def contents_def take_block length_contents)
  with assms(1) show ?thesis
    by (simp add: tcpSendTFO_def bindM_def[of "getR r"] bindM_def[of "liftO c" for c]
        bindM_def[of "extcall E c" for c] run_getR run_extcall run_basic seqM_def Let_def)
qed

lemma take_front: "k \<le> length (take n xs) \<Longrightarrow> take k (take n xs) = take k xs"
  by (simp add: min_absorb1)

lemma tcpSendTFO_moved:
  fixes w :: world
  assumes "io_ok E" "reactors w r = Some x" "sk_tls (dstSock x) = None"
  shows "moved P r w (snd (tcpSendTFO E (dstSock x) r m a w))"
  unfolding moved_def
proof (intro allI impI, elim conjE)
  fix y s d
  assume y: "reactors w r = Some y" "sb_ok (buf y)" "sock_after s (srcSock y)" "sock_after d (dstSock y)"
    "P d"
  have eq: "y = x" using y(1) assms(2) by simp
  let ?xs = "take (unat (min (usedSize (buf x)) m)) (contents (buf x))"
  let ?c = "SendToTFO (sk_fd (dstSock x)) ?xs a"
  let ?rc = "os E (hist w) ?c"
  let ?w1 = "w\<lparr>hist := hist w @ [(?c, ?rc)]\<rparr>"
  let ?w' = "snd (tcpSendTFO E (dstSock x) r m a w)"
  note run = tcpSendTFO_eq[OF assms(2) y(2)[unfolded eq], of E "dstSock x" m a]
  note io = io_okD(4)[OF assms(1), of "hist w" "sk_fd (dstSock x)" ?xs a]
  show "\<exists>x'. reactors ?w' r = Some x' \<and> sb_ok (buf x') \<and> sock_after s (srcSock x') \<and> sock_after d (dstSock x') \<and>
      contents (buf y) @ data_in s (new_calls w ?w') = data_out d (new_calls w ?w') @ contents (buf x')"
  proof (cases "0 < c_rc ?rc")
    case False
    then have "?w' = ?w1" using run by (simp add: Let_def)
    moreover have z: "nat (c_rc ?rc) = 0" using False by simp
    have "data_out d [(?c, ?rc)] = []" unfolding data_single tfo_call z by simp
    ultimately show ?thesis using y eq by (simp add: new_calls_def tfo_call)
  next
    case True
    then have n: "0 \<le> c_rc ?rc" "c_rc ?rc \<le> int (length (contents (buf x)))" and fd: "sk_fd (dstSock x) = sk_fd d"
      using io y(4) eq by (auto simp: sock_after_def)
    have x1: "reactors ?w1 r = Some x" using assms(2) by simp
    note un = unuse_run[OF x1 y(2)[unfolded eq] n]
    let ?b = "leave_bytes (nat (c_rc ?rc)) (buf x)"
    have w': "?w' = ?w1\<lparr>reactors := (reactors ?w1)(r \<mapsto> x\<lparr>buf := ?b\<rparr>)\<rparr>"
      using run True un(1) by (simp add: Let_def run_seq run_basic)
    have "nat (c_rc ?rc) \<le> length ?xs" using io True by linarith
    then have "take (nat (c_rc ?rc)) ?xs = take (nat (c_rc ?rc)) (contents (buf x))" by (rule take_front)
    then have "data_out d [(?c, ?rc)] = take (nat (c_rc ?rc)) (contents (buf x))"
      using fd y(4) eq assms(3) by (auto simp: tfo_call sock_after_def)
    with w' un(2,3) y eq show ?thesis by (simp add: new_calls_def tfo_call)
  qed
qed

lemma quiet_nss: "\<not> data_call c \<Longrightarrow> keeps (quiet r) (nss E t c)"
  unfolding nss_def
  by (intro below_nss_quiet low.keeps_rules keeps_intro) (auto simp: keeps_def below_nss_def run_basic data_free_def)

lemma sockConnect_moved:
  fixes w :: world
  assumes "io_ok E" "reactors w r = Some x"
  shows "moved P r w (snd (sockConnect E (dstSock x) r a m e w))"
proof (cases "sk_tls (dstSock x)")
  case (Some t)
  have "keeps (quiet r) (sockConnect E (dstSock x) r a m e)"
    unfolding Some sockConnect_def option.case tcpDeferredConnect_def tcpConnect_def tlsDisableEarlyData_def nss_checked_def
    by (intro quiet.keeps_rules keeps_intro data_call_simps quiet_nss)
  from keepsD[OF quiet_relayed[OF this], of w] show ?thesis by (rule relayed_moved)
next
  case None
  have q: "keeps (quiet r) (tcpConnect E (dstSock x) a)"
    unfolding tcpConnect_def by (intro quiet.keeps_rules keeps_intro data_call_simps)
  have "moved P r w (snd (bindM (tcpSendTFO E (dstSock x) r m a) (\<lambda>_. ret ()) w))"
    using tcpSendTFO_moved[OF assms None, of P m a]
    by (auto simp: bindM_def run_basic split: prod.split outcome.split)
  with None keepsD[OF quiet_relayed[OF q], of w] show ?thesis
    by (simp add: sockConnect_def relayed_moved)
qed

lemma data_call_client [simp]:
  "\<not> data_call (TfoPayloadSize fd)" "\<not> data_call (WalletExtract n)"
  by (simp_all add: data_call_def)

lemma quiet_client [keeps_intro]: "keeps (quiet r) (getPF p)" "keeps (quiet r) (getCS c)"
proof -
  show "keeps (quiet r) (getPF p)"
    unfolding getPF_def by (intro quiet.keeps_rules keeps_intro) (auto split: rclass.split intro: quiet.keeps_rules)
  show "keeps (quiet r) (getCS c)"
    by (auto simp: keeps_def quiet_def getCS_def split: option.split)
qed

lemma quiet_setSP [keeps_intro]:
  "keeps (quiet r) (getSP s)" "keeps (quiet r) (setSP s y)" "keeps (quiet r) (newCS c)"
  by (auto simp: keeps_def quiet_def getSP_def setSP_def newCS_def run_basic data_free_def split: option.splits)

lemma quiet_modPF [keeps_intro]: "keeps (quiet r) (modPF p f)"
  unfolding modPF_def by (rule keeps_quiet_modR) (auto split: rclass.split)

lemma quiet_session [keeps_intro]: "keeps (quiet r) (ProxifierDownstreamer_session E p s rep)"
  unfolding ProxifierDownstreamer_session_def killSession_def updateWallet_def
  by (intro quiet.keeps_rules keeps_intro) (simp add: data_call_def)

lemma quiet_request: "keeps (quiet r) (ProxifierUpstreamer_request E r')"
  unfolding ProxifierUpstreamer_request_def getToken_def
  by (intro quiet.keeps_rules keeps_intro data_call_simps data_call_client keeps_client_choices)

lemma prepend_Ret:
  assumes "sb_ok b" "prepend xs (of_nat (length xs)) b = Ret b'"
  shows "sb_ok b'" "contents b' = take (length xs mod 256) xs @ contents b"
proof -
  let ?n = "of_nat (length xs) :: 8 word"
  have n: "unat ?n = length xs mod 256" by (simp add: unat_of_nat)
  then have l: "unat ?n \<le> length xs" by simp
  have "\<not> 35840 < unat ?n + length (contents b)" using prepend_full[OF assms(1)] assms(2) by auto
  with prepend_ok[OF assms(1) l] assms(2) n
  show "sb_ok b'" "contents b' = take (length xs mod 256) xs @ contents b" by auto
qed

text \<open>A start that returns, in parts: the first read, the request, and the rest.\<close>

definition start_rest :: "env \<Rightarrow> rid \<Rightarrow> rid \<Rightarrow> client_request \<times> recommendation \<Rightarrow> unit M" where
  "start_rest E r p = (\<lambda>(req, rec). case packRequest E req (unat HEADROOM) of
        Inl e \<Rightarrow> throw e
      | Inr bytes \<Rightarrow> bindM (getR r) (\<lambda>x.
          bindM (liftO (prepend bytes (of_nat (length bytes)) (buf x))) (\<lambda>b.
          seqM (modBuf r (\<lambda>_. b))
          (bindM (getPF p) (\<lambda>p.
          seqM (sockConnect E (dstSock x) r (pf_proxyAddr p) (rec_tfoPayload rec) (rec_earlyData rec))
          (StreamReactor_start E r))))))"

lemma start_split: "ProxifierUpstreamer_start E r = bindM (getR r) (\<lambda>x. bindM (getXU r) (\<lambda>d.
     bindM (tryM (sockRecv E (srcSock x) r) (\<lambda>e. case e of RescheduleException _ _ \<Rightarrow> ret 0 | _ \<Rightarrow> throw e)) (\<lambda>_.
     bindM (ProxifierUpstreamer_request E r) (start_rest E r (xu_proxifier d)))))"
  by (simp add: ProxifierUpstreamer_start_def start_rest_def)

lemma start_parts:
  fixes w :: world
  assumes "reactors w r = Some x" "ProxifierUpstreamer_start E r w = (Ret (), w')"
  obtains p a v where "ProxifierUpstreamer_request E r (snd (sockRecv E (srcSock x) r w)) = (Ret a, v)"
    "start_rest E r p a v = (Ret (), w')"
proof -
  let ?m = "tryM (sockRecv E (srcSock x) r) (\<lambda>e. case e of RescheduleException _ _ \<Rightarrow> ret 0 | _ \<Rightarrow> throw e)"
  have m: "v = snd (sockRecv E (srcSock x) r w)" if "?m w = (Ret n, v)" for n v
    using that by (auto simp: tryM_def run_basic split: prod.splits outcome.splits exn.splits)
  from assms(2) have run: "bindM (getXU r) (\<lambda>d. bindM ?m (\<lambda>_. bindM (ProxifierUpstreamer_request E r)
      (start_rest E r (xu_proxifier d)))) w = (Ret (), w')"
    by (simp add: start_split bindM_def[of "getR r"] run_getR(1)[OF assms(1)])
  obtain d k where d: "getXU r w = (Ret d, k)"
    and k: "bindM ?m (\<lambda>_. bindM (ProxifierUpstreamer_request E r) (start_rest E r (xu_proxifier d))) k = (Ret (), w')"
    by (rule run_bind_Ret[OF run])
  have "k = w" using d assms(1) by (auto simp: getXU_def bindM_def run_getR run_basic split: rclass.splits)
  obtain n u where "?m k = (Ret n, u)"
    and u: "bindM (ProxifierUpstreamer_request E r) (start_rest E r (xu_proxifier d)) u = (Ret (), w')"
    by (rule run_bind_Ret[OF k])
  with m \<open>k = w\<close> have "u = snd (sockRecv E (srcSock x) r w)" by blast
  with u show thesis by (auto elim: run_bind_Ret intro: that)
qed

lemma rest_parts:
  fixes v :: world
  assumes "reactors v r = Some x" "start_rest E r p (req, rec) v = (Ret (), w')"
  obtains bytes b a where "packRequest E req (unat HEADROOM) = Inr bytes"
    "prepend bytes (of_nat (length bytes)) (buf x) = Ret b"
    "seqM (sockConnect E (dstSock x) r a (rec_tfoPayload rec) (rec_earlyData rec))
       (StreamReactor_start E r) (v\<lparr>reactors := (reactors v)(r \<mapsto> x\<lparr>buf := b\<rparr>)\<rparr>) = (Ret (), w')"
proof -
  from assms(2) obtain bytes where bytes: "packRequest E req (unat HEADROOM) = Inr bytes"
    by (auto simp: start_rest_def run_basic split: sum.splits)
  with assms have run: "bindM (liftO (prepend bytes (of_nat (length bytes)) (buf x))) (\<lambda>b.
          seqM (modBuf r (\<lambda>_. b))
          (bindM (getPF p) (\<lambda>p.
          seqM (sockConnect E (dstSock x) r (pf_proxyAddr p) (rec_tfoPayload rec) (rec_earlyData rec))
          (StreamReactor_start E r)))) v = (Ret (), w')"
    by (simp add: start_rest_def bindM_def[of "getR r"] run_getR)
  obtain b k where "liftO (prepend bytes (of_nat (length bytes)) (buf x)) v = (Ret b, k)"
    and k: "seqM (modBuf r (\<lambda>_. b)) (bindM (getPF p) (\<lambda>p.
          seqM (sockConnect E (dstSock x) r (pf_proxyAddr p) (rec_tfoPayload rec) (rec_earlyData rec))
          (StreamReactor_start E r))) k = (Ret (), w')"
    by (rule run_bind_Ret[OF run])
  then have b: "prepend bytes (of_nat (length bytes)) (buf x) = Ret b" "k = v" by (auto simp: run_basic)
  let ?v = "v\<lparr>reactors := (reactors v)(r \<mapsto> x\<lparr>buf := b\<rparr>)\<rparr>"
  have "modBuf r (\<lambda>_. b) v = (Ret (), ?v)" using assms(1) by (simp add: modBuf_def run_modR)
  with k b have rest: "bindM (getPF p) (\<lambda>p.
          seqM (sockConnect E (dstSock x) r (pf_proxyAddr p) (rec_tfoPayload rec) (rec_earlyData rec))
          (StreamReactor_start E r)) ?v = (Ret (), w')" by (simp add: run_seq)
  obtain q k2 where q: "getPF p ?v = (Ret q, k2)"
    and k2: "seqM (sockConnect E (dstSock x) r (pf_proxyAddr q) (rec_tfoPayload rec) (rec_earlyData rec))
          (StreamReactor_start E r) k2 = (Ret (), w')"
    by (rule run_bind_Ret[OF rest])
  have "k2 = ?v"
    using q by (auto simp: getPF_def getR_def bindM_def run_basic split: option.splits rclass.splits)
  with k2 bytes b show thesis by (intro that) auto
qed

lemma connect_and_start_moved:
  fixes w :: world
  assumes "io_ok E" "reactors w r = Some x" "r < nextRid w"
    "seqM (sockConnect E (dstSock x) r a m e) (StreamReactor_start E r) w = (Ret (), w')"
  shows "moved P r w w'" "frame w w'"
proof -
  obtain v where v: "sockConnect E (dstSock x) r a m e w = (Ret (), v)" "StreamReactor_start E r v = (Ret (), w')"
    by (rule run_seq_Ret[OF assms(4)])
  have "moved P r w v" using sockConnect_moved[OF assms(1,2), of P a m e] v(1) by simp
  moreover have "frame w v" using keepsD[OF frame_socket(4), of w] v(1) by (metis snd_conv)
  moreover have "moved P r v w'" using keepsD[OF relayed_start[of r E r], of v] v(2) by (simp add: relayed_moved)
  moreover have "frame v w'" using keepsD[OF frame_stream(2), of v] v(2) by (metis snd_conv)
  ultimately show "moved P r w w'" "frame w w'" by (auto intro: moved_trans fr.R_trans)
qed

lemma start_moves:
  fixes w :: world
  assumes io: "io_ok E" and x: "reactors w r = Some x" "sb_ok (buf x)" "r < nextRid w"
    and run: "ProxifierUpstreamer_start E r w = (Ret (), w')"
  obtains req bytes x' where "packRequest E req (unat HEADROOM) = Inr bytes" "reactors w' r = Some x'"
    "sb_ok (buf x')" "sock_after (srcSock x) (srcSock x')" "sock_after (dstSock x) (dstSock x')"
    "take (length bytes mod 256) bytes @ contents (buf x) @ data_in (srcSock x) (new_calls w w') =
       data_out (dstSock x) (new_calls w w') @ contents (buf x')"
    "frame w w'"
proof -
  let ?u = "snd (sockRecv E (srcSock x) r w)"
  obtain p req rec v where req: "ProxifierUpstreamer_request E r ?u = (Ret (req, rec), v)"
    "start_rest E r p (req, rec) v = (Ret (), w')"
    using start_parts[OF x(1) run] by (metis surj_pair)
  have "read_law (srcSock x) r (sockRecv E (srcSock x) r)" using sockRecv_law[OF io] by simp
  with x(1,2) obtain b h where h: "hist ?u = hist w @ h" "reactors ?u = (reactors w)(r \<mapsto> x\<lparr>buf := b\<rparr>)" "sb_ok b"
    "contents b = contents (buf x) @ data_in (srcSock x) h" "\<forall>d. data_out d h = []"
    unfolding read_law_def by (metis prod.collapse)
  from keepsD[OF quiet_request[of r E r], of ?u] req(1) obtain k where hk: "hist v = hist ?u @ k" "data_free k"
    and q: "\<exists>y. reactors v r = Some y \<and> buf y = b \<and> sock_after (srcSock x) (srcSock y) \<and> sock_after (dstSock x) (dstSock y)"
    using h(2) by (auto simp: quiet_def)
  then obtain y where y: "reactors v r = Some y" "buf y = b" "sock_after (srcSock x) (srcSock y)"
    "sock_after (dstSock x) (dstSock y)" by blast
  obtain bytes b2 a where rest: "packRequest E req (unat HEADROOM) = Inr bytes"
    "prepend bytes (of_nat (length bytes)) (buf y) = Ret b2"
    "seqM (sockConnect E (dstSock y) r a (rec_tfoPayload rec) (rec_earlyData rec))
       (StreamReactor_start E r) (v\<lparr>reactors := (reactors v)(r \<mapsto> y\<lparr>buf := b2\<rparr>)\<rparr>) = (Ret (), w')"
    by (rule rest_parts[OF y(1) req(2)])
  let ?v = "v\<lparr>reactors := (reactors v)(r \<mapsto> y\<lparr>buf := b2\<rparr>)\<rparr>"
  have b2: "sb_ok b2" "contents b2 = take (length bytes mod 256) bytes @ contents b"
    using prepend_Ret[of b bytes b2] h(3) y(2) rest(2) by simp_all
  have fr1: "frame w v"
    using keepsD[OF frame_socket(2)[of E "srcSock x" r], of w] keepsD[OF frame_request[of E r], of ?u] req(1)
    by (auto intro: fr.R_trans)
  have "frame v ?v" using keepsD[OF frame_modBuf[of r "\<lambda>_. b2"], of v] y(1) by (simp add: modBuf_def run_modR)
  moreover have v: "reactors ?v r = Some (y\<lparr>buf := b2\<rparr>)" "r < nextRid ?v"
    using x(3) frame_nextRid[OF fr1] by auto
  ultimately have mv: "moved (\<lambda>_. True) r ?v w'" and fr2: "frame ?v w'" "frame w w'"
    using connect_and_start_moved(1)[where P = "\<lambda>_. True", OF io v] connect_and_start_moved(2)[OF io v] rest(3) fr1 by (auto intro: fr.R_trans)
  obtain x' where x': "reactors w' r = Some x'" "sb_ok (buf x')"
    "sock_after (srcSock x) (srcSock x')" "sock_after (dstSock x) (dstSock x')"
    "contents b2 @ data_in (srcSock x) (new_calls ?v w') = data_out (dstSock x) (new_calls ?v w') @ contents (buf x')"
    using mv[unfolded moved_def, rule_format, of "y\<lparr>buf := b2\<rparr>" "srcSock x" "dstSock x"] v(1) b2(1) y
    by auto
  have "new_calls w w' = h @ k @ new_calls ?v w'"
    using fr2(1) hk h(1) by (auto simp: new_calls_def frame_def hist_grows_def prefix_def)
  with x'(5) b2(2) h(4,5) data_free_no_data[OF hk(2)]
  have "take (length bytes mod 256) bytes @ contents (buf x) @ data_in (srcSock x) (new_calls w w') =
       data_out (dstSock x) (new_calls w w') @ contents (buf x')" by simp
  with rest(1) x' fr2(2) show thesis by (intro that)
qed

section \<open>A connection from its start on\<close>

text \<open>Any number of events in a row for the same upstreamer, each run by the poller.\<close>

fun upstream_events :: "env \<Rightarrow> rid \<Rightarrow> nat \<Rightarrow> unit M" where
  "upstream_events E r 0 = ret ()"
| "upstream_events E r (Suc n) = seqM (Poller_runAs E r (ProxifierUpstreamer_process E r)) (upstream_events E r n)"

lemma piped_events: "io_ok E \<Longrightarrow> keeps (piped no_tls r) (upstream_events E r n)"
  by (induction n) (auto intro: pi.keeps_rules piped_runAs piped_process)

lemma client_stream:
  fixes w :: world
  assumes io: "io_ok E" and x: "reactors w r = Some x" "sb_ok (buf x)" "sk_tls (dstSock x) = None" "r < nextRid w"
    and start: "ProxifierUpstreamer_start E r w = (Ret (), v)" and run: "upstream_events E r n v = (res, w')"
  obtains req bytes x' where "packRequest E req (unat HEADROOM) = Inr bytes" "reactors w' r = Some x'"
    "take (length bytes mod 256) bytes @ contents (buf x) @ data_in (srcSock x) (new_calls w w') =
       data_out (dstSock x) (new_calls w w') @ contents (buf x')"
proof -
  obtain req bytes y where y: "packRequest E req (unat HEADROOM) = Inr bytes" "reactors v r = Some y"
    "sb_ok (buf y)" "sock_after (srcSock x) (srcSock y)" "sock_after (dstSock x) (dstSock y)"
    "take (length bytes mod 256) bytes @ contents (buf x) @ data_in (srcSock x) (new_calls w v) =
       data_out (dstSock x) (new_calls w v) @ contents (buf y)" "frame w v"
    by (rule start_moves[OF io x(1,2,4) start])
  have "piped no_tls r v w'" using keepsD[OF piped_events[OF io, of r n], of v] run by simp
  then have fr: "frame v w'" and mv: "moved no_tls r v w'"
    using x(4) frame_nextRid[OF y(7)] by (auto simp: piped_def)
  obtain x' where "reactors w' r = Some x'"
    "contents (buf y) @ data_in (srcSock x) (new_calls v w') = data_out (dstSock x) (new_calls v w') @ contents (buf x')"
    using mv[unfolded moved_def, rule_format, of y "srcSock x" "dstSock x"] y x(3) by auto
  with y show thesis
    by (intro that[of req bytes x']) (simp_all add: frame_calls[OF y(7) fr], metis append.assoc)
qed

end
