(* ===== verification/StreamInv.thy ===== *)
theory StreamInv
  imports Relay
begin

text \<open>
  The invariant of a stream reactor: it is in state SS_SENDING exactly when its buffer holds
  bytes. With it, no read is ever issued for zero bytes and no write with nothing to write, so
  that a transfer of zero bytes can only mean that the peer has closed the connection, which is
  how \<open>process\<close> takes it.
\<close>

definition stream_ok :: "rid \<Rightarrow> world \<Rightarrow> bool" where
  "stream_ok r w \<longleftrightarrow> (\<exists>x. reactors w r = Some x \<and> sb_ok (buf x) \<and>
     (streamState x = SS_SENDING \<longleftrightarrow> contents (buf x) \<noteq> []))"

section \<open>Calls that ask for something\<close>

definition sized_call :: "call \<Rightarrow> bool" where
  "sized_call c \<longleftrightarrow> (case c of Recv _ n \<Rightarrow> 0 < n | PR_Read _ n \<Rightarrow> 0 < n
     | Send _ xs \<Rightarrow> xs \<noteq> [] | PR_Write _ xs \<Rightarrow> xs \<noteq> [] | _ \<Rightarrow> True)"

definition sized :: "world \<Rightarrow> world \<Rightarrow> bool" where
  "sized w w' \<longleftrightarrow> hist_grows w w' \<and> (\<forall>e \<in> set (new_calls w w'). sized_call (fst e))"

interpretation sized: world_preorder sized
proof unfold_locales
  show "sized w w" for w by (simp add: sized_def hg.R_refl new_calls_def)
  show "sized u w" if "sized u v" "sized v w" for u v w
    using that new_calls_trans[of u v w] by (simp add: sized_def ball_Un) (blast intro: hg.R_trans)
qed

lemma sized_call_if_no_data: "\<not> data_call c \<Longrightarrow> sized_call c"
  by (auto simp: data_call_def sized_call_def split: call.splits)

lemma sized_data_free: "hist w' = hist w @ h \<Longrightarrow> data_free h \<Longrightarrow> sized w w'"
  by (auto simp: sized_def hist_grows_def data_free_def intro: sized_call_if_no_data)

lemma sized_if_quiet: "keeps (quiet r) m \<Longrightarrow> keeps sized m"
  by (auto simp: keeps_def quiet_def intro: sized_data_free)

lemma sized_if_low: "keeps below_nss m \<Longrightarrow> keeps sized m"
  by (auto simp: keeps_def below_nss_def intro: sized_data_free)

lemma sized_basic [keeps_intro]:
  "sized_call c \<Longrightarrow> keeps sized (extcall E c)" "keeps sized (getR r)" "keeps sized (modR r f)"
  "keeps sized (getT t)" "keeps sized (modBuf r g)" "keeps sized (set_streamState r s)"
  by (auto simp: keeps_def sized_def exec_simps hist_grows_def new_calls_def getR_def modR_def
      getT_def modBuf_def set_streamState_def split: option.split)

lemma sized_poller [keeps_intro]:
  "keeps sized (Poller_add E r fd ev)" "keeps sized (close_srcSock E r)"
  "keeps sized (close_dstSock E r)" "keeps sized (deactivate E r)"
  by (rule sized_if_quiet, rule keeps_intro)+

lemma sized_low [keeps_intro]:
  "keeps sized (run_callbacks E t cs)" "keeps sized (PR_SetError e)" "keeps sized (tlsHandleErr fd)"
  by (rule sized_if_low, rule keeps_intro)+

lemma sized_nss [keeps_intro]: "sized_call c \<Longrightarrow> keeps sized (nss E t c)"
  unfolding nss_def by (intro sized.keeps_rules keeps_intro)

lemma sized_buf_receive [keeps_intro]: "keeps sized (buf_receive r xs n)"
  unfolding buf_receive_def by (intro sized.keeps_rules keeps_intro)

lemma sockRecv_sized:
  assumes "reactors w r = Some x" "0 < unat (availSize (buf x))"
  shows "sized w (snd (sockRecv E s r w))"
proof (cases "sk_tls s")
  case None
  let ?m = "\<lambda>x. bindM (extcall E (Recv (sk_fd s) (unat (availSize (buf x))))) (\<lambda>bytes.
     if c_rc bytes < 0 then
       (if c_errno bytes = EAGAIN \<or> c_errno bytes = EWOULDBLOCK
        then throw (RescheduleException (sk_fd s) IN_EVENTS)
        else if c_errno bytes = EPIPE then ret 0
        else throw (SystemError (c_errno bytes)))
     else seqM (buf_receive r (c_data bytes) (c_rc bytes)) (ret (c_rc bytes)))"
  have "keeps sized (?m x)"
    by (intro sized.keeps_rules keeps_intro) (use assms in \<open>simp add: sized_call_def\<close>)
  then have "sized w (snd (?m x w))" by (rule keepsD)
  with None show ?thesis
    by (simp add: sockRecv_def tcpRecv_def run_bind(1)[of "getR r" w x w, OF run_getR(1)[OF assms(1)]])
next
  case (Some t)
  let ?m = "\<lambda>x. bindM (nss E t (PR_Read t (unat (availSize (buf x))))) (\<lambda>rc.
     if c_rc rc < 0
     then bindM (getT t) (\<lambda>x. seqM (tlsHandleErr (readFD x)) (seqM (buf_receive r [] 0) (ret 0)))
     else seqM (buf_receive r (c_data rc) (c_rc rc)) (ret (c_rc rc)))"
  have "keeps sized (?m x)"
    by (intro sized.keeps_rules keeps_intro) (use assms in \<open>simp add: sized_call_def\<close>)
  then have "sized w (snd (?m x w))" by (rule keepsD)
  with Some show ?thesis
    by (simp add: sockRecv_def tlsRead_def run_bind(1)[of "getR r" w x w, OF run_getR(1)[OF assms(1)]])
qed

lemma sockSend_sized:
  assumes "reactors w r = Some x" "sb_ok (buf x)" "contents (buf x) \<noteq> []"
  shows "sized w (snd (sockSend E s r w))"
proof (cases "sk_tls s")
  case None
  let ?m = "\<lambda>xs. bindM (extcall E (Send (sk_fd s) xs)) (\<lambda>bytes.
     if c_rc bytes < 0 then
       (if c_errno bytes = EAGAIN \<or> c_errno bytes = EWOULDBLOCK
        then throw (RescheduleException (sk_fd s) OUT_EVENTS)
        else if c_errno bytes = EPIPE then ret 0
        else throw (SystemError (c_errno bytes)))
     else seqM (modBuf r (unuse (word_of_int (c_rc bytes)))) (ret (c_rc bytes)))"
  have "keeps sized (?m (contents (buf x)))"
    by (intro sized.keeps_rules keeps_intro) (use assms in \<open>simp add: sized_call_def\<close>)
  then have "sized w (snd (?m (contents (buf x)) w))" by (rule keepsD)
  with None show ?thesis
    by (simp add: sockSend_def tcpSend_def
        run_bind(1)[of "buffered r" w _ w, OF buffered_run[OF assms(1,2)]])
next
  case (Some t)
  let ?m = "\<lambda>xs. bindM (nss E t (PR_Write t xs)) (\<lambda>rc.
     bindM (if c_rc rc < 0
            then bindM (getT t) (\<lambda>x. seqM (tlsHandleErr (writeFD x)) (ret 0))
            else ret (c_rc rc)) (\<lambda>bytes.
     seqM (modBuf r (unuse (word_of_int bytes))) (ret bytes)))"
  have "keeps sized (?m (contents (buf x)))"
    by (intro sized.keeps_rules keeps_intro) (use assms in \<open>simp add: sized_call_def\<close>)
  then have "sized w (snd (?m (contents (buf x)) w))" by (rule keepsD)
  with Some show ?thesis
    by (simp add: sockSend_def tlsWrite_def
        run_bind(1)[of "buffered r" w _ w, OF buffered_run[OF assms(1,2)]])
qed

section \<open>The invariant is kept\<close>

text \<open>What holds between the state before and after: the calls are sized, the state is sound.\<close>

definition stream_step :: "rid \<Rightarrow> world \<Rightarrow> world \<Rightarrow> bool" where
  "stream_step r w w' \<longleftrightarrow> (stream_ok r w \<longrightarrow> stream_ok r w' \<and> sized w w')"

interpretation ss: world_preorder "stream_step r"
  by unfold_locales (auto simp: stream_step_def sized.R_refl intro: sized.R_trans)

lemma quiet_stream_step: "keeps (quiet r) m \<Longrightarrow> keeps (stream_step r) m"
proof (rule keepsI)
  fix w assume q: "keeps (quiet r) m"
  have "sized w (snd (m w))" using sized_if_quiet[OF q] by (rule keepsD)
  with keepsD[OF q, of w] show "stream_step r w (snd (m w))"
    unfolding stream_step_def stream_ok_def quiet_def by fastforce
qed

lemma keeps_ss_quiet [keeps_intro]:
  "keeps (stream_step r) (getR r')" "keeps (stream_step r) (Poller_add E r' fd ev)"
  "keeps (stream_step r) (close_srcSock E r')" "keeps (stream_step r) (close_dstSock E r')"
  "keeps (stream_step r) (deactivate E r')"
  by (rule quiet_stream_step, rule keeps_intro)+

lemma send_stream_step:
  assumes "io_ok E" "reactors w r = Some x" "sb_ok (buf x)" "streamState x = SS_SENDING"
    "contents (buf x) \<noteq> []" "sockSend E (dstSock x) r w = (res, w')"
  obtains b where "reactors w' r = Some (x\<lparr>buf := b\<rparr>)" "sb_ok b" "sized w w'"
    "\<And>n. res = Ret n \<Longrightarrow> n \<noteq> 0 \<or> contents b = contents (buf x)"
    "(\<And>n. res \<noteq> Ret n) \<Longrightarrow> contents b = contents (buf x)"
proof -
  from io.send_law[OF assms(1) sock_after_refl, of "dstSock x" r] assms(2,3,6)
  obtain b h where b: "reactors w' = (reactors w)(r \<mapsto> x\<lparr>buf := b\<rparr>)" "sb_ok b"
    "contents (buf x) = data_out (dstSock x) h @ contents b"
    "case res of Ret n \<Rightarrow> n = int (length (data_out (dstSock x) h)) | _ \<Rightarrow> data_out (dstSock x) h = []"
    unfolding write_law_def by blast
  have "sized w w'"
    using sockSend_sized[OF assms(2,3,5), of E "dstSock x"] assms(6) by simp
  with b show thesis
    by (intro that[of b]) (auto split: outcome.splits)
qed

lemma sending_stream_step:
  assumes "io_ok E" "reactors w r = Some x" "sb_ok (buf x)" "streamState x = SS_SENDING"
    "contents (buf x) \<noteq> []"
  shows "stream_ok r (snd (StreamReactor_sending E r w)) \<and> sized w (snd (StreamReactor_sending E r w))"
proof -
  obtain res w1 where run: "sockSend E (dstSock x) r w = (res, w1)" by fastforce
  from send_stream_step[OF assms run] obtain b where b: "reactors w1 r = Some (x\<lparr>buf := b\<rparr>)" "sb_ok b"
    "sized w w1" "\<And>n. res = Ret n \<Longrightarrow> n \<noteq> 0 \<or> contents b = contents (buf x)"
    "(\<And>n. res \<noteq> Ret n) \<Longrightarrow> contents b = contents (buf x)" by blast
  have same: "stream_ok r w1" if "contents b \<noteq> []"
    using b that assms(4) by (simp add: stream_ok_def)
  have tail: "stream_ok r (snd (m w1)) \<and> sized w (snd (m w1))"
    if "contents b \<noteq> []" "keeps (stream_step r) m" for m :: "unit M"
    using keepsD[OF that(2), of w1] same[OF that(1)] b(3)
    by (auto simp: stream_step_def intro: sized.R_trans)
  have eq: "StreamReactor_sending E r w = (case res of
       Ret bytes \<Rightarrow> (if bytes = 0 then seqM (close_srcSock E r) (close_dstSock E r) w1
          else if usedSize b = 0
          then seqM (set_streamState r SS_RECEIVING) (Poller_add E r (sk_fd (srcSock x)) IN_EVENTS) w1
          else Poller_add E r (sk_fd (dstSock x)) OUT_EVENTS w1)
     | Throw e \<Rightarrow> (Throw e, w1) | Abort e \<Rightarrow> (Abort e, w1))"
    using run b(1) by (simp add: StreamReactor_sending_def bindM_def run_getR(1)[OF assms(2)]
        run_getR split: outcome.split)
  show ?thesis
  proof (cases res)
    case (Ret n)
    show ?thesis
    proof (cases "n \<noteq> 0 \<and> usedSize b = 0")
      case True
      let ?w2 = "w1\<lparr>reactors := (reactors w1)(r \<mapsto> x\<lparr>buf := b, streamState := SS_RECEIVING\<rparr>)\<rparr>"
      have set: "set_streamState r SS_RECEIVING w1 = (Ret (), ?w2)"
        using b(1) by (simp add: set_streamState_def run_modR)
      have ok: "stream_ok r ?w2" and s2: "sized w1 ?w2"
        using True b(2) by (auto simp: stream_ok_def usedSize_0_iff sized_def hist_grows_def new_calls_def)
      have "stream_step r ?w2 (snd (Poller_add E r (sk_fd (srcSock x)) IN_EVENTS ?w2))"
        by (rule keepsD) (rule keeps_intro)
      with ok s2 b(3) True Ret show ?thesis
        by (auto simp: eq seqM_def bindM_def set stream_step_def intro: sized.R_trans)
    next
      case False
      then have "contents b \<noteq> []"
        using b(4)[OF Ret] assms(5) by (auto simp: usedSize_0_iff)
      note t = tail[OF this]
      from False Ret show ?thesis
        by (auto simp: eq intro!: t ss.keeps_rules keeps_intro)
    qed
  qed (use eq b same assms(5) in auto)
qed

lemma recv_stream_step:
  assumes "io_ok E" "reactors w r = Some x" "sb_ok (buf x)" "contents (buf x) = []"
    "sockRecv E (srcSock x) r w = (res, w')"
  obtains b where "reactors w' r = Some (x\<lparr>buf := b\<rparr>)" "sb_ok b" "sized w w'"
    "\<And>n. res = Ret n \<Longrightarrow> (n \<noteq> 0 \<longleftrightarrow> contents b \<noteq> [])" "(\<And>n. res \<noteq> Ret n) \<Longrightarrow> contents b = []"
proof -
  from io.recv_law[OF assms(1) sock_after_refl, of "srcSock x" r] assms(2,3,5)
  obtain b h where b: "reactors w' = (reactors w)(r \<mapsto> x\<lparr>buf := b\<rparr>)" "sb_ok b"
    "contents b = contents (buf x) @ data_in (srcSock x) h"
    "case res of Ret n \<Rightarrow> n = int (length (data_in (srcSock x) h)) | _ \<Rightarrow> data_in (srcSock x) h = []"
    unfolding read_law_def by blast
  have "sized w w'"
    using sockRecv_sized[OF assms(2) avail_if_empty[OF assms(3,4)], of E "srcSock x"] assms(5) by simp
  with b assms(4) show thesis
    by (intro that[of b]) (auto split: outcome.splits)
qed

lemma closing_stream_step:
  fixes E :: env
  assumes "reactors w r = Some x" "sb_ok (buf x)" "streamState x = SS_RECEIVING" "contents (buf x) = []"
  defines "m \<equiv> seqM (close_srcSock E r) (bindM (getR r) (\<lambda>x.
         if usedSize (buf x) = 0 then close_dstSock E r
         else seqM (set_streamState r SS_SENDING) (StreamReactor_sending E r)))"
  shows "stream_ok r (snd (m w)) \<and> sized w (snd (m w))"
proof -
  obtain cr v where c: "close_srcSock E r w = (cr, v)" by fastforce
  have q: "quiet r w v"
    using keepsD[of "quiet r" "close_srcSock E r" w] c by (auto intro: keeps_intro)
  then obtain y where y: "reactors v r = Some y" "buf y = buf x" "streamState y = SS_RECEIVING"
    using assms(1,3) by (auto simp: quiet_def)
  have v: "stream_ok r v" "sized w v"
    using y assms(2,4) q by (auto simp: stream_ok_def quiet_def intro: sized_data_free)
  have "m w = (case cr of Ret _ \<Rightarrow> close_dstSock E r v | Throw e \<Rightarrow> (Throw e, v) | Abort e \<Rightarrow> (Abort e, v))"
    using c y assms(4) by (auto simp: m_def seqM_def bindM_def run_getR usedSize_0_iff split: outcome.split)
  moreover have "stream_step r v (snd (close_dstSock E r v))"
    by (rule keepsD) (rule keeps_intro)
  ultimately show ?thesis
    using v by (auto simp: stream_step_def intro: sized.R_trans split: outcome.split)
qed

lemma receiving_stream_step:
  assumes "io_ok E" "reactors w r = Some x" "sb_ok (buf x)" "streamState x = SS_RECEIVING"
    "contents (buf x) = []"
  shows "stream_ok r (snd (StreamReactor_receiving E r w)) \<and> sized w (snd (StreamReactor_receiving E r w))"
proof -
  obtain res w1 where run: "sockRecv E (srcSock x) r w = (res, w1)" by fastforce
  from recv_stream_step[OF assms(1-3,5) run] obtain b where b: "reactors w1 r = Some (x\<lparr>buf := b\<rparr>)"
    "sb_ok b" "sized w w1" "\<And>n. res = Ret n \<Longrightarrow> (n \<noteq> 0 \<longleftrightarrow> contents b \<noteq> [])"
    "(\<And>n. res \<noteq> Ret n) \<Longrightarrow> contents b = []" by blast
  let ?closing = "seqM (close_srcSock E r) (bindM (getR r) (\<lambda>x.
         if usedSize (buf x) = 0 then close_dstSock E r
         else seqM (set_streamState r SS_SENDING) (StreamReactor_sending E r)))"
  have eq: "StreamReactor_receiving E r w = (case res of
       Ret bytes \<Rightarrow> (if bytes = 0 then ?closing w1
          else seqM (set_streamState r SS_SENDING) (StreamReactor_sending E r) w1)
     | Throw e \<Rightarrow> (Throw e, w1) | Abort e \<Rightarrow> (Abort e, w1))"
    using run by (simp add: StreamReactor_receiving_def bindM_def[of "getR r"] bindM_def[of "sockRecv E s r" for s]
        run_getR(1)[OF assms(2)] split: outcome.split)
  have ok1: "stream_ok r w1" if "contents b = []"
    using b that assms(4) by (simp add: stream_ok_def)
  show ?thesis
  proof (cases res)
    case (Ret n)
    show ?thesis
    proof (cases "n = 0")
      case True
      with Ret b(4) have e: "contents b = []" by blast
      then have "stream_ok r (snd (?closing w1)) \<and> sized w1 (snd (?closing w1))"
        using b(2) assms(4) by (intro closing_stream_step[OF b(1)]) simp_all
      with Ret True b(3) show ?thesis
        by (auto simp: eq intro: sized.R_trans)
    next
      case False
      let ?x = "x\<lparr>buf := b, streamState := SS_SENDING\<rparr>"
      let ?w2 = "w1\<lparr>reactors := (reactors w1)(r \<mapsto> ?x)\<rparr>"
      have set: "set_streamState r SS_SENDING w1 = (Ret (), ?w2)"
        using b(1) by (simp add: set_streamState_def run_modR)
      have "sized w1 ?w2" by (simp add: sized_def hist_grows_def new_calls_def)
      with False Ret b(2,3) b(4)[OF Ret] sending_stream_step[OF assms(1), of ?w2 r ?x] show ?thesis
        by (auto simp: eq seqM_def bindM_def set intro: sized.R_trans)
    qed
  qed (use eq b ok1 in auto)
qed

lemma process_stream_step: "io_ok E \<Longrightarrow> keeps (stream_step r) (StreamReactor_process E r)"
proof (rule keepsI)
  fix w assume E: "io_ok E"
  show "stream_step r w (snd (StreamReactor_process E r w))"
    unfolding stream_step_def
  proof
    assume "stream_ok r w"
    then obtain x where x: "reactors w r = Some x" "sb_ok (buf x)"
      "streamState x = SS_SENDING \<longleftrightarrow> contents (buf x) \<noteq> []"
      unfolding stream_ok_def by blast
    have eq: "StreamReactor_process E r w = (case streamState x of
        SS_RECEIVING \<Rightarrow> StreamReactor_receiving E r w | SS_SENDING \<Rightarrow> StreamReactor_sending E r w)"
      using x(1) by (simp add: StreamReactor_process_def bindM_def run_getR split: StreamState.split)
    show "stream_ok r (snd (StreamReactor_process E r w)) \<and> sized w (snd (StreamReactor_process E r w))"
    proof (cases "streamState x")
      case SS_RECEIVING
      with x eq show ?thesis using receiving_stream_step[OF E x(1,2)] by simp
    next
      case SS_SENDING
      with x eq show ?thesis using sending_stream_step[OF E x(1,2)] by simp
    qed
  qed
qed

lemma stream_step_runAs:
  "keeps (stream_step r) m \<Longrightarrow> keeps (stream_step r) (Poller_runAs E r' m)"
  unfolding Poller_runAs_def
  by (intro ss.keeps_rules) (auto split: exn.split intro: keeps_intro)

lemma pump_stream_step: "io_ok E \<Longrightarrow> keeps (stream_step r) (pump E r n)"
  by (induction n) (auto intro: ss.keeps_rules stream_step_runAs process_stream_step)

text \<open>\<open>start\<close> puts the reactor into the state that fits its buffer.\<close>

lemma start_stream_ok:
  assumes "reactors w r = Some x" "sb_ok (buf x)"
  shows "stream_ok r (snd (StreamReactor_start E r w))"
proof -
  let ?s = "if usedSize (buf x) > 0 then SS_SENDING else SS_RECEIVING"
  let ?w = "w\<lparr>reactors := (reactors w)(r \<mapsto> x\<lparr>streamState := ?s\<rparr>)\<rparr>"
  let ?add = "\<lambda>s. case s of SS_RECEIVING \<Rightarrow> Poller_add E r (sk_fd (srcSock x)) IN_EVENTS
         | SS_SENDING \<Rightarrow> Poller_add E r (sk_fd (dstSock x)) OUT_EVENTS"
  have eq: "StreamReactor_start E r w = ?add ?s ?w"
    using assms(1) by (simp add: StreamReactor_start_def bindM_def seqM_def run_getR set_streamState_def
        run_modR Let_def)
  have "stream_ok r ?w"
    using assms(2) usedSize_0_iff[of "buf x"] by (auto simp: stream_ok_def word_neq_0_conv)
  moreover have "stream_step r ?w (snd (?add ?s ?w))"
    by (rule keepsD) (auto intro: keeps_intro)
  ultimately show ?thesis by (simp add: eq stream_step_def)
qed

end
