(* ===== verification/ProxyGate.thy ===== *)
theory ProxyGate
  imports ProxyConn
begin

text \<open>
  The proxy opens no connection for a client it does not let in. \<open>gate\<close> is the part of the
  admission decision that depends on the request and the proxy alone; \<open>before_auth\<close> relates two
  states between which no socket was created or connected, no proxy changed and no upstreamer
  changed its request.
\<close>

definition gate :: "proxy_data \<Rightarrow> request \<Rightarrow> bool" where
  "gate d rq \<longleftrightarrow> (case rq_sessionID rq of
       Some raw \<Rightarrow> length raw = 8 \<and> px_sessions d (bytes_u64 raw) \<noteq> None
     | None \<Rightarrow> password_ok d rq)"

lemma authenticate_denied:
  assumes "is_proxy p d w" "\<not> gate d rq"
  obtains rep where "authenticate E rq p w = (Ret rep, w)" "ar_code rep = SOCKS6_AUTH_REPLY_FAILURE"
  using assms(1)
  by (cases rule: authenticate_cases[where E = E and opts = rq])
    (use assms(2) that in \<open>auto simp: gate_def\<close>)

definition outbound_call :: "call \<Rightarrow> bool" where
  "outbound_call c \<longleftrightarrow> (case c of SocketFD _ \<Rightarrow> True | Connect _ _ \<Rightarrow> True
     | SendToTFO _ _ _ \<Rightarrow> True | _ \<Rightarrow> False)"

definition auth_view :: "rclass \<Rightarrow> (rid \<times> request option + proxy_data) option" where
  "auth_view c = (case c of
       CProxyUpstreamer d \<Rightarrow> Some (Inl (pu_proxy d, pu_request d))
     | CProxy d \<Rightarrow> Some (Inr d)
     | _ \<Rightarrow> None)"

definition before_auth :: "world \<Rightarrow> world \<Rightarrow> bool" where
  "before_auth w w' \<longleftrightarrow> hist_grows w w' \<and> (\<forall>e \<in> set (new_calls w w'). \<not> outbound_call (fst e)) \<and>
     nextRid w \<le> nextRid w' \<and>
     (\<forall>r x'. r < nextRid w \<and> reactors w' r = Some x' \<longrightarrow>
        (\<exists>x. reactors w r = Some x \<and> auth_view (cls x') = auth_view (cls x)))"

interpretation ba: world_preorder before_auth
proof unfold_locales
  show "before_auth w w" for w by (simp add: before_auth_def hg.R_refl new_calls_def)
  fix u v w assume uv: "before_auth u v" and vw: "before_auth v w"
  have "\<forall>e \<in> set (new_calls u w). \<not> outbound_call (fst e)"
    using uv vw new_calls_trans[of u v w] by (simp add: before_auth_def ball_Un)
  moreover have "\<exists>x. reactors u r = Some x \<and> auth_view (cls z) = auth_view (cls x)"
    if "r < nextRid u" "reactors w r = Some z" for r z
    using that uv vw unfolding before_auth_def by (metis less_le_trans)
  ultimately show "before_auth u w"
    using uv vw by (auto simp: before_auth_def intro: hg.R_trans)
qed

lemma ba_extcall [keeps_intro]: "\<not> outbound_call c \<Longrightarrow> keeps before_auth (extcall E c)"
  by (auto simp: keeps_def before_auth_def run_extcall hist_grows_def)

lemma ba_modR [keeps_intro]:
  "(\<And>x. auth_view (cls (f x)) = auth_view (cls x)) \<Longrightarrow> keeps before_auth (modR r f)"
  by (auto simp: keeps_def before_auth_def modR_def hist_grows_def new_calls_def split: option.splits)

lemma ba_basic [keeps_intro]:
  "keeps before_auth (getR r)" "keeps before_auth (newR x)" "keeps before_auth (deleteR r)"
  "keeps before_auth (set_entry n e)" "keeps before_auth (entry_at fd)" "keeps before_auth (getT t)"
  "keeps before_auth (modT t g)" "keeps before_auth (PR_SetError pe)"
  "keeps before_auth (set_blockDirection bd)"
  by (auto simp: keeps_def before_auth_def exec_simps hist_grows_def new_calls_def getR_def deleteR_def
      set_entry_def entry_at_def getT_def modT_def PR_SetError_def set_blockDirection_def
      split: option.splits)

lemma outbound_call_simps [simp]:
  "\<not> outbound_call (CloseFD fd)" "\<not> outbound_call (ShutdownFD fd how)" "\<not> outbound_call (EpollCtl epo fd ev)"
  "\<not> outbound_call (Recv fd n)" "\<not> outbound_call (Send fd xs)" "\<not> outbound_call (PR_Read t n)"
  "\<not> outbound_call (PR_Write t xs)" "\<not> outbound_call (NssRecv fd n)" "\<not> outbound_call (NssSend fd xs)"
  "\<not> outbound_call (GetSockName fd)" "\<not> outbound_call (GetPeerName fd)" "\<not> outbound_call (DupFD fd)"
  by (simp_all add: outbound_call_def)

lemma ba_modBuf [keeps_intro]: "keeps before_auth (modBuf r f)"
  unfolding modBuf_def by (intro keeps_intro) simp

lemma ba_poller [keeps_intro]:
  "keeps before_auth (Poller_add E r fd ev)" "keeps before_auth (Poller_remove E fd force)"
  unfolding Poller_add_def Poller_remove_def runIfActive_def isActive_def Let_def
  by (intro ba.keeps_rules keeps_intro outbound_call_simps)+

lemma ba_uniqfd [keeps_intro]:
  "keeps before_auth (UniqFD_assign a b)" "keeps before_auth (UniqFD_destroy E fd)"
  "keeps before_auth (UniqRecvFD_destroy E fd)" "keeps before_auth (UniqSendFD_destroy E fd)"
  unfolding uniqfd_defs by (intro ba.keeps_rules keeps_intro outbound_call_simps)+

lemma ba_deactivate [keeps_intro]: "keeps before_auth (deactivate E r)"
  unfolding deactivate_def deactivate_defs
  by (intro ba.keeps_rules keeps_intro)
    (auto split: rclass.split intro!: ba.keeps_rules keeps_intro)

lemma ba_runAs [keeps_intro]: "keeps before_auth m \<Longrightarrow> keeps before_auth (Poller_runAs E r m)"
  unfolding Poller_runAs_def by (intro ba.keeps_rules keeps_exn_case keeps_intro)

lemma ba_tls [keeps_intro]:
  "keeps before_auth (mapError e)" "keeps before_auth (mapError_override ov e)"
  "keeps before_auth (setReadFD t fd)" "keeps before_auth (setWriteFD t fd)"
  "keeps before_auth (tlsHandleErr fd)" "keeps before_auth (buffered r)"
  "keeps before_auth (buf_receive r xs n)"
  unfolding mapError_override_def mapError_def setReadFD_def setWriteFD_def tlsHandleErr_def
    buffered_def buf_receive_def
  by (intro ba.keeps_rules keeps_intro)+

lemma ba_layer [keeps_intro]:
  "keeps before_auth (dRecv E t n)" "keeps before_auth (dSend E t xs)"
  "keeps before_auth (dGetName E t)" "keeps before_auth (dGetPeerName E t)"
  "keeps before_auth (dRead E t n)" "keeps before_auth (dWrite E t xs)" "keeps before_auth invalidFn"
  unfolding tls_layer_defs by (intro ba.keeps_rules keeps_intro outbound_call_simps)+

lemma ba_nss [keeps_intro]:
  assumes "\<not> outbound_call c"
  shows "keeps before_auth (nss E t c)"
proof -
  have "keeps before_auth (METHODS E t cb)" for cb
    unfolding METHODS_def by (cases cb) (auto intro!: ba.keeps_rules keeps_intro)
  then have "keeps before_auth (run_callbacks E t cs)" for cs
    by (induction cs) (auto intro!: ba.keeps_rules)
  with assms show ?thesis
    unfolding nss_def by (intro ba.keeps_rules keeps_intro)
qed

lemma ba_socket [keeps_intro]:
  "keeps before_auth (sockRecv E s r)" "keeps before_auth (sockSend E s r)"
  "keeps before_auth (duplicate_for_write E s s')"
  unfolding sockRecv_def sockSend_def tcpRecv_def tcpSend_def tlsRead_def tlsWrite_def
    duplicate_for_write_def
  by (intro ba.keeps_rules keeps_intro outbound_call_simps)+

lemma ba_getters [keeps_intro]:
  "keeps before_auth (getPU r)" "keeps before_auth (getAS r)" "keeps before_auth (the_request d)"
  "keeps before_auth (getProxy p)"
  unfolding getPU_def getAS_def the_request_def getProxy_def
  by (intro ba.keeps_rules keeps_intro; auto split: rclass.split option.split intro: ba.keeps_rules)+

lemma ba_construct [keeps_intro]:
  "keeps before_auth (StreamReactor_destroy E r)" "keeps before_auth (StickReactor_destroy E r)"
  "keeps before_auth (pack_into r pk)" "keeps before_auth (dup_dstSock E r u)"
  unfolding StreamReactor_destroy_def StickReactor_destroy_def pack_into_def dup_dstSock_def
  by (intro ba.keeps_rules keeps_intro; simp)+

lemma ba_modAS [keeps_intro]: "keeps before_auth (modAS r f)"
  unfolding modAS_def by (intro keeps_intro) (auto simp: auth_view_def split: rclass.split)

lemma ba_start [keeps_intro]: "keeps before_auth (StreamReactor_start E r)"
  unfolding StreamReactor_start_def set_streamState_def
  by (intro ba.keeps_rules keeps_intro keeps_choices; simp)

lemma ba_version [keeps_intro]: "keeps before_auth (SimpleProxyDownstreamer_new_version E r)"
  unfolding SimpleProxyDownstreamer_new_version_def construct_def
  by (intro ba.keeps_rules keeps_intro)

section \<open>A denied request\<close>

text \<open>The request of upstreamer \<open>r\<close> in a state: the proxy it belongs to and what was parsed.\<close>

definition has_request :: "rid \<Rightarrow> rid \<Rightarrow> request \<Rightarrow> world \<Rightarrow> bool" where
  "has_request r p rq w \<longleftrightarrow> (\<exists>x d. reactors w r = Some x \<and> cls x = CProxyUpstreamer d \<and>
     pu_proxy d = p \<and> pu_request d = Some rq)"

lemma before_auth_request:
  assumes "before_auth w w'" "r < nextRid w" "has_request r p rq w'"
  shows "has_request r p rq w"
proof -
  from assms(3) obtain x' d where x': "reactors w' r = Some x'" "cls x' = CProxyUpstreamer d"
    "pu_proxy d = p" "pu_request d = Some rq" unfolding has_request_def by blast
  with assms(1,2) obtain x where x: "reactors w r = Some x"
    "auth_view (CProxyUpstreamer d) = auth_view (cls x)"
    unfolding before_auth_def by metis
  with x' show ?thesis
    by (cases "cls x") (auto simp: has_request_def auth_view_def)
qed

lemma before_auth_proxy:
  assumes "before_auth w w'" "p < nextRid w" "is_proxy p d w'"
  shows "is_proxy p d w"
proof -
  from assms(3) obtain x' where x': "reactors w' p = Some x'" "cls x' = CProxy d"
    unfolding is_proxy_def by blast
  with assms(1,2) obtain x where x: "reactors w p = Some x"
    "auth_view (CProxy d) = auth_view (cls x)"
    unfolding before_auth_def by metis
  then show ?thesis
    by (cases "cls x") (auto simp: is_proxy_def auth_view_def)
qed

text \<open>
  Authentication at a later point of the same step: with the proxy unchanged, a request that does
  not pass the gate is refused and nothing else happens.
\<close>

lemma authenticate_later:
  assumes "before_auth w v" "p < nextRid w" "\<forall>d. is_proxy p d w \<longrightarrow> \<not> gate d rq"
  shows "snd (authenticate E rq p v) = v \<and>
    (\<forall>rep v'. authenticate E rq p v = (Ret rep, v') \<longrightarrow> ar_code rep = SOCKS6_AUTH_REPLY_FAILURE)"
proof (cases "\<exists>d. is_proxy p d v")
  case True
  then obtain d where "is_proxy p d v" by blast
  then show ?thesis
    using authenticate_denied[of p d v rq E] before_auth_proxy[OF assms(1,2)] assms(3) by fastforce
next
  case False
  then have "\<exists>f. getProxy p v = (Abort f, v)"
    by (cases "reactors v p")
      (auto simp: is_proxy_def getProxy_def bindM_def run_getR run_basic split: rclass.split)
  then obtain f where "getProxy p v = (Abort f, v)" by blast
  then have "getSession p sid v = (Abort f, v)" "getPasswordChecker p v = (Abort f, v)" for sid
    by (auto simp: getSession_def getPasswordChecker_def bindM_def)
  then show ?thesis
    by (auto simp: authenticate_def authenticate_user_def Let_def signal_def bindM_def run_basic
        split: option.split)
qed

lemma duplicate_reactors: "reactors (snd (duplicate_for_write E s s' w)) = reactors w"
  by (auto simp: duplicate_for_write_def UniqFD_assign_def assertM_def setWriteFD_def modT_def bindM_def seqM_def
      run_basic run_extcall split: option.split)

lemma run_getPU: "reactors w r = Some x \<Longrightarrow> cls x = CProxyUpstreamer d \<Longrightarrow> getPU r w = (Ret d, w)"
  by (simp add: getPU_def bindM_def run_getR run_basic)

lemma run_getAS: "reactors w r = Some x \<Longrightarrow> cls x = CAuthServer d \<Longrightarrow> getAS r w = (Ret d, w)"
  by (simp add: getAS_def bindM_def run_getR run_basic)

lemma pack_into_cls:
  "reactors v a = Some y \<Longrightarrow> \<exists>y'. reactors (snd (pack_into a pk v)) a = Some y' \<and> cls y' = cls y"
  by (auto simp: pack_into_def buf_receive_def modBuf_def bindM_def run_getR run_modR run_basic
      split: sum.split outcome.split)

text \<open>The body of the constructor of AuthServer, after the object was made.\<close>

definition AuthServer_body :: "env \<Rightarrow> rid \<Rightarrow> rid \<Rightarrow> unit M" where
  "AuthServer_body E upstreamer r =
     bindM (getR r) (\<lambda>x. bindM (getR upstreamer) (\<lambda>u. bindM (getPU upstreamer) (\<lambda>d.
        bindM (duplicate_for_write E (sock x) (srcSock u)) (\<lambda>s.
        seqM (modR r (\<lambda>x. x\<lparr>sock := s\<rparr>))
        (bindM (the_request d) (\<lambda>rq.
        bindM (authenticate E rq (pu_proxy d)) (\<lambda>reply.
        seqM (modAS r (\<lambda>d. d\<lparr>as_reply := Some reply\<rparr>))
        (pack_into r (packAuthReply E reply)))))))))"

lemma AuthServer_new_body:
  "AuthServer_new E r = bindM (newR (new_reactor (CAuthServer \<lparr>as_upstreamer = r, as_reply = None\<rparr>)))
     (\<lambda>a. construct (StickReactor_destroy E) a (AuthServer_body E r a))"
  by (simp add: AuthServer_new_def AuthServer_body_def)

lemma AuthServer_body_denied:
  assumes r: "has_request r p rq w" and p: "p < nextRid w" "\<forall>d. is_proxy p d w \<longrightarrow> \<not> gate d rq"
    and a: "reactors w a = Some y" "cls y = CAuthServer \<lparr>as_upstreamer = r, as_reply = None\<rparr>"
    and run: "AuthServer_body E r a w = (res, w')"
  shows "before_auth w w' \<and> (res = Ret () \<longrightarrow> (\<exists>y' rep. reactors w' a = Some y' \<and>
    cls y' = CAuthServer \<lparr>as_upstreamer = r, as_reply = Some rep\<rparr> \<and>
    ar_code rep = SOCKS6_AUTH_REPLY_FAILURE))"
proof -
  from r obtain u d where u: "reactors w r = Some u" "cls u = CProxyUpstreamer d"
    "pu_proxy d = p" "pu_request d = Some rq" unfolding has_request_def by blast
  obtain dr v where dup: "duplicate_for_write E (sock y) (srcSock u) w = (dr, v)" by fastforce
  have v: "reactors v = reactors w" "before_auth w v"
    using duplicate_reactors[of E "sock y" "srcSock u" w] dup
      keepsD[of before_auth "duplicate_for_write E (sock y) (srcSock u)" w]
    by (auto intro: keeps_intro)
  have eq: "AuthServer_body E r a w = (case dr of Ret s \<Rightarrow>
      bindM (authenticate E rq p) (\<lambda>reply. seqM (modAS a (\<lambda>d. d\<lparr>as_reply := Some reply\<rparr>))
        (pack_into a (packAuthReply E reply))) (v\<lparr>reactors := (reactors v)(a \<mapsto> y\<lparr>sock := s\<rparr>)\<rparr>)
    | Throw e \<Rightarrow> (Throw e, v) | Abort e \<Rightarrow> (Abort e, v))"
    using a u dup v(1) by (simp add: AuthServer_body_def the_request_def run_getPU[OF u(1,2)]
        bindM_def[of "getPU r"] bindM_def[of "getR b" for b] bindM_def[of "duplicate_for_write E s s'" for s s'] seqM_def
        bindM_def[of "modR b f" for b f] run_getR run_modR run_basic split: outcome.split)
  show ?thesis
  proof (cases dr)
    case (Ret s)
    let ?v = "v\<lparr>reactors := (reactors v)(a \<mapsto> y\<lparr>sock := s\<rparr>)\<rparr>"
    have "before_auth v ?v"
      using keepsD[OF ba_modR[of "\<lambda>x. x\<lparr>sock := s\<rparr>" a], of v] a v(1) by (simp add: run_modR)
    then have ba: "before_auth w ?v" using v(2) ba.R_trans by blast
    obtain ar v1 where auth: "authenticate E rq p ?v = (ar, v1)" by fastforce
    have v1: "v1 = ?v" "\<And>rep. ar = Ret rep \<Longrightarrow> ar_code rep = SOCKS6_AUTH_REPLY_FAILURE"
      using authenticate_later[OF ba p, of E] auth by auto
    show ?thesis
    proof (cases ar)
      case (Ret rep)
      let ?tail = "seqM (modAS a (\<lambda>d. d\<lparr>as_reply := Some rep\<rparr>)) (pack_into a (packAuthReply E rep))"
      let ?y = "y\<lparr>sock := s, cls := CAuthServer \<lparr>as_upstreamer = r, as_reply = Some rep\<rparr>\<rparr>"
      let ?v2 = "?v\<lparr>reactors := (reactors ?v)(a \<mapsto> ?y)\<rparr>"
      have tail: "(res, w') = ?tail ?v"
        using run eq \<open>dr = Ret s\<close> auth v1(1) Ret by (simp add: bindM_def[of "authenticate E rq p"])
      have "keeps before_auth ?tail" by (intro ba.keeps_rules keeps_intro)
      then have "before_auth ?v w'" using keepsD[of before_auth ?tail ?v] tail by (metis snd_conv)
      moreover have "?tail ?v = pack_into a (packAuthReply E rep) ?v2"
        using a(2) by (simp add: modAS_def seqM_def bindM_def run_modR)
      moreover have "\<exists>y'. reactors (snd (pack_into a (packAuthReply E rep) ?v2)) a = Some y' \<and> cls y' = cls ?y"
        by (rule pack_into_cls) simp
      ultimately show ?thesis
        using ba tail v1(2)[OF Ret] by (auto intro: ba.R_trans) (metis snd_conv)+
    qed (use run eq Ret auth v1(1) ba in \<open>auto simp: bindM_def[of "authenticate E rq p"]\<close>)
  qed (use run eq v(2) in auto)
qed

lemma AuthServer_new_denied:
  assumes r: "has_request r p rq w" "r < nextRid w"
    and p: "p < nextRid w" "\<forall>d. is_proxy p d w \<longrightarrow> \<not> gate d rq"
    and run: "AuthServer_new E r w = (res, w')"
  shows "before_auth w w' \<and> (\<forall>a. res = Ret a \<longrightarrow> (\<exists>y rep. reactors w' a = Some y \<and>
    cls y = CAuthServer \<lparr>as_upstreamer = r, as_reply = Some rep\<rparr> \<and>
    ar_code rep = SOCKS6_AUTH_REPLY_FAILURE))"
proof -
  let ?a = "nextRid w"
  let ?y = "new_reactor (CAuthServer \<lparr>as_upstreamer = r, as_reply = None\<rparr>)"
  let ?w1 = "w\<lparr>reactors := (reactors w)(?a \<mapsto> ?y), nextRid := Suc ?a\<rparr>"
  have w1: "before_auth w ?w1"
    using keepsD[of before_auth "newR ?y" w] by (simp add: run_newR keeps_intro)
  obtain br v where body: "AuthServer_body E r ?a ?w1 = (br, v)" by fastforce
  have b: "before_auth ?w1 v \<and> (br = Ret () \<longrightarrow> (\<exists>y' rep. reactors v ?a = Some y' \<and>
      cls y' = CAuthServer \<lparr>as_upstreamer = r, as_reply = Some rep\<rparr> \<and>
      ar_code rep = SOCKS6_AUTH_REPLY_FAILURE))"
    by (rule AuthServer_body_denied[OF _ _ _ _ _ body, where p = p and rq = rq and y = ?y])
      (use r p in \<open>auto simp: has_request_def is_proxy_def new_reactor_def\<close>)
  have eq: "AuthServer_new E r w = (case br of Ret _ \<Rightarrow> (Ret ?a, v)
      | Throw e \<Rightarrow> seqM (StickReactor_destroy E ?a) (throw e) v | Abort f \<Rightarrow> (Abort f, v))"
    using body by (simp add: AuthServer_new_body bindM_def[of "newR x" for x] run_newR construct_def
        tryM_def seqM_def[of "AuthServer_body E r b" for b] bindM_def[of "AuthServer_body E r b" for b]
        run_basic split: outcome.split)
  have v: "before_auth w v" using w1 b ba.R_trans by blast
  show ?thesis
  proof (cases br)
    case (Throw e)
    let ?m = "seqM (StickReactor_destroy E ?a) (throw e) :: rid M"
    have "before_auth v (snd (?m v))"
      by (rule keepsD) (intro ba.keeps_rules keeps_intro)
    moreover have "?m v = (res, w')" using run eq Throw by simp
    moreover have "res \<noteq> Ret b" for b
      using calculation(2) by (auto simp: seqM_def bindM_def run_basic split: prod.splits outcome.splits)
    ultimately show ?thesis using v ba.R_trans by auto
  qed (use run eq b v in auto)
qed

lemma sendReply_denied:
  assumes "reactors w a = Some y" "cls y = CAuthServer d" "as_reply d = Some rep"
    "ar_code rep = SOCKS6_AUTH_REPLY_FAILURE"
  shows "before_auth w (snd (sendReply E a w))"
proof -
  let ?m = "\<lambda>x d. bindM (sockSend E (sock x) a) (\<lambda>bytes.
     seqM (if bytes = 0 then deactivate E a else ret ())
     (bindM (getR a) (\<lambda>x.
       if usedSize (buf x) > 0 then Poller_add E a (sk_fd (sock x)) OUT_EVENTS
       else case as_reply d of
         None \<Rightarrow> abort NullDereference
       | Some reply \<Rightarrow>
           if ar_code reply = SOCKS6_AUTH_REPLY_SUCCESS
           then Poller_runAs E (as_upstreamer d) (authDone E (as_upstreamer d))
           else deactivate E (as_upstreamer d))))"
  have "keeps before_auth (?m y d)"
    unfolding assms(3) option.case using assms(4) by (intro ba.keeps_rules keeps_intro) auto
  then have "before_auth w (snd (?m y d w))" by (rule keepsD)
  moreover have "sendReply E a w = ?m y d w"
    using run_getAS[OF assms(1,2)] assms(1)
    by (simp add: sendReply_def run_bind(1)[of "getR a" w y w, OF run_getR(1)[OF assms(1)]]
        run_bind(1)[of "getAS a" w d w])
  ultimately show ?thesis by simp
qed

section \<open>Reading the request\<close>

lemma auth_denied:
  assumes "has_request r p rq w" "r < nextRid w" "p < nextRid w"
    "\<forall>d. is_proxy p d w \<longrightarrow> \<not> gate d rq"
  shows "before_auth w (snd (bindM (AuthServer_new E r)
    (\<lambda>a. Poller_assign E a (AuthServer_start E a)) w))"
proof -
  obtain res v where run: "AuthServer_new E r w = (res, v)" by fastforce
  note new = AuthServer_new_denied[OF assms run]
  show ?thesis
  proof (cases res)
    case (Ret a)
    with new obtain y rep where y: "reactors v a = Some y"
      "cls y = CAuthServer \<lparr>as_upstreamer = r, as_reply = Some rep\<rparr>"
      "ar_code rep = SOCKS6_AUTH_REPLY_FAILURE" by blast
    have send: "before_auth v (snd (sendReply E a v))"
      by (rule sendReply_denied[OF y(1,2) _ y(3)]) simp
    let ?h = "\<lambda>e. case e of RescheduleException fd events \<Rightarrow> Poller_add E a fd events
      | _ \<Rightarrow> deactivate E a"
    have "before_auth u (snd (?h e u))" for e u
      by (rule keepsD) (intro keeps_exn_case keeps_intro)
    with send have "before_auth v (snd (tryM (sendReply E a) ?h v))"
      unfolding tryM_def by (auto split: prod.split outcome.split intro: ba.R_trans)
    then have "before_auth v (snd (Poller_assign E a (AuthServer_start E a) v))"
      by (simp add: Poller_assign_def Poller_runAs_def AuthServer_start_def AuthServer_process_def)
    with new Ret run show ?thesis by (auto simp: run_bind intro: ba.R_trans)
  qed (use new run in \<open>auto simp: run_bind\<close>)
qed

definition silent :: "world \<Rightarrow> world \<Rightarrow> bool" where
  "silent w w' \<longleftrightarrow> hist_grows w w' \<and> (\<forall>e \<in> set (new_calls w w'). \<not> outbound_call (fst e))"

interpretation silent: world_preorder silent
proof unfold_locales
  show "silent w w" for w by (simp add: silent_def hg.R_refl new_calls_def)
  show "silent u w" if "silent u v" "silent v w" for u v w
    using that new_calls_trans[of u v w] by (simp add: silent_def ball_Un) (blast intro: hg.R_trans)
qed

lemma before_auth_silent: "before_auth w w' \<Longrightarrow> silent w w'"
  by (simp add: before_auth_def silent_def)

text \<open>What follows once a request was parsed: it is stored, cut off the buffer and authenticated.\<close>

lemma parsed_denied:
  assumes u: "before_auth w u" and x: "reactors w r = Some x" "cls x = CProxyUpstreamer d" "r < nextRid w"
    and p: "pu_proxy d < nextRid w" "\<forall>pd. is_proxy (pu_proxy d) pd w \<longrightarrow> \<not> gate pd rq"
  shows "silent u (snd (seqM (modPU r (\<lambda>d. d\<lparr>pu_request := Some rq\<rparr>)) (seqM (modBuf r f)
    (bindM (AuthServer_new E r) (\<lambda>a. Poller_assign E a (AuthServer_start E a)))) u))"
proof (cases "reactors u r")
  case None
  then show ?thesis by (simp add: modPU_def seqM_def bindM_def run_modR silent.R_refl)
next
  case (Some x')
  then have "auth_view (cls x') = auth_view (cls x)"
    using u x(1,3) unfolding before_auth_def by fastforce
  then obtain d' where d': "cls x' = CProxyUpstreamer d'" "pu_proxy d' = pu_proxy d"
    using x(2) by (cases "cls x'") (auto simp: auth_view_def)
  let ?x = "x'\<lparr>cls := CProxyUpstreamer (d'\<lparr>pu_request := Some rq\<rparr>), buf := f (buf x')\<rparr>"
  let ?u = "u\<lparr>reactors := (reactors u)(r \<mapsto> ?x)\<rparr>"
  let ?m = "bindM (AuthServer_new E r) (\<lambda>a. Poller_assign E a (AuthServer_start E a))"
  have "nextRid w \<le> nextRid u" using u by (simp add: before_auth_def)
  moreover have "\<forall>pd. is_proxy (pu_proxy d) pd ?u \<longrightarrow> \<not> gate pd rq"
    using p(2) before_auth_proxy[OF u p(1)] by (auto simp: is_proxy_def split: if_splits)
  moreover have "has_request r (pu_proxy d) rq ?u"
    using d' by (simp add: has_request_def)
  ultimately have "before_auth ?u (snd (?m ?u))"
    using x(3) p(1) by (intro auth_denied[where p = "pu_proxy d" and rq = rq]) auto
  then have "silent ?u (snd (?m ?u))" by (rule before_auth_silent)
  then have "silent u (snd (?m ?u))"
    by (rule silent.R_trans[rotated]) (simp add: silent_def hist_grows_def new_calls_def)
  moreover have "seqM (modPU r (\<lambda>d. d\<lparr>pu_request := Some rq\<rparr>)) (seqM (modBuf r f) ?m) u = ?m ?u"
    using Some d' by (simp add: modPU_def modBuf_def seqM_def bindM_def[of "modR b g" for b g] run_modR)
  ultimately show ?thesis by simp
qed

lemma readReq_denied:
  assumes x: "reactors w r = Some x" "cls x = CProxyUpstreamer d" "r < nextRid w"
    and p: "pu_proxy d < nextRid w" "is_proxy (pu_proxy d) pd w"
    and denied: "\<And>n v xs u rq used. sockRecv E (srcSock x) r w = (Ret n, v) \<Longrightarrow>
        buffered r v = (Ret xs, u) \<Longrightarrow> parseRequest E xs = Inr (rq, used) \<Longrightarrow> \<not> gate pd rq"
  shows "silent w (snd (ProxyUpstreamer_readReq E r w))"
proof -
  let ?rest = "\<lambda>bb. case parseRequest E bb of
         Inl BadVersionException \<Rightarrow>
           bindM (SimpleProxyDownstreamer_new_version E r) (\<lambda>s.
           Poller_assign E s (StreamReactor_start E s))
       | Inl EndOfBufferException \<Rightarrow> Poller_add E r (sk_fd (srcSock x)) IN_EVENTS
       | Inl e \<Rightarrow> throw e
       | Inr (rq, used) \<Rightarrow>
           seqM (modPU r (\<lambda>d. d\<lparr>pu_request := Some rq\<rparr>))
           (seqM (modBuf r (unuse (of_nat used)))
           (bindM (AuthServer_new E r) (\<lambda>a. Poller_assign E a (AuthServer_start E a))))"
  obtain rr v where recv: "sockRecv E (srcSock x) r w = (rr, v)" by fastforce
  obtain br u where bb: "buffered r v = (br, u)" by fastforce
  have v: "before_auth w v"
    using keepsD[of before_auth "sockRecv E (srcSock x) r" w] recv by (simp add: keeps_intro)
  have vu: "before_auth v u"
    using keepsD[of before_auth "buffered r" v] bb by (simp add: keeps_intro)
  have eq: "ProxyUpstreamer_readReq E r w = (case rr of
      Ret n \<Rightarrow> (if n = 0 then (Ret (), v) else (case br of Ret xs \<Rightarrow> ?rest xs u
        | Throw e \<Rightarrow> (Throw e, u) | Abort e \<Rightarrow> (Abort e, u)))
    | Throw e \<Rightarrow> (Throw e, v) | Abort e \<Rightarrow> (Abort e, v))"
    using recv bb x(1) by (simp add: ProxyUpstreamer_readReq_def bindM_def[of "getR r"]
        bindM_def[of "sockRecv E s r" for s] bindM_def[of "buffered r"] run_getR run_basic
        split: outcome.split)
  have wu: "before_auth w u" using v vu ba.R_trans by blast
  have "silent u (snd (?rest xs u))" if "rr = Ret n" "br = Ret xs" for n xs
  proof (cases "parseRequest E xs")
    case (Inl e)
    have "keeps before_auth (?rest xs)"
      unfolding Inl sum.case Poller_assign_def by (intro keeps_exn_case ba.keeps_rules keeps_intro)
    then have "before_auth u (snd (?rest xs u))" by (rule keepsD)
    then show ?thesis by (rule before_auth_silent)
  next
    case (Inr q)
    obtain rq used where q: "q = (rq, used)" by fastforce
    have "\<not> gate pd rq" using denied recv bb that Inr q by blast
    then have "\<forall>pd. is_proxy (pu_proxy d) pd w \<longrightarrow> \<not> gate pd rq"
      using is_proxy_unique[OF p(2)] by blast
    from parsed_denied[OF wu x p(1) this] show ?thesis
      unfolding Inr q sum.case prod.case .
  qed
  with before_auth_silent[OF v] before_auth_silent[OF wu] show ?thesis
    by (auto simp: eq intro: silent.R_trans split: outcome.split)
qed

end
