(* ===== verification/Scenario.thy ===== *)
theory Scenario
  imports StreamInv ProxyGate
begin

text \<open>
  Concrete surroundings in which the theorems are tried: \<open>scenario as\<close> answers the n-th call of a
  run with the n-th element of \<open>as\<close>. An answer the documentation of the call rules out (more bytes
  than asked for, an event for a descriptor that is not armed) is replaced by a failure, so every
  scenario satisfies what the theorems assume of the surroundings. Messages are packed into single
  bytes and parsed back by a small fixed table.
\<close>

definition failed :: "errno \<Rightarrow> cret" where
  "failed e = \<lparr>c_rc = -1, c_errno = e, c_data = [], c_window = (0, 0),
     c_addr = \<lparr>sa_addr = IPv4 0, sa_port = 0\<rparr>, c_prerr = PR_UNKNOWN_ERROR, c_flag = False,
     c_out = (0, 0)\<rparr>"

definition returns :: "int \<Rightarrow> cret" where
  "returns n = (failed EAGAIN)\<lparr>c_rc := n\<rparr>"

definition delivers :: "byte list \<Rightarrow> cret" where
  "delivers xs = (returns (int (length xs)))\<lparr>c_data := xs\<rparr>"

lemma spent_code [code]:
  "spent b token h \<longleftrightarrow> list_ex (\<lambda>(c, rc). c = BankWithdraw b token \<and> c_rc rc \<noteq> 0) h"
  by (auto simp: spent_def list_ex_iff split: prod.splits)

definition legit :: "history \<Rightarrow> call \<Rightarrow> cret \<Rightarrow> bool" where
  "legit h c a \<longleftrightarrow> recv_ok c a \<and> send_ok c a \<and>
     (c = EpollWait \<and> 0 < c_rc a \<longrightarrow> fst (c_out a) \<in> armed h) \<and>
     (case c of BankWithdraw b token \<Rightarrow> spent b token h \<longrightarrow> c_rc a = 0 | _ \<Rightarrow> True)"

definition default_answer :: "call \<Rightarrow> cret" where
  "default_answer c = (case c of BankWithdraw _ _ \<Rightarrow> returns 0 | _ \<Rightarrow> failed EAGAIN)"

definition scenario_request :: request where
  "scenario_request = \<lparr>rq_code = SOCKS6_REQUEST_CONNECT, rq_address = IPv4 0x0A000001, rq_port = 80,
     rq_sessionID = None, rq_sessionRequested = False, rq_credentials = (''user'', ''secret''),
     rq_requestedSize = 0, rq_token = None, rq_tfo = None\<rparr>"

definition scenario :: "cret list \<Rightarrow> env" where
  "scenario as = \<lparr>
     os = (\<lambda>h c. if length h < length as \<and> legit h c (as ! length h) then as ! length h
                 else default_answer c),
     nssCallbacks = (\<lambda>_ _. []),
     parseRequest = (\<lambda>xs. case xs of
         [] \<Rightarrow> Inl EndOfBufferException
       | x # _ \<Rightarrow> if x = 6 then Inr (scenario_request, 1) else Inl BadVersionException),
     parseAuthReply = (\<lambda>_. Inl EndOfBufferException),
     parseOpReply = (\<lambda>_. Inl EndOfBufferException),
     packAuthReply = (\<lambda>r n. if n = 0 then Inl EndOfBufferException
       else Inr [if ar_code r = SOCKS6_AUTH_REPLY_SUCCESS then 0 else 1]),
     packOpReply = (\<lambda>r n. if n = 0 then Inl EndOfBufferException
       else Inr [if or_code r = SOCKS6_OPERATION_REPLY_SUCCESS then 0 else 1]),
     packRequest = (\<lambda>_ n. if n = 0 then Inl EndOfBufferException else Inr [6]),
     versionBytes = [6],
     addrIsZero = (\<lambda>a. a = IPv4 0),
     saFamily = (\<lambda>_. AF_INET),
     connectErrnoToReplyCode = (\<lambda>n. if n = 0 then SOCKS6_OPERATION_REPLY_SUCCESS
       else SOCKS6_OPERATION_REPLY_HOST_UNREACH),
     recommend = (\<lambda>_ _ _. \<lparr>rec_useToken = False, rec_tfoPayload = 0, rec_earlyData = False\<rparr>),
     tokenSpent = (\<lambda>r _. r),
     quadZero = IPv4 0, emptySockAddr = \<lparr>sa_addr = IPv4 0, sa_port = 0\<rparr>,
     inetAddr = (\<lambda>_. 0xffffffff),
     fuel = 3\<rparr>"

lemma scenario_os: "os (scenario as) h c =
    (if length h < length as \<and> legit h c (as ! length h) then as ! length h else default_answer c)"
  by (simp add: scenario_def)

lemma scenario_fields [simp]:
  "fuel (scenario as) = 3" "nssCallbacks (scenario as) h c = []"
  "parseRequest (scenario as) xs = (case xs of [] \<Rightarrow> Inl EndOfBufferException
     | x # _ \<Rightarrow> if x = 6 then Inr (scenario_request, 1) else Inl BadVersionException)"
  "packOpReply (scenario as) rep n = (if n = 0 then Inl EndOfBufferException
     else Inr [if or_code rep = SOCKS6_OPERATION_REPLY_SUCCESS then 0 else 1])"
  "packAuthReply (scenario as) rp n = (if n = 0 then Inl EndOfBufferException
     else Inr [if ar_code rp = SOCKS6_AUTH_REPLY_SUCCESS then 0 else 1])"
  "saFamily (scenario as) a = AF_INET" "addrIsZero (scenario as) ad = (ad = IPv4 0)"
  by (simp_all add: scenario_def)

lemma is_proxy_hist [simp]: "is_proxy p d (w\<lparr>hist := h\<rparr>) = is_proxy p d w"
  by (simp add: is_proxy_def)

lemma default_legit [simp]: "legit h c (default_answer c)"
  by (simp add: legit_def recv_ok_def send_ok_def default_answer_def returns_def failed_def
      split: call.split)

lemma scenario_legit: "legit h c (os (scenario as) h c)"
  by (simp add: scenario_def)

lemma scenario_io_ok [simp]: "io_ok (scenario as)"
  using scenario_legit by (auto simp: io_ok_def legit_def)

lemma scenario_epoll_ok [simp]: "epoll_wait_ok (scenario as)"
  using scenario_legit by (auto simp: epoll_wait_ok_def legit_def)

lemma scenario_bank_ok [simp]: "bank_ok (scenario as)"
  using scenario_legit[of _ "BankWithdraw b token" for b token] by (auto simp: bank_ok_def legit_def)

text \<open>The state before the first event: an empty table of the given size, no objects.\<close>

definition empty_world :: "nat \<Rightarrow> world" where
  "empty_world n = \<lparr>hist = [], fdEntries = (\<lambda>_. no_entry), fdCount = n, alive = True,
     reactors = Map.empty, nextRid = 0, tlsObjs = Map.empty, nextTls = 0, ssessions = Map.empty,
     nextSS = 0, csessions = Map.empty, nextCS = 0, supplicants = Map.empty, nextSP = 0,
     timers = Map.empty, nextTM = 0, blockDirection = BD_IN, prError = PR_UNKNOWN_ERROR\<rparr>"

text \<open>A world with one plain stream reactor between descriptors 5 and 6.\<close>

definition stream_reactor :: reactor where
  "stream_reactor = (new_reactor CSimpleProxyDownstreamer)
     \<lparr>srcSock := \<lparr>sk_fd = 5, sk_tls = None\<rparr>, dstSock := \<lparr>sk_fd = 6, sk_tls = None\<rparr>\<rparr>"

definition stream_world :: world where
  "stream_world = (empty_world 10)\<lparr>reactors := [0 \<mapsto> stream_reactor], nextRid := 1\<rparr>"

lemma stream_world_ok [simp]: "stream_ok 0 stream_world"
  by (simp add: stream_ok_def stream_world_def stream_reactor_def new_reactor_def)

text \<open>
  A world with a proxy that knows one user and no session, and one upstreamer of it that has
  accepted a connection on descriptor 7.
\<close>

definition scenario_proxy :: proxy_data where
  "scenario_proxy = \<lparr>px_checker = Some \<lparr>pc_user = ''user'', pc_password = ''secret''\<rparr>,
     px_sessions = Map.empty, px_banks = Map.empty, px_serverCtx = None\<rparr>"

definition scenario_up :: proxyup_data where
  "scenario_up = \<lparr>pu_proxy = 0, pu_state = PU_READING_REQ, pu_tfoPayload = 0, pu_request = None,
     pu_reply = \<lparr>or_code = SOCKS6_OPERATION_REPLY_FAILURE, or_bind = None, or_mp = False\<rparr>,
     pu_addr = None\<rparr>"

definition scenario_upstreamer :: reactor where
  "scenario_upstreamer = (new_reactor (CProxyUpstreamer scenario_up))
     \<lparr>srcSock := \<lparr>sk_fd = 7, sk_tls = None\<rparr>\<rparr>"

definition proxy_world :: "proxy_data \<Rightarrow> world" where
  "proxy_world d = (empty_world 10)\<lparr>reactors := [0 \<mapsto> (new_reactor (CProxy d))\<lparr>listenFD := 3\<rparr>,
     1 \<mapsto> scenario_upstreamer], nextRid := 2\<rparr>"

lemma proxy_world_proxy [simp]: "is_proxy 0 d (proxy_world d)"
  by (simp add: is_proxy_def proxy_world_def new_reactor_def)

lemma proxy_world_simps [simp]:
  "reactors (proxy_world d) 1 = Some scenario_upstreamer" "hist (proxy_world d) = []"
  "reactors (proxy_world d) (Suc 0) = Some scenario_upstreamer"
  "nextRid (proxy_world d) = 2" "nextSS (proxy_world d) = 0" "fdCount (proxy_world d) = 10"
  "ssessions (proxy_world d) = Map.empty" "fdEntries (proxy_world d) = (\<lambda>_. no_entry)"
  by (simp_all add: proxy_world_def empty_world_def)

lemma scenario_up_simps [simp]:
  "cls scenario_upstreamer = CProxyUpstreamer scenario_up" "pu_proxy scenario_up = 0"
  "pu_state scenario_up = PU_READING_REQ" "srcSock scenario_upstreamer = \<lparr>sk_fd = 7, sk_tls = None\<rparr>"
  "dstSock scenario_upstreamer = no_socket" "buf scenario_upstreamer = new_buffer"
  "active scenario_upstreamer"
  by (simp_all add: scenario_upstreamer_def scenario_up_def new_reactor_def)

lemma scenario_proxy_simps [simp]:
  "px_sessions scenario_proxy = Map.empty"
  "px_checker scenario_proxy = Some \<lparr>pc_user = ''user'', pc_password = ''secret''\<rparr>"
  "px_serverCtx scenario_proxy = None"
  by (simp_all add: scenario_proxy_def)

lemma proxy_world_sessions [simp]:
  "px_sessions d = Map.empty \<Longrightarrow> sessions_ok 0 (proxy_world d)"
  by (auto simp: sessions_ok_def intro!: exI[of _ d])

text \<open>The proxy with one session, which has a bank, and a request that resumes it with a token.\<close>

definition session_proxy :: proxy_data where
  "session_proxy = scenario_proxy\<lparr>px_sessions := [5 \<mapsto> 0]\<rparr>"

definition session_world :: world where
  "session_world = (proxy_world session_proxy)\<lparr>
     ssessions := [0 \<mapsto> \<lparr>ss_id = 5, ss_tokenBank = Some 9\<rparr>], nextSS := 1\<rparr>"

definition resume_request :: "u32 \<Rightarrow> request" where
  "resume_request token = scenario_request\<lparr>rq_sessionID := Some (u64_bytes 5), rq_token := Some token\<rparr>"

lemma session_world_simps [simp]:
  "is_proxy 0 session_proxy session_world" "px_sessions session_proxy = [5 \<mapsto> 0]"
  "ssessions session_world = [0 \<mapsto> \<lparr>ss_id = 5, ss_tokenBank = Some 9\<rparr>]"
  "hist session_world = []" "nextSS session_world = 1"
  "px_checker session_proxy = Some \<lparr>pc_user = ''user'', pc_password = ''secret''\<rparr>"
  by (simp_all add: session_world_def session_proxy_def is_proxy_def proxy_world_def new_reactor_def
      empty_world_def)

lemma session_world_ok [simp]: "sessions_ok 0 session_world"
  by (auto simp: sessions_ok_def split: if_splits intro!: exI[of _ session_proxy])

lemma resumed_run:
  assumes "is_proxy 0 session_proxy w" "ssessions w 0 = Some \<lparr>ss_id = 5, ss_tokenBank = Some 9\<rparr>"
  shows "authenticate E (resume_request tok) 0 w =
   (let h1 = hist w @ [(BankGetWindow 9, os E (hist w) (BankGetWindow 9))];
        rc = os E h1 (BankWithdraw 9 tok);
        adv = IdempotenceAdvertise (c_window (os E (hist w) (BankGetWindow 9)))
    in (Ret (if c_rc rc = 0 then failure_reply [SessionOK, adv, IdempotenceReply False]
             else \<lparr>ar_code = SOCKS6_AUTH_REPLY_SUCCESS, ar_opts = [SessionOK, adv, IdempotenceReply True]\<rparr>),
        w\<lparr>hist := h1 @ [(BankWithdraw 9 tok, rc)]\<rparr>))"
  using assms
  by (simp add: resume_request_def scenario_request_def authenticate_def authenticate_user_def
      authenticate_session_def authenticate_idempotence_def makeBank_def bindM_def seqM_def
      run_tables[OF assms(1)] run_session run_getSS run_extcall run_basic Let_def signal_def set_code_def)

text \<open>What a run on concrete data unfolds.\<close>

lemmas run_simps = bindM_def seqM_def tryM_def run_basic run_extcall getR_def modR_def run_guards
  modBuf_def Poller_runAs_def Poller_add_def runIfActive_def isActive_def set_entry_def

lemmas stream_simps = StreamReactor_process_def StreamReactor_receiving_def
  StreamReactor_sending_def sockRecv_def sockSend_def tcpRecv_def tcpSend_def buffered_def
  buf_receive_def set_streamState_def

lemmas buffer_simps = getHead_def getTail_store_def use_bytes_def unuse_def usedSize_def
  availSize_def BUF_SIZE_def new_buffer_def

lemmas scenario_simps = scenario_os stream_world_def empty_world_def stream_reactor_def
  new_reactor_def legit_def default_answer_def recv_ok_def send_ok_def delivers_def returns_def failed_def no_entry_def
  no_socket_def

end
