(* ===== verification/Wellformed.thy ===== *)
theory Wellformed
  imports Live ClientPath Scenario
begin

text \<open>
  The data of a running proxy are well-formed: in every state that \<open>main\<close> reaches when it is not started
  as a proxifier, each object belongs to a class of the proxy side and its buffer is well-formed
  (\<open>head \<le> tail \<le> BUF_SIZE\<close>, and an empty buffer has room). The predicate \<open>served M_PROXY\<close> is kept by
  every method that can run; the methods that change a buffer are the socket operations, the packing
  of replies and the reading of a request.
\<close>

section \<open>The predicate\<close>

definition server_class :: "rclass \<Rightarrow> bool" where
  "server_class c \<longleftrightarrow> (case c of CProxy _ \<Rightarrow> True | CProxyUpstreamer _ \<Rightarrow> True | CAuthServer _ \<Rightarrow> True
     | CSimpleProxyDownstreamer \<Rightarrow> True | CConnectProxyDownstreamer _ \<Rightarrow> True | CResolver \<Rightarrow> True | _ \<Rightarrow> False)"

definition client_class :: "rclass \<Rightarrow> bool" where
  "client_class c \<longleftrightarrow> (case c of CProxifier d \<Rightarrow> pf_clientCtx d = None | CProxifierUpstreamer _ \<Rightarrow> True
     | CProxifierDownstreamer _ \<Rightarrow> True | CReadableDeferReactor _ \<Rightarrow> True | CSessionSupplicationAgent _ \<Rightarrow> True
     | CTFOCookieSupplicationAgent _ \<Rightarrow> True | _ \<Rightarrow> False)"

definition plain :: "reactor \<Rightarrow> bool" where
  "plain x \<longleftrightarrow> sk_tls (sock x) = None \<and> sk_tls (srcSock x) = None \<and> sk_tls (dstSock x) = None"

definition mode_object :: "Mode \<Rightarrow> reactor \<Rightarrow> bool" where
  "mode_object md x \<longleftrightarrow> (if md = M_PROXIFIER then client_class (cls x) \<and> plain x else server_class (cls x))"

definition served_object :: "Mode \<Rightarrow> reactor \<Rightarrow> bool" where
  "served_object md x \<longleftrightarrow> mode_object md x \<and> sb_ok (buf x)"

definition served :: "Mode \<Rightarrow> world \<Rightarrow> bool" where
  "served md w \<longleftrightarrow> (\<forall>r x. reactors w r = Some x \<longrightarrow> served_object md x)"

text \<open>libsocks6msg does not claim to have parsed more bytes than it was given.\<close>

definition parse_ok :: "env \<Rightarrow> bool" where
  "parse_ok E \<longleftrightarrow> (\<forall>xs rq n. parseRequest E xs = Inr (rq, n) \<longrightarrow> n \<le> length xs) \<and>
     (\<forall>xs rep n. parseAuthReply E xs = Inr (rep, n) \<longrightarrow> n \<le> length xs) \<and>
     (\<forall>xs code n. parseOpReply E xs = Inr (code, n) \<longrightarrow> n \<le> length xs)"

lemma parse_okD:
  "parse_ok E \<Longrightarrow> parseAuthReply E xs = Inr (rep, n) \<Longrightarrow> n \<le> length xs"
  "parse_ok E \<Longrightarrow> parseOpReply E xs = Inr (code, k) \<Longrightarrow> k \<le> length xs"
  by (auto simp: parse_ok_def)

lemma servedD: "served md w \<Longrightarrow> reactors w r = Some x \<Longrightarrow> mode_object md x \<and> sb_ok (buf x)"
  by (simp add: served_def served_object_def)

lemma served_upd: "served md w \<Longrightarrow> served_object md x \<Longrightarrow> reactors v = (reactors w)(r \<mapsto> x) \<Longrightarrow> served md v"
  by (auto simp: served_def split: if_splits)

lemma served_heap: "reactors v = reactors w \<Longrightarrow> served md v \<longleftrightarrow> served md w"
  by (simp add: served_def)

lemma served_keptI: "(\<And>w. served md w \<Longrightarrow> served md (snd (m w))) \<Longrightarrow> keeps (preserves (served md)) m"
  by (simp add: keeps_def preserves_def)

lemma served_kept: "keeps (preserves (served md)) m \<Longrightarrow> m w = (res, w') \<Longrightarrow> served md w \<Longrightarrow> served md w'"
  using preservesD[of "served md" m w res w'] by simp

section \<open>Methods that change no buffer\<close>

lemma served_extcall [keeps_intro]: "keeps (preserves (served md)) (extcall E c)"
  by (rule served_keptI) (simp add: run_extcall served_def)

lemma served_checked [keeps_intro]: "keeps (preserves (served md)) (checked E c)"
  unfolding checked_def by (intro pres.keeps_rules keeps_intro)

lemma served_modR [keeps_intro]:
  "(\<And>x. served_object md x \<Longrightarrow> served_object md (f x)) \<Longrightarrow> keeps (preserves (served md)) (modR r f)"
  by (rule served_keptI) (auto simp: modR_def served_def split: option.splits)

lemma served_newR [keeps_intro]: "served_object md x \<Longrightarrow> keeps (preserves (served md)) (newR x)"
  by (rule served_keptI) (simp add: newR_def served_def)

lemma mode_object_simps [simp]:
  "mode_object md (x\<lparr>buf := b\<rparr>) = mode_object md x" "mode_object md (x\<lparr>active := f\<rparr>) = mode_object md x"
  "mode_object md (x\<lparr>streamState := st\<rparr>) = mode_object md x" "mode_object md (x\<lparr>listenFD := fd\<rparr>) = mode_object md x"
  "mode_object md (x\<lparr>sock := (sock x)\<lparr>sk_fd := fd\<rparr>\<rparr>) = mode_object md x"
  "mode_object md (x\<lparr>srcSock := (srcSock x)\<lparr>sk_fd := fd\<rparr>\<rparr>) = mode_object md x"
  "mode_object md (x\<lparr>dstSock := (dstSock x)\<lparr>sk_fd := fd\<rparr>\<rparr>) = mode_object md x"
  "mode_object M_PROXY x = server_class (cls x)"
  by (simp_all add: mode_object_def plain_def)

lemma served_new: "server_class c \<Longrightarrow> served_object M_PROXY (new_reactor c)"
  by (simp add: served_object_def new_reactor_def new_buffer_ok)

lemma served_classes:
  "server_class (CProxy p)" "server_class (CProxyUpstreamer u)" "server_class (CAuthServer a)"
  "server_class CSimpleProxyDownstreamer" "server_class (CConnectProxyDownstreamer q)" "server_class CResolver"
  by (simp_all add: server_class_def)

lemma served_fields:
  "served_object M_PROXY x \<Longrightarrow> served_object M_PROXY (x\<lparr>sock := s\<rparr>)"
  "served_object M_PROXY x \<Longrightarrow> served_object M_PROXY (x\<lparr>srcSock := s\<rparr>)"
  "served_object M_PROXY x \<Longrightarrow> served_object M_PROXY (x\<lparr>dstSock := s\<rparr>)"
  "served_object md x \<Longrightarrow> served_object md (x\<lparr>streamState := st\<rparr>)"
  "served_object md x \<Longrightarrow> served_object md (x\<lparr>listenFD := fd\<rparr>)" "served_object md x \<Longrightarrow> served_object md (x\<lparr>active := b\<rparr>)"
  by (simp_all add: served_object_def)

lemma served_basic [keeps_intro]:
  "keeps (preserves (served md)) (getR r)" "keeps (preserves (served md)) (deleteR r)"
  "keeps (preserves (served md)) (entry_at fd)" "keeps (preserves (served md)) (set_entry n e)"
  by (auto simp: keeps_def preserves_def getR_def deleteR_def entry_at_def set_entry_def run_basic served_def
      split: option.splits)

lemma served_others [keeps_intro]:
  "keeps (preserves (served md)) (getT t)" "keeps (preserves (served md)) (modT t g)" "keeps (preserves (served md)) (PR_SetError e)"
  "keeps (preserves (served md)) (set_blockDirection d)" "keeps (preserves (served md)) (newT fd)"
  "keeps (preserves (served md)) (deleteT t)" "keeps (preserves (served md)) (setReadFD t fd)"
  "keeps (preserves (served md)) (setWriteFD t fd)" "keeps (preserves (served md)) (getSS s)"
  "keeps (preserves (served md)) (newSS sid)" "keeps (preserves (served md)) (modSS s f)" "keeps (preserves (served md)) Poller_stop"
  by (auto simp: keeps_def preserves_def getT_def modT_def PR_SetError_def set_blockDirection_def newT_def deleteT_def
      setReadFD_def setWriteFD_def getSS_def newSS_def modSS_def Poller_stop_def run_basic served_def split: option.splits)

lemma served_poller [keeps_intro]:
  "keeps (preserves (served md)) (isActive r)" "keeps (preserves (served md)) (Poller_add E r fd ev)"
  "keeps (preserves (served md)) (Poller_remove E fd False)" "keeps (preserves (served md)) (Poller_new E k)"
proof -
  show a: "keeps (preserves (served md)) (isActive r)" unfolding isActive_def by (intro pres.keeps_rules keeps_intro)
  show "keeps (preserves (served md)) (Poller_add E r fd ev)"
    unfolding Poller_add_def runIfActive_def by (intro pres.keeps_rules keeps_intro a)
  show "keeps (preserves (served md)) (Poller_remove E fd False)"
    unfolding Poller_remove_def by (intro pres.keeps_rules keeps_intro)
  show "keeps (preserves (served md)) (Poller_new E k)"
    by (rule served_keptI) (auto simp: Poller_new_def bindM_def run_extcall run_basic served_def)
qed

lemma served_uniqfd [keeps_intro]:
  "keeps (preserves (served md)) (UniqFD_assign a b)" "keeps (preserves (served md)) (UniqFD_reset E fd)"
  "keeps (preserves (served md)) (UniqFD_destroy E fd)" "keeps (preserves (served md)) (UniqRecvFD_reset E fd)"
  "keeps (preserves (served md)) (UniqRecvFD_destroy E fd)" "keeps (preserves (served md)) (UniqSendFD_reset E fd)"
  "keeps (preserves (served md)) (UniqSendFD_destroy E fd)" "keeps (preserves (served md)) (UniqRecvFD_move_assign a b)"
  "keeps (preserves (served md)) (UniqSendFD_move_assign a b)"
  unfolding uniqfd_defs by (intro pres.keeps_rules keeps_intro)+

lemma served_deactivates [keeps_intro]:
  "keeps (preserves (served md)) (Reactor_deactivate r)" "keeps (preserves (served md)) (ListenReactor_deactivate E r)"
  "keeps (preserves (served md)) (StickReactor_deactivate E r)" "keeps (preserves (served md)) (StreamReactor_deactivate E r)"
  "keeps (preserves (served md)) (TimeoutReactor_deactivate E r)" "keeps (preserves (served md)) (AuthServer_deactivate E r u)"
  unfolding deactivate_defs by (intro pres.keeps_rules keeps_intro served_fields; assumption)+

lemma served_deactivate [keeps_intro]: "keeps (preserves (served md)) (deactivate E r)"
  unfolding deactivate_def by (intro pres.keeps_rules keeps_intro keeps_class_case)

lemma served_runAs [keeps_intro]: "keeps (preserves (served md)) m \<Longrightarrow> keeps (preserves (served md)) (Poller_runAs E r m)"
  unfolding Poller_runAs_def by (intro pres.keeps_rules keeps_intro keeps_exn_case)

lemma served_assign [keeps_intro]: "keeps (preserves (served md)) m \<Longrightarrow> keeps (preserves (served md)) (Poller_assign E r m)"
  unfolding Poller_assign_def by (rule served_runAs)

lemma served_layer [keeps_intro]:
  "keeps (preserves (served md)) (mapError e)" "keeps (preserves (served md)) (mapError_override ov e)"
  "keeps (preserves (served md)) (dRecv E t n)" "keeps (preserves (served md)) (dSend E t xs)"
  "keeps (preserves (served md)) (dGetName E t)" "keeps (preserves (served md)) (dGetPeerName E t)"
  "keeps (preserves (served md)) (dRead E t n)" "keeps (preserves (served md)) (dWrite E t xs)"
  "keeps (preserves (served md)) invalidFn"
  unfolding tls_layer_defs mapError_override_def mapError_def by (intro pres.keeps_rules keeps_intro)+

lemma served_METHODS [keeps_intro]: "keeps (preserves (served md)) (METHODS E t c)"
  unfolding METHODS_def by (cases c) (auto intro!: pres.keeps_rules keeps_intro)

lemma served_callbacks [keeps_intro]: "keeps (preserves (served md)) (run_callbacks E t cs)"
  by (induction cs) (auto intro!: pres.keeps_rules keeps_intro)

lemma served_nss [keeps_intro]: "keeps (preserves (served md)) (nss E t c)"
  unfolding nss_def by (intro pres.keeps_rules keeps_intro)

lemma served_tls [keeps_intro]:
  "keeps (preserves (served md)) (tlsHandleErr fd)" "keeps (preserves (served md)) (tlsDisableEarlyData E t)"
  "keeps (preserves (served md)) (TLS_new E ctx fd)" "keeps (preserves (served md)) (buffered r)"
  unfolding tlsHandleErr_def tlsDisableEarlyData_def TLS_new_def nss_checked_def buffered_def
  by (intro pres.keeps_rules keeps_intro)+

section \<open>Methods that change a buffer\<close>

lemma served_buf:
  assumes "served md w" "reactors w r = Some x" "sb_ok b" "reactors v = (reactors w)(r \<mapsto> x\<lparr>buf := b\<rparr>)"
  shows "served md v"
  by (rule served_upd[OF assms(1) _ assms(4)]) (use servedD[OF assms(1,2)] assms(3) in \<open>simp add: served_object_def\<close>)

text \<open>Without an object the method stops before it does anything.\<close>

lemma served_io:
  assumes "\<And>w x. reactors w r = Some x \<Longrightarrow> sb_ok (buf x) \<Longrightarrow>
      \<exists>b. reactors (snd (m w)) = (reactors w)(r \<mapsto> x\<lparr>buf := b\<rparr>) \<and> sb_ok b"
    and "\<And>w. reactors w r = None \<Longrightarrow> snd (m w) = w"
  shows "keeps (preserves (served md)) m"
proof (rule served_keptI)
  fix w assume w: "served md w"
  show "served md (snd (m w))"
  proof (cases "reactors w r")
    case (Some x)
    then obtain b where "reactors (snd (m w)) = (reactors w)(r \<mapsto> x\<lparr>buf := b\<rparr>)" "sb_ok b"
      using assms(1) servedD[OF w Some] by blast
    then show ?thesis by (intro served_buf[OF w Some])
  qed (use w assms(2) in simp)
qed

lemma served_read:
  assumes "read_law s r m" "\<And>w. reactors w r = None \<Longrightarrow> snd (m w) = w"
  shows "keeps (preserves (served md)) m"
proof (rule served_io)
  fix w :: world and x assume "reactors w r = Some x" "sb_ok (buf x)"
  then show "\<exists>b. reactors (snd (m w)) = (reactors w)(r \<mapsto> x\<lparr>buf := b\<rparr>) \<and> sb_ok b"
    using assms(1)[unfolded read_law_def, rule_format, of w x "fst (m w)" "snd (m w)"] by auto
qed (rule assms(2))

lemma served_write:
  assumes "write_law d r m" "\<And>w. reactors w r = None \<Longrightarrow> snd (m w) = w"
  shows "keeps (preserves (served md)) m"
proof (rule served_io)
  fix w :: world and x assume "reactors w r = Some x" "sb_ok (buf x)"
  then show "\<exists>b. reactors (snd (m w)) = (reactors w)(r \<mapsto> x\<lparr>buf := b\<rparr>) \<and> sb_ok b"
    using assms(1)[unfolded write_law_def, rule_format, of w x "fst (m w)" "snd (m w)"] by auto
qed (rule assms(2))

lemma no_object:
  fixes w :: world
  assumes "reactors w r = None"
  shows "getR r w = (Abort DanglingReference, w)" "buffered r w = (Abort DanglingReference, w)"
  using assms by (simp_all add: getR_def buffered_def bindM_def)

lemma served_sockRecv [keeps_intro]: "io_ok E \<Longrightarrow> keeps (preserves (served md)) (sockRecv E s r)"
  by (rule served_read[OF sockRecv_law[OF _ sock_after_refl]])
    (auto simp: sockRecv_def tlsRead_def tcpRecv_def bindM_def no_object split: option.split)

lemma served_sockSend [keeps_intro]: "io_ok E \<Longrightarrow> keeps (preserves (served md)) (sockSend E s r)"
  by (rule served_write[OF sockSend_law[OF _ sock_after_refl]])
    (auto simp: sockSend_def tlsWrite_def tcpSend_def bindM_def no_object split: option.split)

lemma served_leave:
  assumes "served md w" "reactors w r = Some x" "0 \<le> n" "n \<le> int (length (contents (buf x)))"
  shows "served md (snd (modBuf r (unuse (word_of_int n)) w))"
proof -
  have x: "mode_object md x" "sb_ok (buf x)" using servedD[OF assms(1,2)] by auto
  note un = unuse_run[OF assms(2) x(2) assms(3,4)]
  show ?thesis by (rule served_buf[OF assms(1,2) un(2)]) (simp add: un(1))
qed

lemma served_store [keeps_intro]: "keeps (preserves (served md)) (buf_receive r xs (int (length xs)))"
proof (rule served_keptI)
  fix w assume w: "served md w"
  show "served md (snd (buf_receive r xs (int (length xs)) w))"
  proof (cases "reactors w r")
    case (Some x)
    with w have x: "mode_object md x" "sb_ok (buf x)" using servedD[of _ w r x] by auto
    show ?thesis
    proof (cases "length xs \<le> unat (availSize (buf x))")
      case True
      show ?thesis
        by (rule served_buf[OF w Some store_ok(1)[OF x(2) True]]) (simp add: buf_receive_run[OF Some x(2) True])
    next
      case False
      then have "\<not> unat (tail (buf x)) + length xs \<le> 35840" using unat_availSize[OF x(2)] by simp
      then have "\<exists>e. buf_receive r xs (int (length xs)) w = (Abort e, w)"
        using Some by (auto simp: buf_receive_def getTail_store_def bindM_def run_basic run_getR)
      with w show ?thesis by auto
    qed
  qed (use w in \<open>simp add: buf_receive_def bindM_def no_object\<close>)
qed

lemma served_tfo [keeps_intro]:
  assumes "io_ok E"
  shows "keeps (preserves (served md)) (tcpSendTFO E s r m a)"
proof (rule served_keptI)
  fix w assume w: "served md w"
  show "served md (snd (tcpSendTFO E s r m a w))"
  proof (cases "reactors w r")
    case (Some x)
    with w have x: "sb_ok (buf x)" using servedD[of _ w r x] by auto
    let ?xs = "take (unat (min (usedSize (buf x)) m)) (contents (buf x))"
    let ?c = "SendToTFO (sk_fd s) ?xs a"
    let ?rc = "os E (hist w) ?c"
    let ?w1 = "w\<lparr>hist := hist w @ [(?c, ?rc)]\<rparr>"
    note run = tcpSendTFO_eq[OF Some x, of E s m a]
    have w1: "served md ?w1" "reactors ?w1 r = Some x" using w Some by (simp_all add: served_def)
    show ?thesis
    proof (cases "0 < c_rc ?rc")
      case True
      have "c_rc ?rc \<le> int (length (contents (buf x)))"
        using io_okD(4)[OF assms, of "hist w" "sk_fd s" ?xs a] True by (auto simp: min_le_iff_disj)
      from served_leave[OF w1 _ this] True
      have "served md (snd (seqM (modBuf r (unuse (word_of_int (c_rc ?rc)))) (ret (c_rc ?rc)) ?w1))"
        by (auto simp: seqM_def bindM_def run_basic split: prod.split outcome.split)
      with True run show ?thesis by (simp add: Let_def)
    qed (use run w1 in \<open>simp add: Let_def\<close>)
  qed (use w in \<open>simp add: tcpSendTFO_def bindM_def no_object\<close>)
qed

lemma served_socket [keeps_intro]:
  "io_ok E \<Longrightarrow> keeps (preserves (served md)) (sockConnect E s r a m e)"
  "keeps (preserves (served md)) (getConnectError E s)" "keeps (preserves (served md)) (duplicate_for_read E s s')"
  "keeps (preserves (served md)) (duplicate_for_write E s s')" "keeps (preserves (served md)) (keepAlive E s)"
  unfolding sockConnect_def tcpDeferredConnect_def tcpConnect_def getConnectError_def duplicate_for_read_def
    duplicate_for_write_def keepAlive_def
  by (intro pres.keeps_rules keeps_intro; assumption)+

lemma served_pack [keeps_intro]: "keeps (preserves (served md)) (pack_into r pk)"
  unfolding pack_into_def by (intro pres.keeps_rules keeps_intro)

section \<open>Reactors of the proxy\<close>

lemma served_dup [keeps_intro]:
  "keeps (preserves (served M_PROXY)) (dup_dstSock E r u)" "keeps (preserves (served M_PROXY)) (dup_srcSock E r u)"
  unfolding dup_dstSock_def dup_srcSock_def by (intro pres.keeps_rules keeps_intro served_fields; assumption)+

lemma served_getters [keeps_intro]:
  "keeps (preserves (served M_PROXY)) (getPU r)" "keeps (preserves (served M_PROXY)) (getAS r)" "keeps (preserves (served M_PROXY)) (the_request d)"
  "keeps (preserves (served M_PROXY)) (getProxy p)"
  unfolding getPU_def getAS_def the_request_def getProxy_def
  by (intro pres.keeps_rules keeps_intro keeps_class_case)+

lemma served_setters [keeps_intro]:
  "keeps (preserves (served M_PROXY)) (modPU r f)" "keeps (preserves (served M_PROXY)) (modAS r g)" "keeps (preserves (served M_PROXY)) (modProxy p h)"
  unfolding modPU_def modAS_def modProxy_def
  by (intro served_modR; auto simp: served_object_def server_class_def split: rclass.splits)+

lemma served_codes [keeps_intro]:
  "keeps (preserves (served M_PROXY)) (set_reply_code r c)" "keeps (preserves (served M_PROXY)) (set_pu_state r t)"
  "keeps (preserves (served M_PROXY)) (set_listenFD r fd)" "keeps (preserves (served M_PROXY)) (set_streamState r s)"
  unfolding set_reply_code_def set_pu_state_def set_listenFD_def set_streamState_def
  by (intro pres.keeps_rules keeps_intro served_fields; assumption)+

lemma served_close [keeps_intro]:
  "keeps (preserves (served M_PROXY)) (reset_srcSock E r)" "keeps (preserves (served M_PROXY)) (reset_dstSock E r)"
  unfolding reset_srcSock_def reset_dstSock_def by (intro pres.keeps_rules keeps_intro served_fields; assumption)+

lemma served_close_socks [keeps_intro]:
  "keeps (preserves (served M_PROXY)) (close_srcSock E r)" "keeps (preserves (served M_PROXY)) (close_dstSock E r)"
  unfolding close_srcSock_def close_dstSock_def by (intro pres.keeps_rules keeps_intro)+

lemma served_destroy [keeps_intro]:
  "keeps (preserves (served M_PROXY)) (StreamReactor_destroy E r)" "keeps (preserves (served M_PROXY)) (StickReactor_destroy E r)"
  "keeps (preserves (served M_PROXY)) (ListenReactor_unwind E r)"
  unfolding StreamReactor_destroy_def StickReactor_destroy_def ListenReactor_unwind_def
  by (intro pres.keeps_rules keeps_intro)+

lemma served_construct [keeps_intro]:
  "keeps (preserves (served M_PROXY)) (destroy r) \<Longrightarrow> keeps (preserves (served M_PROXY)) body \<Longrightarrow>
   keeps (preserves (served M_PROXY)) (construct destroy r body)"
  unfolding construct_def by (intro pres.keeps_rules)

lemma served_stream [keeps_intro]:
  assumes "io_ok E"
  shows "keeps (preserves (served M_PROXY)) (StreamReactor_process E r)" "keeps (preserves (served M_PROXY)) (StreamReactor_start E r)"
  unfolding StreamReactor_process_def StreamReactor_start_def StreamReactor_sending_def StreamReactor_receiving_def
  by (intro pres.keeps_rules keeps_intro keeps_choices assms)+

lemma served_sessions [keeps_intro]:
  "keeps (preserves (served M_PROXY)) (ServerSession_new E)" "keeps (preserves (served M_PROXY)) (getID s)"
  "keeps (preserves (served M_PROXY)) (getTokenBank s)" "keeps (preserves (served M_PROXY)) (makeBank E s sz)"
  "keeps (preserves (served M_PROXY)) (getPasswordChecker p)" "keeps (preserves (served M_PROXY)) (getSession p sid)"
  unfolding auth_defs by (intro pres.keeps_rules keeps_intro)+

lemma served_spawn [keeps_intro]: "keeps (preserves (served M_PROXY)) (spawnSession E p)"
proof -
  have "keeps (preserves (served M_PROXY)) (spawnSession_loop E p n)" for n
    by (induction n) (simp_all, (intro pres.keeps_rules keeps_intro | assumption)+)
  then show ?thesis by (simp add: spawnSession_def)
qed

lemma served_authenticate [keeps_intro]: "keeps (preserves (served M_PROXY)) (authenticate E opts p)"
  unfolding authenticate_def authenticate_user_def authenticate_session_def authenticate_idempotence_def Let_def
  by (intro pres.keeps_rules keeps_intro)

lemma served_downstreamers [keeps_intro]:
  "keeps (preserves (served M_PROXY)) (SimpleProxyDownstreamer_new E u rep)"
  "keeps (preserves (served M_PROXY)) (SimpleProxyDownstreamer_new_version E u)"
  "keeps (preserves (served M_PROXY)) (ConnectProxyDownstreamer_new E u rep)" "keeps (preserves (served M_PROXY)) (AuthServer_new E u)"
  unfolding SimpleProxyDownstreamer_new_def SimpleProxyDownstreamer_new_version_def
    ConnectProxyDownstreamer_new_def AuthServer_new_def
  by (intro pres.keeps_rules keeps_intro served_new served_classes served_fields; assumption)+

lemma served_ProxyUpstreamer_new [keeps_intro]: "keeps (preserves (served M_PROXY)) (ProxyUpstreamer_new E p fd)"
  unfolding ProxyUpstreamer_new_def
  by (intro pres.keeps_rules keeps_intro served_new served_classes served_fields; assumption)

lemma served_assign_simple [keeps_intro]: "io_ok E \<Longrightarrow> keeps (preserves (served M_PROXY)) (assign_simple E r)"
  unfolding assign_simple_def by (intro pres.keeps_rules keeps_intro)

text \<open>
  The request: what libsocks6msg takes for the request is in the buffer, and remembering the request
  does not touch the buffer.
\<close>

lemma modPU_buf:
  fixes w :: world
  assumes "reactors w r = Some x"
  obtains y where "modPU r f w = (Ret (), w\<lparr>reactors := (reactors w)(r \<mapsto> y)\<rparr>)" "buf y = buf x"
    "class_tag (cls y) = class_tag (cls x)"
  by (rule that[of "case cls x of CProxyUpstreamer d \<Rightarrow> x\<lparr>cls := CProxyUpstreamer (f d)\<rparr> | _ \<Rightarrow> x"])
    (use assms in \<open>auto simp: modPU_def run_modR split: rclass.split\<close>)

lemma served_parsed:
  assumes "parse_ok E" "\<And>e. keeps (preserves (served M_PROXY)) (f e)" "keeps (preserves (served M_PROXY)) m"
  shows "keeps (preserves (served M_PROXY)) (bindM (buffered r) (\<lambda>bb. case parseRequest E bb of Inl e \<Rightarrow> f e
     | Inr (rq, used) \<Rightarrow> seqM (modPU r (g rq)) (seqM (modBuf r (unuse (of_nat used))) m)))"
    (is "keeps _ ?m")
proof (rule served_keptI)
  fix w assume w: "served M_PROXY w"
  show "served M_PROXY (snd (?m w))"
  proof (cases "reactors w r")
    case (Some x)
    with w have x: "sb_ok (buf x)" using servedD[of _ w r x] by auto
    have run: "?m w = (case parseRequest E (contents (buf x)) of Inl e \<Rightarrow> f e
       | Inr (rq, used) \<Rightarrow> seqM (modPU r (g rq)) (seqM (modBuf r (unuse (of_nat used))) m)) w"
      by (rule run_bind(1)) (rule buffered_run[OF Some x])
    show ?thesis
    proof (cases "parseRequest E (contents (buf x))")
      case (Inl e)
      with assms(2)[of e] w show ?thesis by (simp add: run keeps_def preserves_def)
    next
      case (Inr p)
      obtain rq used where p: "p = (rq, used)" by fastforce
      obtain y where y: "modPU r (g rq) w = (Ret (), w\<lparr>reactors := (reactors w)(r \<mapsto> y)\<rparr>)" "buf y = buf x"
        using Some by (rule modPU_buf)
      let ?v = "w\<lparr>reactors := (reactors w)(r \<mapsto> y)\<rparr>"
      have v: "served M_PROXY ?v" by (rule served_kept[OF served_setters(1) y(1) w])
      have "used \<le> length (contents (buf y))" using assms(1) Inr p y by (auto simp: parse_ok_def)
      then have "served M_PROXY (snd (modBuf r (unuse (word_of_int (int used))) ?v))" by (intro served_leave[OF v, of _ y]) auto
      then have "served M_PROXY (snd (seqM (modBuf r (unuse (of_nat used))) m ?v))"
        using assms(3) by (auto simp: seqM_def bindM_def keeps_def preserves_def split: prod.split outcome.split)
      moreover have "seqM (modPU r (g rq)) (seqM (modBuf r (unuse (of_nat used))) m) w =
          seqM (modBuf r (unuse (of_nat used))) m ?v" by (rule run_seq(1)) (rule y(1))
      ultimately show ?thesis using Inr p by (simp add: run)
    qed
  qed (use w in \<open>simp add: bindM_def no_object\<close>)
qed

lemma served_connect [keeps_intro]:
  assumes "io_ok E"
  shows "keeps (preserves (served M_PROXY)) (ProxyUpstreamer_readTFO E r)" "keeps (preserves (served M_PROXY)) (ProxyUpstreamer_connect E r)"
  unfolding ProxyUpstreamer_readTFO_def ProxyUpstreamer_connect_def
  by (intro pres.keeps_rules keeps_intro keeps_exn_case assms)+

lemma served_stack_options [keeps_intro]:
  "keeps (preserves (served M_PROXY)) (honorConnectStackOptions r)" "keeps (preserves (served M_PROXY)) (populateConnectStackOptions E r)"
  unfolding honorConnectStackOptions_def populateConnectStackOptions_def by (intro pres.keeps_rules keeps_intro)+

lemma served_honorConnect [keeps_intro]:
  assumes "io_ok E"
  shows "keeps (preserves (served M_PROXY)) (honorConnect E r)"
  unfolding honorConnect_def ProxyUpstreamer_tfo_def
  by (intro pres.keeps_rules keeps_intro assms) (rule served_fields)

lemma served_request [keeps_intro]:
  assumes "io_ok E"
  shows "keeps (preserves (served M_PROXY)) (honorRequest E r)"
  unfolding honorRequest_def by (intro pres.keeps_rules keeps_intro keeps_choices assms)

lemma served_authDone [keeps_intro]: "io_ok E \<Longrightarrow> keeps (preserves (served M_PROXY)) (authDone E r)"
  unfolding authDone_def addrFixupAndHonorRequest_def by (intro pres.keeps_rules keeps_intro keeps_choices)

lemma served_sendReply [keeps_intro]: "io_ok E \<Longrightarrow> keeps (preserves (served M_PROXY)) (sendReply E r)"
  unfolding sendReply_def by (intro pres.keeps_rules keeps_intro)

lemma served_AuthServer [keeps_intro]:
  "io_ok E \<Longrightarrow> keeps (preserves (served M_PROXY)) (AuthServer_start E r)"
  "io_ok E \<Longrightarrow> keeps (preserves (served M_PROXY)) (AuthServer_process E r)"
  unfolding AuthServer_start_def AuthServer_process_def by (intro keeps_intro; assumption)+

lemma served_readReq [keeps_intro]:
  assumes "io_ok E" "parse_ok E"
  shows "keeps (preserves (served M_PROXY)) (ProxyUpstreamer_readReq E r)"
  unfolding ProxyUpstreamer_readReq_def
  by (intro served_parsed pres.keeps_rules keeps_intro keeps_exn_case assms)

lemma served_ProxyUpstreamer [keeps_intro]:
  assumes "io_ok E" "parse_ok E"
  shows "keeps (preserves (served M_PROXY)) (ProxyUpstreamer_process E r)"
  unfolding ProxyUpstreamer_process_def ProxyUpstreamer_connecting_def ProxyUpstreamer_tfo_def
  by (intro pres.keeps_rules keeps_intro keeps_choices keeps_exn_case assms)

section \<open>The listeners and the loop\<close>

lemma served_handleNewConnection [keeps_intro]:
  assumes "io_ok E" "parse_ok E"
  shows "keeps (preserves (served M_PROXY)) (Proxy_handleNewConnection E p fd)"
  unfolding Proxy_handleNewConnection_def ProxyUpstreamer_start_def by (intro pres.keeps_rules keeps_intro assms)

lemma served_listen_start [keeps_intro]: "keeps (preserves (served M_PROXY)) (ListenReactor_start E r)"
  unfolding ListenReactor_start_def by (intro pres.keeps_rules keeps_intro)

lemma served_listen_loop:
  assumes "\<And>fd. keeps (preserves (served M_PROXY)) (h fd)"
  shows "keeps (preserves (served M_PROXY)) (ListenReactor_loop E h r n)"
  by (induction n) (simp_all, (intro pres.keeps_rules keeps_intro assms | assumption)+)

lemma served_Proxy [keeps_intro]:
  "io_ok E \<Longrightarrow> parse_ok E \<Longrightarrow> keeps (preserves (served M_PROXY)) (Proxy_process E p)"
  "keeps (preserves (served M_PROXY)) (Proxy_start E p)" "keeps (preserves (served M_PROXY)) (Proxy_new E a pc ctx)"
  unfolding Proxy_process_def ListenReactor_process_def Proxy_start_def Proxy_new_def ListenReactor_new_def
    ListenReactor_init_def
  by (intro served_listen_loop pres.keeps_rules keeps_intro served_new served_classes; assumption)+

lemma served_dispatch [keeps_intro]:
  assumes "io_ok E" "parse_ok E"
  shows "keeps (preserves (served M_PROXY)) (dispatch E r fd ev)"
proof (rule served_keptI)
  fix w assume w: "served M_PROXY w"
  have "keeps (preserves (served M_PROXY)) Resolver_process" unfolding Resolver_process_def by (intro pres.keeps_rules)
  moreover have "keeps (preserves (served M_PROXY)) (ConnectProxyDownstreamer_process E r)"
    unfolding ConnectProxyDownstreamer_process_def by (intro keeps_intro assms)
  moreover note served_Proxy(1)[OF assms] served_ProxyUpstreamer[OF assms] served_AuthServer(2)[OF assms(1)]
    served_stream(1)[OF assms(1)]
  ultimately have m: "served M_PROXY (snd (m w))" if "m \<in> {Resolver_process, ConnectProxyDownstreamer_process E r,
      Proxy_process E r, ProxyUpstreamer_process E r, AuthServer_process E r, StreamReactor_process E r}" for m
    using w that by (auto simp: keeps_def preserves_def)
  show "served M_PROXY (snd (dispatch E r fd ev w))"
  proof (cases "reactors w r")
    case (Some x)
    with servedD[OF w Some] m show ?thesis
      by (cases "cls x") (auto simp: dispatch_def bindM_def run_getR server_class_def)
  qed (use w in \<open>simp add: dispatch_def bindM_def no_object\<close>)
qed

lemma served_loop:
  assumes "\<And>r fd ev. keeps (preserves (served M_PROXY)) (process r fd ev)"
  shows "keeps (preserves (served M_PROXY)) (threadFun E process n)"
proof -
  have "keeps (preserves (served M_PROXY)) (threadFun_pass E process)"
    unfolding threadFun_pass_def Let_def by (intro pres.keeps_rules keeps_intro assms)
  then show ?thesis by (induction n) (simp_all, (intro pres.keeps_rules | assumption)+)
qed

lemma served_join: "keeps (preserves (served M_PROXY)) (Poller_join E)"
proof -
  have "keeps (preserves (served M_PROXY)) (Poller_join_loop E ns)" for ns
    by (induction ns) (simp_all, (intro pres.keeps_rules keeps_intro | assumption)+)
  then show ?thesis unfolding Poller_join_def by (intro pres.keeps_rules)
qed

section \<open>The program\<close>

lemma served_global [keeps_intro]:
  "keeps (preserves (served M_PROXY)) (nss_global_call E g)" "keeps (preserves (served M_PROXY)) (tlsCheck rc)"
  unfolding nss_global_call_def tlsCheck_def by (intro pres.keeps_rules keeps_intro)+

lemmas library_defs = TLSLibrary_new_def TLSLibrary_destroy_def NSPRLibrary_new_def NSSLibrary_new_def
  TLSLibrary_configure_def NSSLibrary_destroy_def NSPRLibrary_destroy_def ignored_global_def checked_global_def
  main_contexts_def TLSContext_new_def TLSContext_destroy_def antiReplayCtxDeleter_def destroy_contexts_def Let_def

lemma served_library [keeps_intro]:
  "keeps (preserves (served M_PROXY)) (TLSLibrary_new E dir)" "keeps (preserves (served M_PROXY)) (TLSLibrary_destroy E)"
  "keeps (preserves (served M_PROXY)) (main_contexts E s)" "keeps (preserves (served M_PROXY)) (destroy_contexts E cctx sctx)"
  unfolding library_defs by (intro pres.keeps_rules keeps_intro keeps_exn_case)+

lemma served_listeners: "mode s \<noteq> M_PROXIFIER \<Longrightarrow> keeps (preserves (served M_PROXY)) (main_listeners E s pc cctx sctx)"
  unfolding main_listeners_def by (simp only: if_False) (intro pres.keeps_rules keeps_intro)

lemma served_main_run:
  assumes "io_ok E" "parse_ok E" "mode s \<noteq> M_PROXIFIER"
  shows "keeps (preserves (served M_PROXY)) (main_run E s pc n)"
  unfolding main_run_def main_loop_def scoped_def
  by (intro pres.keeps_rules keeps_intro served_loop served_join served_listeners assms)

lemma options_mode:
  "parse_options E argv s = Some s' \<Longrightarrow> (CHR ''m'', ''proxify'') \<notin> set argv \<Longrightarrow> mode s \<noteq> M_PROXIFIER \<Longrightarrow>
   mode s' \<noteq> M_PROXIFIER"
proof (induction argv arbitrary: s)
  case (Cons opt opts)
  then obtain t where t: "parse_option E opt s = Some t" "parse_options E opts t = Some s'"
    by (auto split: option.splits)
  obtain c arg where "opt = (c, arg)" by fastforce
  with Cons.prems t(1) have "mode t \<noteq> M_PROXIFIER"
    by (auto simp: parse_option_def Let_def split: if_splits)
  with Cons t(2) show ?case by simp
qed simp

lemma settings_mode: "check_settings s = Ret (Some (s', pc)) \<Longrightarrow> mode s' = mode s"
  by (auto simp: check_settings_def Let_def split: if_splits sum.splits)

lemma served_main:
  assumes "io_ok E" "parse_ok E" "(CHR ''m'', ''proxify'') \<notin> set argv"
  shows "keeps (preserves (served M_PROXY)) (main E argv n)"
proof (cases "parse_options E argv (initial_settings E)")
  case (Some s)
  then have s: "mode s \<noteq> M_PROXIFIER"
    by (rule options_mode) (use assms(3) in \<open>simp_all add: initial_settings_def\<close>)
  have "keeps (preserves (served M_PROXY)) (with_library E t (main_run E t pc n))" if "mode t \<noteq> M_PROXIFIER" for t pc
    unfolding with_library_def scoped_def by (intro pres.keeps_rules keeps_intro served_main_run assms that)
  then have run: "keeps (preserves (served M_PROXY)) (tryM (with_library E t (main_run E t pc n)) (\<lambda>_. ret EXIT_FAILURE))"
    if "mode t \<noteq> M_PROXIFIER" for t pc
    using that by (intro pres.keeps_rules)
  show ?thesis
  proof (rule served_keptI)
    fix w assume w: "served M_PROXY w"
    show "served M_PROXY (snd (main E argv n w))"
    proof (cases "\<exists>t pc. check_settings s = Ret (Some (t, pc))")
      case True
      then obtain t pc where t: "check_settings s = Ret (Some (t, pc))" by blast
      with s settings_mode[OF t] keepsD[OF run, of t w pc] w Some show ?thesis
        by (simp add: main_def bindM_def run_basic preserves_def)
    next
      case False
      with w Some show ?thesis
        by (auto simp: main_def bindM_def run_basic split: outcome.split option.split)
    qed
  qed
qed (simp add: main_def served_keptI run_basic)

text \<open>
  C8: every state that \<open>main\<close> reaches without the option \<open>-m proxify\<close> is well-formed: each object is of
  a class of the proxy and its buffer's indices are in order and in bounds.\<close>

theorem proxy_data_wellformed:
  assumes "io_ok E" "parse_ok E" "served M_PROXY w" "(CHR ''m'', ''proxify'') \<notin> set argv" "main E argv n w = (res, w')"
  shows "served M_PROXY w'"
  using served_main[OF assms(1,2,4)] assms(5,3) by (rule served_kept)

lemma scenario_parse_ok: "parse_ok (scenario as)"
  by (auto simp: parse_ok_def scenario_def split: list.splits if_splits)

lemma empty_world_served: "served M_PROXY (empty_world n)"
  by (simp add: served_def empty_world_def)

theorem proxy_data_wellformed_witness:
  "served M_PROXY (snd (main (scenario [returns 4, returns 3]) [(CHR ''m'', ''proxy''), (CHR ''l'', ''1080'')] 5 (empty_world 0)))"
proof -
  let ?argv = "[(CHR ''m'', ''proxy''), (CHR ''l'', ''1080'')]"
  have "(CHR ''m'', ''proxify'') \<notin> set ?argv" by simp
  from proxy_data_wellformed[OF scenario_io_ok scenario_parse_ok empty_world_served this]
  show ?thesis by (metis prod.collapse)
qed

end
