(* ===== verification/MemSafe.thy ===== *)
theory MemSafe
  imports Wellformed
begin

text \<open>
  Memory safety: \<open>main\<close> never indexes a buffer or the poller's table outside of its
  bounds. The poller's table has a fixed size and \<open>remove\<close> does not check its index, so this holds
  for descriptors that fit the table (\<open>fd_limit\<close>); \<open>descriptor_beyond_table\<close> shows what happens to
  others. The invariant \<open>snug\<close> adds to \<open>served\<close> that the descriptors of every object fit the table;
  \<open>yields I P m\<close> is a program logic for invariants: the method \<open>m\<close>, started in a state that satisfies
  \<open>I\<close>, leaves such a state, does not access memory out of bounds, and its value satisfies \<open>P\<close>.
\<close>

section \<open>The invariant and the logic\<close>

definition fits :: "nat \<Rightarrow> reactor \<Rightarrow> bool" where
  "fits N x \<longleftrightarrow> listenFD x < int N \<and> sk_fd (sock x) < int N \<and> sk_fd (srcSock x) < int N \<and> sk_fd (dstSock x) < int N"

definition snug :: "Mode \<Rightarrow> nat \<Rightarrow> world \<Rightarrow> bool" where
  "snug md N w \<longleftrightarrow> served md w \<and> fdCount w = N \<and> (\<forall>r x. reactors w r = Some x \<longrightarrow> fits N x)"

definition yields :: "(world \<Rightarrow> bool) \<Rightarrow> ('a \<Rightarrow> bool) \<Rightarrow> 'a M \<Rightarrow> bool" where
  "yields I P m \<longleftrightarrow> (\<forall>w res w'. I w \<and> m w = (res, w') \<longrightarrow>
     I w' \<and> res \<noteq> Abort OutOfBounds \<and> (\<forall>a. res = Ret a \<longrightarrow> P a))"

text \<open>Calls that give out a descriptor give out one that fits.\<close>

definition fd_call :: "call \<Rightarrow> bool" where
  "fd_call c \<longleftrightarrow> (case c of SocketFD _ \<Rightarrow> True | Accept4 _ \<Rightarrow> True | DupFD _ \<Rightarrow> True | _ \<Rightarrow> False)"

definition fd_limit :: "nat \<Rightarrow> env \<Rightarrow> bool" where
  "fd_limit N E \<longleftrightarrow> (\<forall>h c. fd_call c \<longrightarrow> c_rc (os E h c) < int N)"

text \<open>A message is packed into the room there is.\<close>

definition pack_ok :: "env \<Rightarrow> bool" where
  "pack_ok E \<longleftrightarrow> (\<forall>r n xs. packAuthReply E r n = Inr xs \<longrightarrow> length xs \<le> n) \<and>
     (\<forall>r n xs. packOpReply E r n = Inr xs \<longrightarrow> length xs \<le> n) \<and>
     (\<forall>r n xs. packRequest E r n = Inr xs \<longrightarrow> length xs \<le> n)"

named_theorems yields_intro

lemma yieldsI:
  "(\<And>w. I w \<Longrightarrow> I (snd (m w)) \<and> fst (m w) \<noteq> Abort OutOfBounds \<and> (\<forall>a. fst (m w) = Ret a \<longrightarrow> P a)) \<Longrightarrow>
   yields I P m"
  unfolding yields_def by (metis fst_conv snd_conv)

lemma yieldsD:
  assumes "yields I P m" "I w"
  shows "I (snd (m w))" "fst (m w) \<noteq> Abort OutOfBounds" "fst (m w) = Ret a \<Longrightarrow> P a"
  using assms unfolding yields_def by (metis prod.collapse)+

lemma yields_pure:
  "P a \<Longrightarrow> yields I P (ret a)" "yields I P (throw e)" "x \<noteq> OutOfBounds \<Longrightarrow> yields I P (abort x)"
  "yields I (\<lambda>_. True) (gets f)"
  by (auto simp: yields_def run_basic)

lemma yields_bind_result:
  assumes "yields I P m" "\<And>a. P a \<Longrightarrow> yields I Q (f a)"
  shows "yields I Q (bindM m f)"
proof (rule yieldsI)
  fix w assume w: "I w"
  note m = yieldsD[OF assms(1) w]
  show "I (snd (bindM m f w)) \<and> fst (bindM m f w) \<noteq> Abort OutOfBounds \<and>
      (\<forall>a. fst (bindM m f w) = Ret a \<longrightarrow> Q a)"
  proof (cases "fst (m w)")
    case (Ret a)
    then have "bindM m f w = f a (snd (m w))" by (intro run_bind(1)) (simp add: prod_eq_iff)
    with yieldsD[OF assms(2)[OF m(3)[OF Ret]] m(1)] show ?thesis by simp
  qed (use m in \<open>auto simp: bindM_def split: prod.splits outcome.splits\<close>)
qed

lemma yields_bind:
  assumes "yields I (\<lambda>_. True) m" "\<And>a. yields I Q (f a)"
  shows "yields I Q (bindM m f)"
  using assms by (rule yields_bind_result)

lemma yields_seq: "yields I (\<lambda>_. True) m \<Longrightarrow> yields I Q n \<Longrightarrow> yields I Q (seqM m n)"
  unfolding seqM_def by (rule yields_bind)

lemma yields_try:
  assumes "yields I P m" "\<And>e. yields I P (h e)"
  shows "yields I P (tryM m h)"
proof (rule yieldsI)
  fix w assume w: "I w"
  note m = yieldsD[OF assms(1) w]
  show "I (snd (tryM m h w)) \<and> fst (tryM m h w) \<noteq> Abort OutOfBounds \<and>
      (\<forall>a. fst (tryM m h w) = Ret a \<longrightarrow> P a)"
  proof (cases "fst (m w)")
    case (Throw e)
    then have "tryM m h w = h e (snd (m w))" by (intro run_try) (simp add: prod_eq_iff)
    with yieldsD[OF assms(2)[of e] m(1)] show ?thesis by simp
  qed (use m in \<open>auto simp: tryM_def split: prod.splits outcome.splits\<close>)
qed

lemma yields_cases:
  "(b \<Longrightarrow> yields I P m) \<Longrightarrow> (\<not> b \<Longrightarrow> yields I P n) \<Longrightarrow> yields I P (if b then m else n)"
  "yields I P n \<Longrightarrow> (\<And>a. yields I P (f a)) \<Longrightarrow> yields I P (case x of None \<Rightarrow> n | Some a \<Rightarrow> f a)"
  "(\<And>a. yields I P (g a)) \<Longrightarrow> (\<And>b. yields I P (h b)) \<Longrightarrow> yields I P (case y of Inl a \<Rightarrow> g a | Inr b \<Rightarrow> h b)"
  "(\<And>a b. p = (a, b) \<Longrightarrow> yields I P (k a b)) \<Longrightarrow> yields I P (case p of (a, b) \<Rightarrow> k a b)"
  "(\<And>v. yields I P (l v)) \<Longrightarrow> yields I P (Let t l)"
  by (auto split: option.split sum.split prod.split)

lemma yields_guard: "yields I (\<lambda>_. True) (assertM b)"
  by (auto simp: assertM_def yields_pure)

lemma yields_choices:
  "yields I P a \<Longrightarrow> yields I P b \<Longrightarrow> yields I P (case st of SS_RECEIVING \<Rightarrow> a | SS_SENDING \<Rightarrow> b)"
  "(\<And>a. yields I P (f1 a)) \<Longrightarrow> (\<And>a. yields I P (f2 a)) \<Longrightarrow> (\<And>a. yields I P (f3 a)) \<Longrightarrow>
     yields I P (case ad of IPv4 x \<Rightarrow> f1 x | IPv6 y \<Rightarrow> f2 y | Domain z \<Rightarrow> f3 z)"
  "yields I P a \<Longrightarrow> yields I P b \<Longrightarrow> (\<And>n. yields I P (g n)) \<Longrightarrow>
     yields I P (case c of SOCKS6_REQUEST_NOOP \<Rightarrow> a | SOCKS6_REQUEST_CONNECT \<Rightarrow> b | SOCKS6_REQUEST_OTHER n \<Rightarrow> g n)"
  "yields I P a \<Longrightarrow> yields I P b \<Longrightarrow> yields I P c' \<Longrightarrow> yields I P d \<Longrightarrow>
     yields I P (case ps of PU_READING_REQ \<Rightarrow> a | PU_READING_TFO_PAYLOAD \<Rightarrow> b | PU_CONNECTING \<Rightarrow> c' | PU_STREAM \<Rightarrow> d)"
  by (auto split: StreamState.split address.split reqcode.split ProxyUpState.split)

lemma yields_exn_case:
  assumes "\<And>a b. yields I P (f1 a b)" "\<And>a. yields I P (f2 a)" "\<And>a. yields I P (f3 a)" "\<And>a. yields I P (f4 a)"
    "\<And>a. yields I P (f5 a)" "\<And>a. yields I P (f6 a)" "yields I P f7" "yields I P f8" "\<And>a. yields I P (f9 a)"
  shows "yields I P (case e of RescheduleException a b \<Rightarrow> f1 a b | SystemError a \<Rightarrow> f2 a
     | RuntimeError a \<Rightarrow> f3 a | LengthError a \<Rightarrow> f4 a | InvalidArgument a \<Rightarrow> f5 a
     | TLSException a \<Rightarrow> f6 a | BadVersionException \<Rightarrow> f7 | EndOfBufferException \<Rightarrow> f8 | S6MException a \<Rightarrow> f9 a)"
  using assms by (simp split: exn.split)

lemma yields_class_case:
  assumes "\<And>x. yields I P (f1 x)" "\<And>x. yields I P (f2 x)" "\<And>x. yields I P (f3 x)" "\<And>x. yields I P (f4 x)"
    "yields I P f5" "\<And>x. yields I P (f6 x)" "\<And>x. yields I P (f7 x)" "\<And>x. yields I P (f8 x)" "\<And>x. yields I P (f9 x)"
    "\<And>x. yields I P (f10 x)" "\<And>x. yields I P (f11 x)" "\<And>x. yields I P (f12 x)" "yields I P f13"
  shows "yields I P (case c of CProxy x \<Rightarrow> f1 x | CProxifier x \<Rightarrow> f2 x | CProxyUpstreamer x \<Rightarrow> f3 x
     | CAuthServer x \<Rightarrow> f4 x | CSimpleProxyDownstreamer \<Rightarrow> f5 | CConnectProxyDownstreamer x \<Rightarrow> f6 x
     | CProxifierUpstreamer x \<Rightarrow> f7 x | CProxifierDownstreamer x \<Rightarrow> f8 x | CReadableDeferReactor x \<Rightarrow> f9 x
     | CSessionSupplicationAgent x \<Rightarrow> f10 x | CTFOCookieSupplicationAgent x \<Rightarrow> f11 x
     | CTimeoutReactor x \<Rightarrow> f12 x | CResolver \<Rightarrow> f13)"
  using assms by (simp split: rclass.split)

section \<open>Elementary methods\<close>

lemma snugD: "snug md N w \<Longrightarrow> served md w" "snug md N w \<Longrightarrow> fdCount w = N" "snug md N w \<Longrightarrow> reactors w r = Some x \<Longrightarrow> fits N x"
  by (auto simp: snug_def)

lemma snug_same: "snug md N w \<Longrightarrow> reactors v = reactors w \<Longrightarrow> fdCount v = fdCount w \<Longrightarrow> snug md N v"
  by (simp add: snug_def served_heap[of v w md])

lemma snug_upd:
  "snug md N w \<Longrightarrow> served_object md x \<Longrightarrow> fits N x \<Longrightarrow> reactors v = (reactors w)(r \<mapsto> x) \<Longrightarrow> fdCount v = fdCount w \<Longrightarrow> snug md N v"
  using served_upd[of md w x v r] by (auto simp: snug_def split: if_splits)

lemma yields_value: "yields (snug md N) (\<lambda>x. fits N x \<and> mode_object md x) (getR r)"
  by (rule yieldsI) (auto simp: getR_def snug_def served_def served_object_def split: option.split)

lemma yields_getR: "(\<And>x. fits N x \<Longrightarrow> mode_object md x \<Longrightarrow> yields (snug md N) Q (f x)) \<Longrightarrow>
   yields (snug md N) Q (bindM (getR r) f)"
  by (rule yields_bind_result[OF yields_value]) simp

lemma yields_answer:
  "fd_limit N E \<Longrightarrow> yields (snug md N) (\<lambda>rc. fd_call c \<longrightarrow> c_rc rc < int N) (extcall E c)"
  by (rule yieldsI) (auto simp: run_extcall fd_limit_def intro: snug_same)

lemma yields_extcall:
  "fd_limit N E \<Longrightarrow> (\<And>rc. (fd_call c \<longrightarrow> c_rc rc < int N) \<Longrightarrow> yields (snug md N) Q (f rc)) \<Longrightarrow>
   yields (snug md N) Q (bindM (extcall E c) f)"
  by (rule yields_bind_result[OF yields_answer])

lemma yields_call [yields_intro]: "fd_limit N E \<Longrightarrow> yields (snug md N) (\<lambda>_. True) (extcall E c)"
  by (rule yieldsI) (auto simp: run_extcall intro: snug_same)

lemma yields_checked [yields_intro]: "fd_limit N E \<Longrightarrow> yields (snug md N) (\<lambda>_. True) (checked E c)"
  unfolding checked_def by (intro yields_extcall yields_cases yields_pure TrueI)

lemma yields_assign: "yields (snug md N) Q (f b) \<Longrightarrow> yields (snug md N) Q (bindM (UniqFD_assign a b) f)"
  by (rule yields_bind_result[of "snug md N" "\<lambda>fd. fd = b"]) (auto simp: yields_def UniqFD_assign_def seqM_def bindM_def
      assertM_def run_basic)

lemma yields_move_assign:
  "yields (snug md N) Q (f (b, -1)) \<Longrightarrow> yields (snug md N) Q (bindM (UniqRecvFD_move_assign a b) f)"
  by (rule yields_bind_result[of "snug md N" "\<lambda>p. p = (b, -1)"]) (auto simp: yields_def UniqRecvFD_move_assign_def seqM_def
      bindM_def assertM_def run_basic)

lemma yields_reset:
  assumes "fd_limit N E" "yields (snug md N) Q (f (- 1))"
  shows "yields (snug md N) Q (bindM (UniqRecvFD_reset E fd) f)" "yields (snug md N) Q (bindM (UniqSendFD_reset E fd) f)"
proof -
  have "yields (snug md N) (\<lambda>a. a = - 1) (UniqRecvFD_reset E fd)" "yields (snug md N) (\<lambda>a. a = - 1) (UniqSendFD_reset E fd)"
    unfolding UniqRecvFD_reset_def UniqSendFD_reset_def
    by (intro yields_extcall yields_cases yields_pure assms(1); simp)+
  from this[THEN yields_bind_result, of Q f] assms(2)
  show "yields (snug md N) Q (bindM (UniqRecvFD_reset E fd) f)" "yields (snug md N) Q (bindM (UniqSendFD_reset E fd) f)" by simp_all
qed

lemmas yields_rules = yields_getR yields_extcall yields_assign yields_move_assign yields_reset yields_pure yields_seq
  yields_try yields_cases yields_guard yields_bind

lemma yields_destroy_fd [yields_intro]:
  assumes "fd_limit N E"
  shows "yields (snug md N) (\<lambda>_. True) (UniqFD_destroy E fd)" "yields (snug md N) (\<lambda>_. True) (UniqRecvFD_destroy E fd)"
    "yields (snug md N) (\<lambda>_. True) (UniqSendFD_destroy E fd)"
  unfolding UniqFD_destroy_def UniqRecvFD_destroy_def UniqSendFD_destroy_def
  by (intro yields_rules assms TrueI)+

lemma yields_modR [yields_intro]:
  assumes "\<And>x. served_object md x \<Longrightarrow> fits N x \<Longrightarrow> served_object md (f x) \<and> fits N (f x)"
  shows "yields (snug md N) (\<lambda>_. True) (modR r f)"
proof (rule yieldsI)
  fix w assume w: "snug md N w"
  show "snug md N (snd (modR r f w)) \<and> fst (modR r f w) \<noteq> Abort OutOfBounds \<and>
      (\<forall>a. fst (modR r f w) = Ret a \<longrightarrow> True)"
  proof (cases "reactors w r")
    case (Some x)
    then have "served_object md (f x)" "fits N (f x)"
      using assms[of x] servedD[OF snugD(1)[OF w] Some] snugD(3)[OF w Some] by (auto simp: served_object_def)
    with Some show ?thesis by (auto simp: modR_def intro: snug_upd[OF w])
  qed (use w in \<open>simp add: modR_def\<close>)
qed

lemma fits_new: "fits N (new_reactor c)"
  by (simp add: fits_def new_reactor_def no_socket_def)

lemma yields_newR [yields_intro]:
  assumes "served_object md x" "fits N x"
  shows "yields (snug md N) (\<lambda>_. True) (newR x)"
proof (rule yieldsI)
  fix w assume w: "snug md N w"
  from snug_upd[OF w assms, of "snd (newR x w)" "nextRid w"]
  show "snug md N (snd (newR x w)) \<and> fst (newR x w) \<noteq> Abort OutOfBounds \<and>
      (\<forall>a. fst (newR x w) = Ret a \<longrightarrow> True)" by (simp add: newR_def)
qed

lemma yields_deleteR [yields_intro]: "yields (snug md N) (\<lambda>_. True) (deleteR r)"
  by (rule yieldsI) (auto simp: deleteR_def run_basic snug_def served_def split: if_splits)

lemma yields_others [yields_intro]:
  "yields (snug md N) (\<lambda>_. True) (getT t)" "yields (snug md N) (\<lambda>_. True) (modT t g)" "yields (snug md N) (\<lambda>_. True) (PR_SetError e)"
  "yields (snug md N) (\<lambda>_. True) (set_blockDirection d)" "yields (snug md N) (\<lambda>_. True) (newT fd)"
  "yields (snug md N) (\<lambda>_. True) (deleteT t)" "yields (snug md N) (\<lambda>_. True) (setReadFD t fd)"
  "yields (snug md N) (\<lambda>_. True) (setWriteFD t fd)" "yields (snug md N) (\<lambda>_. True) (getSS s)"
  "yields (snug md N) (\<lambda>_. True) (newSS sid)" "yields (snug md N) (\<lambda>_. True) (modSS s h)" "yields (snug md N) (\<lambda>_. True) Poller_stop"
  by (auto simp: yields_def getT_def modT_def PR_SetError_def set_blockDirection_def newT_def deleteT_def
      setReadFD_def setWriteFD_def getSS_def newSS_def modSS_def Poller_stop_def run_basic
      intro: snug_same split: option.splits)

section \<open>The poller\<close>

lemma yields_add [yields_intro]: "yields (snug md N) (\<lambda>_. True) (Poller_add E r fd ev)"
proof (rule yieldsI)
  fix w assume w: "snug md N w"
  show "snug md N (snd (Poller_add E r fd ev w)) \<and> fst (Poller_add E r fd ev w) \<noteq> Abort OutOfBounds \<and>
      (\<forall>a. fst (Poller_add E r fd ev w) = Ret a \<longrightarrow> True)"
  proof (cases "reactors w r")
    case None
    with w show ?thesis by (simp add: Poller_add_def runIfActive_def isActive_def bindM_def no_object)
  next
    case (Some x)
    show ?thesis using w by (auto simp: Poller_add_eq[OF Some] Let_def intro: snug_same[OF w])
  qed
qed

lemma yields_remove [yields_intro]: "fd < int N \<Longrightarrow> yields (snug md N) (\<lambda>_. True) (Poller_remove E fd False)"
  by (rule yieldsI) (auto simp: Poller_remove_eq Let_def snugD intro: snug_same)

lemmas fit_simps = fits_def fd_call_def served_object_def server_class_def

lemma yields_deactivates [yields_intro]:
  "yields (snug md N) (\<lambda>_. True) (Reactor_deactivate r)" "yields (snug md N) (\<lambda>_. True) (ListenReactor_deactivate E r)"
  "yields (snug md N) (\<lambda>_. True) (StickReactor_deactivate E r)" "yields (snug md N) (\<lambda>_. True) (StreamReactor_deactivate E r)"
  "yields (snug md N) (\<lambda>_. True) (TimeoutReactor_deactivate E r)" "yields (snug md N) (\<lambda>_. True) (AuthServer_deactivate E r u)"
  unfolding deactivate_defs by (intro yields_rules yields_intro; simp add: fit_simps)+

lemma yields_deactivate [yields_intro]: "yields (snug md N) (\<lambda>_. True) (deactivate E r)"
  unfolding deactivate_def by (intro yields_rules yields_intro yields_class_case)

lemma yields_runAs [yields_intro]: "yields (snug md N) (\<lambda>_. True) m \<Longrightarrow> yields (snug md N) (\<lambda>_. True) (Poller_runAs E r m)"
  unfolding Poller_runAs_def by (intro yields_rules yields_intro yields_exn_case)

lemma yields_Poller_assign [yields_intro]: "yields (snug md N) (\<lambda>_. True) m \<Longrightarrow> yields (snug md N) (\<lambda>_. True) (Poller_assign E r m)"
  unfolding Poller_assign_def by (rule yields_runAs)

section \<open>Sockets and buffers\<close>

lemma yields_errors [yields_intro]:
  "yields (snug md N) (\<lambda>_. True) (mapError e)" "yields (snug md N) (\<lambda>_. True) (mapError_override ov e)"
  "yields (snug md N) (\<lambda>_. True) (tlsHandleErr fd)" "yields (snug md N) (\<lambda>_. True) invalidFn"
  unfolding mapError_override_def mapError_def tlsHandleErr_def invalidFn_def
  by (intro yields_rules yields_intro TrueI)+

lemma yields_layer [yields_intro]:
  assumes "fd_limit N E"
  shows "yields (snug md N) (\<lambda>_. True) (dRecv E t n)" "yields (snug md N) (\<lambda>_. True) (dSend E t xs)"
    "yields (snug md N) (\<lambda>_. True) (dGetName E t)" "yields (snug md N) (\<lambda>_. True) (dGetPeerName E t)"
    "yields (snug md N) (\<lambda>_. True) (dRead E t n)" "yields (snug md N) (\<lambda>_. True) (dWrite E t xs)"
  unfolding dRecv_def dSend_def dGetName_def dGetPeerName_def dRead_def dWrite_def by (intro yields_rules yields_intro assms TrueI)+

lemma yields_METHODS [yields_intro]: "fd_limit N E \<Longrightarrow> yields (snug md N) (\<lambda>_. True) (METHODS E t c)"
  unfolding METHODS_def by (cases c) (auto intro!: yields_rules yields_intro)

lemma yields_callbacks [yields_intro]: "fd_limit N E \<Longrightarrow> yields (snug md N) (\<lambda>_. True) (run_callbacks E t cs)"
  by (induction cs) (auto intro!: yields_rules yields_intro)

lemma yields_nss [yields_intro]: "fd_limit N E \<Longrightarrow> yields (snug md N) (\<lambda>_. True) (nss E t c)"
  unfolding nss_def by (intro yields_rules yields_intro TrueI)

lemma yields_tls [yields_intro]:
  assumes "fd_limit N E"
  shows "yields (snug md N) (\<lambda>_. True) (tlsDisableEarlyData E t)" "yields (snug md N) (\<lambda>_. True) (TLS_new E ctx fd)"
  unfolding tlsDisableEarlyData_def TLS_new_def nss_checked_def
  by (intro yields_rules yields_intro assms TrueI)+

text \<open>A method that changes nothing but the buffer of its reactor.\<close>

lemma yields_io:
  assumes "keeps frame m" "keeps (preserves (served md)) m" "\<And>w. reactors w r = None \<Longrightarrow> m w = (Abort DanglingReference, w)"
    and "\<And>w x. snug md N w \<Longrightarrow> reactors w r = Some x \<Longrightarrow>
      (\<exists>b. reactors (snd (m w)) = (reactors w)(r \<mapsto> x\<lparr>buf := b\<rparr>)) \<and> fst (m w) \<noteq> Abort OutOfBounds"
  shows "yields (snug md N) (\<lambda>_. True) m"
proof (rule yieldsI)
  fix w assume w: "snug md N w"
  show "snug md N (snd (m w)) \<and> fst (m w) \<noteq> Abort OutOfBounds \<and> (\<forall>a. fst (m w) = Ret a \<longrightarrow> True)"
  proof (cases "reactors w r")
    case (Some x)
    from assms(4)[OF w this] obtain b
      where b: "reactors (snd (m w)) = (reactors w)(r \<mapsto> x\<lparr>buf := b\<rparr>)" "fst (m w) \<noteq> Abort OutOfBounds" by blast
    have "served md (snd (m w))" using keepsD[OF assms(2), of w] snugD(1)[OF w] by (simp add: preserves_def)
    moreover have "fdCount (snd (m w)) = fdCount w" using keepsD[OF assms(1), of w] by (simp add: frame_def)
    ultimately have "snug md N (snd (m w))"
      using w b(1) snugD(3)[OF w Some] by (auto simp: snug_def fits_def)
    with b(2) show ?thesis by simp
  qed (use w assms(3) in simp)
qed

lemma snug_buf: "snug md N w \<Longrightarrow> reactors w r = Some x \<Longrightarrow> sb_ok (buf x)"
  using servedD[of md w r x] snugD(1)[of md N w] by simp

lemma yields_buffered [yields_intro]: "yields (snug md N) (\<lambda>_. True) (buffered r)"
proof (rule yieldsI)
  fix w assume w: "snug md N w"
  then show "snug md N (snd (buffered r w)) \<and> fst (buffered r w) \<noteq> Abort OutOfBounds \<and>
      (\<forall>a. fst (buffered r w) = Ret a \<longrightarrow> True)"
    by (cases "reactors w r") (simp_all add: no_object buffered_run[OF _ snug_buf[OF w]])
qed

lemma tlsRead_in_bounds:
  assumes "io_ok E" "fd_limit N E" "snug md N w" "reactors w r = Some x"
  shows "fst (tlsRead E t r w) \<noteq> Abort OutOfBounds"
proof -
  let ?c = "PR_Read t (unat (availSize (buf x)))"
  let ?err = "bindM (getT t) (\<lambda>x. seqM (tlsHandleErr (readFD x)) (seqM (buf_receive r [] 0) (ret (0 :: int))))"
  have x: "sb_ok (buf x)" using assms(3,4) by (rule snug_buf)
  obtain nr w1 where nr: "nss E t ?c w = (nr, w1)" by fastforce
  have ok: "nr \<noteq> Abort OutOfBounds" using yieldsD(2)[OF yields_nss[OF assms(2)] assms(3), of t ?c] nr by simp
  note step = tlsRead_step[OF assms(4) nr]
  from nr show ?thesis
  proof (cases rule: nss_answer)
    case (fault h)
    with ok show ?thesis by (auto simp: step split: outcome.split)
  next
    case (finished h rc)
    have r1: "reactors w1 r = Some x" using finished(5) assms(4) by simp
    show ?thesis
    proof (cases "c_rc rc < 0")
      case True
      obtain res w' where err: "?err w1 = (res, w')" by fastforce
      from r1 x err have "res \<noteq> Abort OutOfBounds" by (cases rule: tlsRead_failed) auto
      with True finished(2) err show ?thesis by (simp add: step)
    next
      case False
      then have "length (c_data rc) \<le> unat (availSize (buf x))" "c_rc rc = int (length (c_data rc))"
        using io_okD(2)[OF assms(1), of "hist w @ h" t "unat (availSize (buf x))"] finished(1) by auto
      then show ?thesis
        using False finished(2) buf_receive_run[OF r1 x] by (simp add: step seqM_def bindM_def run_basic)
    qed
  qed
qed

lemma tcpRecv_in_bounds:
  assumes "io_ok E" "snug md N w" "reactors w r = Some x"
  shows "fst (tcpRecv E s r w) \<noteq> Abort OutOfBounds"
proof -
  let ?c = "Recv (sk_fd s) (unat (availSize (buf x)))"
  let ?rc = "os E (hist w) ?c"
  let ?w1 = "w\<lparr>hist := hist w @ [(?c, ?rc)]\<rparr>"
  have x1: "reactors ?w1 r = Some x" using assms(3) by simp
  show ?thesis
  proof (cases "c_rc ?rc < 0")
    case True
    with assms(3) show ?thesis by (auto simp: tcpRecv_def bindM_def run_getR run_extcall run_basic)
  next
    case False
    then have l: "length (c_data ?rc) \<le> unat (availSize (buf x))" "c_rc ?rc = int (length (c_data ?rc))"
      using io_okD(1)[OF assms(1), of "hist w" "sk_fd s" "unat (availSize (buf x))"] by auto
    have "buf_receive r (c_data ?rc) (c_rc ?rc) ?w1 =
        (Ret (), ?w1\<lparr>reactors := (reactors ?w1)(r \<mapsto> x\<lparr>buf := store (c_data ?rc) (buf x)\<rparr>)\<rparr>)"
      using buf_receive_run[OF x1 snug_buf[OF assms(2,3)] l(1)] l(2) by simp
    with False assms(3) show ?thesis
      by (simp add: tcpRecv_def bindM_def seqM_def run_getR run_extcall run_basic)
  qed
qed

lemma sock_no_object:
  fixes w :: world
  assumes "reactors w r = None"
  shows "sockRecv E s r w = (Abort DanglingReference, w)" "sockSend E s r w = (Abort DanglingReference, w)"
    "tcpSendTFO E s r n a w = (Abort DanglingReference, w)"
  using no_object[OF assms]
  by (simp_all add: sockRecv_def tlsRead_def tcpRecv_def sockSend_def tlsWrite_def tcpSend_def tcpSendTFO_def bindM_def
      split: option.split)

lemma yields_sockRecv [yields_intro]:
  assumes "io_ok E" "fd_limit N E"
  shows "yields (snug md N) (\<lambda>_. True) (sockRecv E s r)"
proof (rule yields_io[where r = r])
  fix w :: world and x assume w: "snug md N w" and x: "reactors w r = Some x"
  note b = snug_buf[OF w x]
  have "read_law s r (sockRecv E s r)" by (rule sockRecv_law[OF assms(1) sock_after_refl])
  from this[unfolded read_law_def, rule_format, of w x "fst (sockRecv E s r w)" "snd (sockRecv E s r w)"] x b
  have "\<exists>b. reactors (snd (sockRecv E s r w)) = (reactors w)(r \<mapsto> x\<lparr>buf := b\<rparr>)" by auto
  then show "(\<exists>b. reactors (snd (sockRecv E s r w)) = (reactors w)(r \<mapsto> x\<lparr>buf := b\<rparr>)) \<and>
      fst (sockRecv E s r w) \<noteq> Abort OutOfBounds"
    using tlsRead_in_bounds[OF assms w x] tcpRecv_in_bounds[OF assms(1) w x]
    by (auto simp: sockRecv_def split: option.split)
qed (intro keeps_intro assms | simp add: sock_no_object)+

text \<open>Sending does not store anything: the only access is that of \<open>buffered\<close>.\<close>

lemma modBuf_in_bounds: "fst (modBuf r f w) \<noteq> Abort OutOfBounds"
  by (simp add: modBuf_def modR_def split: option.split)

lemma yields_bounds:
  assumes "yields (snug md N) (\<lambda>_. True) m" "snug md N w" "\<And>a v. fst (f a v) \<noteq> Abort OutOfBounds"
  shows "fst (bindM m f w) \<noteq> Abort OutOfBounds"
  using yieldsD(2)[OF assms(1,2)] assms(3) by (auto simp: bindM_def split: prod.split outcome.split)

lemma send_in_bounds:
  assumes "fd_limit N E" "snug md N w"
  shows "fst (sockSend E s r w) \<noteq> Abort OutOfBounds"
proof -
  have e: "fst (seqM (modBuf r f) (ret n) v) \<noteq> Abort OutOfBounds" for f and n :: int and v
    using modBuf_in_bounds[of r f v] by (auto simp: seqM_def bindM_def run_basic split: prod.split outcome.split)
  have "yields (snug md N) (\<lambda>_. True) (bindM (buffered r) (\<lambda>xs. bindM (nss E t (PR_Write t xs)) (\<lambda>rc.
      if c_rc rc < 0 then bindM (getT t) (\<lambda>x. seqM (tlsHandleErr (writeFD x)) (ret 0)) else ret (c_rc rc))))" for t
    by (intro yields_rules yields_intro assms TrueI)
  from yields_bounds[OF this assms(2), of "\<lambda>b. seqM (modBuf r (unuse (word_of_int b))) (ret b)"] e
  have "fst (tlsWrite E t r w) \<noteq> Abort OutOfBounds" for t by (simp add: tlsWrite_def bindM_assoc)
  moreover have "fst (tcpSend E s r w) \<noteq> Abort OutOfBounds"
  proof -
    have "yields (snug md N) (\<lambda>_. True) (bindM (buffered r) (\<lambda>xs. extcall E (call.Send (sk_fd s) xs)))"
      by (intro yields_rules yields_intro assms)
    then show ?thesis
      unfolding tcpSend_def bindM_assoc[symmetric]
      by (rule yields_bounds[OF _ assms(2)]) (use e in \<open>auto simp: run_basic\<close>)
  qed
  ultimately show ?thesis by (simp add: sockSend_def split: option.split)
qed

lemma yields_sockSend [yields_intro]:
  assumes "io_ok E" "fd_limit N E"
  shows "yields (snug md N) (\<lambda>_. True) (sockSend E s r)"
proof (rule yields_io[where r = r])
  fix w :: world and x assume w: "snug md N w" and x: "reactors w r = Some x"
  have "write_law s r (sockSend E s r)" by (rule sockSend_law[OF assms(1) sock_after_refl])
  from this[unfolded write_law_def, rule_format, of w x "fst (sockSend E s r w)" "snd (sockSend E s r w)"] x snug_buf[OF w x]
  have "\<exists>b. reactors (snd (sockSend E s r w)) = (reactors w)(r \<mapsto> x\<lparr>buf := b\<rparr>)" by auto
  with send_in_bounds[OF assms(2) w] show "(\<exists>b. reactors (snd (sockSend E s r w)) = (reactors w)(r \<mapsto> x\<lparr>buf := b\<rparr>)) \<and>
      fst (sockSend E s r w) \<noteq> Abort OutOfBounds" by simp
qed (intro keeps_intro assms | simp add: sock_no_object)+

lemma yields_tfo [yields_intro]:
  assumes "io_ok E"
  shows "yields (snug md N) (\<lambda>_. True) (tcpSendTFO E s r n a)"
proof (rule yields_io[where r = r])
  fix w :: world and x assume w: "snug md N w" and x: "reactors w r = Some x"
  have "seqM (modBuf r f) (ret k) v = (Ret k, v\<lparr>reactors := (reactors v)(r \<mapsto> x\<lparr>buf := f (buf x)\<rparr>)\<rparr>)"
    if "reactors v r = Some x" for f and k :: int and v :: world
    using that by (simp add: seqM_def bindM_def run_basic modBuf_def run_modR)
  moreover have "\<exists>b. reactors w = (reactors w)(r \<mapsto> x\<lparr>buf := b\<rparr>)"
    by (rule exI[of _ "buf x"]) (simp add: fun_upd_idem x)
  ultimately show "(\<exists>b. reactors (snd (tcpSendTFO E s r n a w)) = (reactors w)(r \<mapsto> x\<lparr>buf := b\<rparr>)) \<and>
      fst (tcpSendTFO E s r n a w) \<noteq> Abort OutOfBounds"
    using x by (auto simp: tcpSendTFO_eq[OF x snug_buf[OF w x]] Let_def)
next
  show "keeps frame (tcpSendTFO E s r n a)" unfolding tcpSendTFO_def by (intro fr.keeps_rules keeps_intro shared_call_simps)
qed (intro keeps_intro assms | simp add: sock_no_object)+

lemma yields_socket [yields_intro]:
  assumes "fd_limit N E"
  shows "io_ok E \<Longrightarrow> yields (snug md N) (\<lambda>_. True) (sockConnect E s r a m e)"
    "yields (snug md N) (\<lambda>_. True) (getConnectError E s)" "yields (snug md N) (\<lambda>_. True) (keepAlive E s)"
  unfolding sockConnect_def tcpDeferredConnect_def tcpConnect_def getConnectError_def keepAlive_def
  by (intro yields_rules yields_intro assms TrueI; assumption)+

lemma yields_duplicate:
  assumes "fd_limit N E" "\<And>s. sk_fd s < int N \<Longrightarrow> sk_tls s = sk_tls s' \<Longrightarrow> yields (snug md N) Q (f s)"
  shows "yields (snug md N) Q (bindM (duplicate_for_read E s s') f)" "yields (snug md N) Q (bindM (duplicate_for_write E s s') f)"
proof -
  have "yields (snug md N) (\<lambda>s. sk_fd s < int N \<and> sk_tls s = sk_tls s') (duplicate_for_read E s s')"
    "yields (snug md N) (\<lambda>s. sk_fd s < int N \<and> sk_tls s = sk_tls s') (duplicate_for_write E s s')"
    unfolding duplicate_for_read_def duplicate_for_write_def
    by (intro yields_rules yields_intro assms(1) TrueI; simp add: fit_simps)+
  from this[THEN yields_bind_result, of Q f] assms(2)
  show "yields (snug md N) Q (bindM (duplicate_for_read E s s') f)" "yields (snug md N) Q (bindM (duplicate_for_write E s s') f)"
    by simp_all
qed

section \<open>Reactors of the proxy\<close>

lemma yields_pack [yields_intro]:
  assumes "\<And>n xs. pk n = Inr xs \<Longrightarrow> length xs \<le> n"
  shows "yields (snug md N) (\<lambda>_. True) (pack_into r pk)"
proof (rule yields_io[where r = r])
  fix w :: world and x assume w: "snug md N w" and x: "reactors w r = Some x"
  have same: "\<exists>b. reactors w = (reactors w)(r \<mapsto> x\<lparr>buf := b\<rparr>)"
    by (rule exI[of _ "buf x"]) (simp add: fun_upd_idem x)
  show "(\<exists>b. reactors (snd (pack_into r pk w)) = (reactors w)(r \<mapsto> x\<lparr>buf := b\<rparr>)) \<and>
      fst (pack_into r pk w) \<noteq> Abort OutOfBounds"
  proof (cases "pk (unat (availSize (buf x)))")
    case (Inr xs)
    with buf_receive_run[OF x snug_buf[OF w x] assms[OF Inr]] show ?thesis
      by (auto simp: pack_into_def bindM_def run_getR x)
  qed (use same in \<open>simp add: pack_into_def bindM_def run_getR x run_basic\<close>)
qed (intro keeps_intro | simp add: pack_into_def bindM_def no_object)+

text \<open>What is stored after a look at the room there is.\<close>

lemma yields_version:
  assumes "yields (snug M_PROXY N) Q m"
  shows "yields (snug M_PROXY N) Q (bindM (getR r) (\<lambda>x. if unat (availSize (buf x)) < length v then throw e
     else seqM (buf_receive r v (int (length v))) m))" (is "yields (snug M_PROXY N) Q ?m")
proof (rule yieldsI)
  fix w assume w: "snug M_PROXY N w"
  show "snug M_PROXY N (snd (?m w)) \<and> fst (?m w) \<noteq> Abort OutOfBounds \<and> (\<forall>a. fst (?m w) = Ret a \<longrightarrow> Q a)"
  proof (cases "reactors w r")
    case (Some x)
    note b = snug_buf[OF w Some]
    show ?thesis
    proof (cases "unat (availSize (buf x)) < length v")
      case False
      let ?y = "x\<lparr>buf := store v (buf x)\<rparr>"
      let ?v = "w\<lparr>reactors := (reactors w)(r \<mapsto> ?y)\<rparr>"
      have l: "length v \<le> unat (availSize (buf x))" using False by simp
      have "served_object M_PROXY ?y" "fits N ?y"
        using servedD[OF snugD(1)[OF w] Some] store_ok(1)[OF b l] snugD(3)[OF w Some]
        by (simp_all add: served_object_def fits_def)
      then have "snug M_PROXY N ?v" by (intro snug_upd[OF w]) simp_all
      moreover have "?m w = m ?v"
        using False buf_receive_run[OF Some b l] by (simp add: bindM_def seqM_def run_getR Some)
      ultimately show ?thesis using yieldsD[OF assms] by simp
    qed (use w in \<open>simp add: bindM_def run_getR Some run_basic\<close>)
  qed (use w in \<open>simp add: bindM_def no_object\<close>)
qed

lemma yields_parsed:
  assumes "parse_ok E" "\<And>e. yields (snug M_PROXY N) Q (f e)" "yields (snug M_PROXY N) Q m"
  shows "yields (snug M_PROXY N) Q (bindM (buffered r) (\<lambda>bb. case parseRequest E bb of Inl e \<Rightarrow> f e
     | Inr (rq, used) \<Rightarrow> seqM (modPU r (g rq)) (seqM (modBuf r (unuse (of_nat used))) m)))"
    (is "yields _ _ ?m")
proof (rule yieldsI)
  fix w assume w: "snug M_PROXY N w"
  show "snug M_PROXY N (snd (?m w)) \<and> fst (?m w) \<noteq> Abort OutOfBounds \<and> (\<forall>a. fst (?m w) = Ret a \<longrightarrow> Q a)"
  proof (cases "reactors w r")
    case (Some x)
    have run: "?m w = (case parseRequest E (contents (buf x)) of Inl e \<Rightarrow> f e
       | Inr (rq, used) \<Rightarrow> seqM (modPU r (g rq)) (seqM (modBuf r (unuse (of_nat used))) m)) w"
      by (rule run_bind(1)) (rule buffered_run[OF Some snug_buf[OF w Some]])
    show ?thesis
    proof (cases "parseRequest E (contents (buf x))")
      case (Inl e)
      with yieldsD[OF assms(2) w, of e] show ?thesis by (simp add: run)
    next
      case (Inr p)
      obtain rq used where p: "p = (rq, used)" by fastforce
      obtain y where y: "modPU r (g rq) w = (Ret (), w\<lparr>reactors := (reactors w)(r \<mapsto> y)\<rparr>)" "buf y = buf x"
        using Some by (rule modPU_buf)
      let ?v = "w\<lparr>reactors := (reactors w)(r \<mapsto> y)\<rparr>"
      let ?z = "y\<lparr>buf := leave_bytes used (buf y)\<rparr>"
      have "yields (snug M_PROXY N) (\<lambda>_. True) (modPU r (g rq))"
        unfolding modPU_def by (intro yields_intro) (auto simp: fit_simps split: rclass.splits)
      from yieldsD(1)[OF this w] y have v: "snug M_PROXY N ?v" by simp
      have "used \<le> length (contents (buf y))" using assms(1) Inr p y by (auto simp: parse_ok_def)
      then have l: "0 \<le> int used" "int used \<le> int (length (contents (buf y)))" by simp_all
      have yv: "reactors ?v r = Some y" by simp
      note un = unuse_run[OF yv snug_buf[OF v yv] l, simplified]
      have "served_object M_PROXY ?z" "fits N ?z"
        using servedD[OF snugD(1)[OF v] yv] un(2) snugD(3)[OF v yv] by (simp_all add: served_object_def fits_def)
      then have u: "snug M_PROXY N (?v\<lparr>reactors := (reactors ?v)(r \<mapsto> ?z)\<rparr>)" by (intro snug_upd[OF v, where r = r]) simp_all
      have "?m w = m (?v\<lparr>reactors := (reactors ?v)(r \<mapsto> ?z)\<rparr>)"
        unfolding run using Inr p y un(1) by (simp add: seqM_def bindM_def)
      with yieldsD[OF assms(3) u] show ?thesis by simp
    qed
  qed (use w in \<open>simp add: bindM_def no_object\<close>)
qed

lemma yields_state [yields_intro]:
  "yields (snug md N) (\<lambda>_. True) (isActive r)" "yields (snug md N) (\<lambda>_. True) (set_streamState r s)"
  unfolding isActive_def set_streamState_def by (intro yields_rules yields_intro TrueI; simp add: fit_simps)+

lemma yields_getters [yields_intro]:
  "yields (snug M_PROXY N) (\<lambda>_. True) (getPU r)" "yields (snug M_PROXY N) (\<lambda>_. True) (getAS r)" "yields (snug M_PROXY N) (\<lambda>_. True) (the_request d)"
  "yields (snug M_PROXY N) (\<lambda>_. True) (getProxy p)"
  unfolding getPU_def getAS_def the_request_def getProxy_def
  by (intro yields_rules yields_intro yields_class_case TrueI; simp)+

lemma yields_setters [yields_intro]:
  "yields (snug M_PROXY N) (\<lambda>_. True) (modPU r f)" "yields (snug M_PROXY N) (\<lambda>_. True) (modAS r g)" "yields (snug M_PROXY N) (\<lambda>_. True) (modProxy p h)"
  unfolding modPU_def modAS_def modProxy_def
  by (intro yields_modR; auto simp: fit_simps split: rclass.splits)+

lemma yields_codes [yields_intro]:
  "yields (snug M_PROXY N) (\<lambda>_. True) (set_reply_code r c)" "yields (snug M_PROXY N) (\<lambda>_. True) (set_pu_state r t)"
  unfolding set_reply_code_def set_pu_state_def
  by (intro yields_intro; simp add: fit_simps)+

lemma yields_dup [yields_intro]:
  assumes "fd_limit N E"
  shows "yields (snug M_PROXY N) (\<lambda>_. True) (dup_dstSock E r u)" "yields (snug M_PROXY N) (\<lambda>_. True) (dup_srcSock E r u)"
  unfolding dup_dstSock_def dup_srcSock_def
  by (intro yields_duplicate yields_rules yields_intro assms; simp add: fit_simps)+

lemma yields_close [yields_intro]:
  assumes "fd_limit N E"
  shows "yields (snug md N) (\<lambda>_. True) (close_srcSock E r)" "yields (snug md N) (\<lambda>_. True) (close_dstSock E r)"
  unfolding close_srcSock_def close_dstSock_def reset_srcSock_def reset_dstSock_def
  by (intro yields_rules yields_intro assms; simp add: fit_simps)+

lemma yields_destroy [yields_intro]:
  assumes "fd_limit N E"
  shows "yields (snug md N) (\<lambda>_. True) (StreamReactor_destroy E r)" "yields (snug md N) (\<lambda>_. True) (StickReactor_destroy E r)"
    "yields (snug md N) (\<lambda>_. True) (ListenReactor_unwind E r)"
  unfolding StreamReactor_destroy_def StickReactor_destroy_def ListenReactor_unwind_def
  by (intro yields_rules yields_intro assms; simp add: fit_simps)+

lemma yields_construct [yields_intro]:
  "yields (snug md N) (\<lambda>_. True) (destroy r) \<Longrightarrow> yields (snug md N) (\<lambda>_. True) body \<Longrightarrow>
   yields (snug md N) (\<lambda>_. True) (construct destroy r body)"
  unfolding construct_def by (intro yields_rules TrueI)

lemma yields_stream [yields_intro]:
  assumes "io_ok E" "fd_limit N E"
  shows "yields (snug md N) (\<lambda>_. True) (StreamReactor_process E r)" "yields (snug md N) (\<lambda>_. True) (StreamReactor_start E r)"
  unfolding StreamReactor_process_def StreamReactor_start_def StreamReactor_sending_def StreamReactor_receiving_def
  by (intro yields_rules yields_intro yields_choices assms)+

lemma yields_sessions [yields_intro]:
  "fd_limit N E \<Longrightarrow> yields (snug M_PROXY N) (\<lambda>_. True) (ServerSession_new E)" "yields (snug M_PROXY N) (\<lambda>_. True) (getID s)"
  "yields (snug M_PROXY N) (\<lambda>_. True) (getTokenBank s)" "fd_limit N E \<Longrightarrow> yields (snug M_PROXY N) (\<lambda>_. True) (makeBank E s sz)"
  "yields (snug M_PROXY N) (\<lambda>_. True) (getPasswordChecker p)" "yields (snug M_PROXY N) (\<lambda>_. True) (getSession p sid)"
  unfolding auth_defs by (intro yields_rules yields_intro TrueI; assumption)+

lemma yields_spawn [yields_intro]:
  assumes "fd_limit N E"
  shows "yields (snug M_PROXY N) (\<lambda>_. True) (spawnSession E p)"
proof -
  have "yields (snug M_PROXY N) (\<lambda>_. True) (spawnSession_loop E p n)" for n
    by (induction n) (simp_all, (intro yields_rules yields_intro assms TrueI | assumption | simp)+)
  then show ?thesis by (simp add: spawnSession_def)
qed

lemma yields_authenticate [yields_intro]: "fd_limit N E \<Longrightarrow> yields (snug M_PROXY N) (\<lambda>_. True) (authenticate E opts p)"
  unfolding authenticate_def authenticate_user_def authenticate_session_def authenticate_idempotence_def Let_def
  by (intro yields_rules yields_intro TrueI)

lemma pack_okD:
  "pack_ok E \<Longrightarrow> packAuthReply E a n = Inr xs \<Longrightarrow> length xs \<le> n"
  "pack_ok E \<Longrightarrow> packOpReply E o' n = Inr xs \<Longrightarrow> length xs \<le> n"
  "pack_ok E \<Longrightarrow> packRequest E q n = Inr xs \<Longrightarrow> length xs \<le> n"
  by (auto simp: pack_ok_def)

lemma yields_packs [yields_intro]:
  "pack_ok E \<Longrightarrow> yields (snug md N) (\<lambda>_. True) (pack_into r (packAuthReply E a))"
  "pack_ok E \<Longrightarrow> yields (snug md N) (\<lambda>_. True) (pack_into r (packOpReply E o'))"
  "pack_ok E \<Longrightarrow> yields (snug md N) (\<lambda>_. True) (pack_into r (packRequest E q))"
  by (intro yields_pack; erule (1) pack_okD)+

lemma yields_downstreamers [yields_intro]:
  assumes "fd_limit N E" "pack_ok E"
  shows "yields (snug M_PROXY N) (\<lambda>_. True) (SimpleProxyDownstreamer_new E u rep)"
    "yields (snug M_PROXY N) (\<lambda>_. True) (SimpleProxyDownstreamer_new_version E u)"
    "yields (snug M_PROXY N) (\<lambda>_. True) (ConnectProxyDownstreamer_new E u rep)"
  unfolding SimpleProxyDownstreamer_new_def SimpleProxyDownstreamer_new_version_def ConnectProxyDownstreamer_new_def
  by (intro yields_version yields_rules yields_packs yields_intro served_new served_classes fits_new assms)+

lemma yields_AuthServer_new [yields_intro]:
  assumes "fd_limit N E" "pack_ok E"
  shows "yields (snug M_PROXY N) (\<lambda>_. True) (AuthServer_new E u)"
  unfolding AuthServer_new_def
  by (intro yields_duplicate yields_rules yields_packs yields_intro served_new served_classes fits_new assms) (simp add: fit_simps)

lemma yields_ProxyUpstreamer_new [yields_intro]:
  assumes "fd_limit N E" "fd < int N"
  shows "yields (snug M_PROXY N) (\<lambda>_. True) (ProxyUpstreamer_new E p fd)"
  unfolding ProxyUpstreamer_new_def
  by (intro yields_rules yields_intro served_new served_classes fits_new assms TrueI; use assms(2) in \<open>simp add: fit_simps\<close>)

lemma yields_assign_simple [yields_intro]:
  "io_ok E \<Longrightarrow> fd_limit N E \<Longrightarrow> pack_ok E \<Longrightarrow> yields (snug M_PROXY N) (\<lambda>_. True) (assign_simple E r)"
  unfolding assign_simple_def by (intro yields_rules yields_intro)

lemma yields_connect [yields_intro]:
  assumes "io_ok E" "fd_limit N E" "pack_ok E"
  shows "yields (snug M_PROXY N) (\<lambda>_. True) (ProxyUpstreamer_readTFO E r)" "yields (snug M_PROXY N) (\<lambda>_. True) (ProxyUpstreamer_connect E r)"
  unfolding ProxyUpstreamer_readTFO_def ProxyUpstreamer_connect_def
  by (intro yields_rules yields_intro yields_exn_case assms TrueI)+

lemma yields_stack_options [yields_intro]:
  "yields (snug M_PROXY N) (\<lambda>_. True) (honorConnectStackOptions r)"
  "fd_limit N E \<Longrightarrow> yields (snug M_PROXY N) (\<lambda>_. True) (populateConnectStackOptions E r)"
  unfolding honorConnectStackOptions_def populateConnectStackOptions_def
  by (intro yields_rules yields_intro TrueI; assumption)+

lemma yields_honorConnect [yields_intro]:
  assumes "io_ok E" "fd_limit N E" "pack_ok E"
  shows "yields (snug M_PROXY N) (\<lambda>_. True) (honorConnect E r)"
  unfolding honorConnect_def ProxyUpstreamer_tfo_def
  by (intro yields_rules yields_intro assms TrueI) (simp add: fit_simps)

lemma yields_honorRequest [yields_intro]:
  assumes "io_ok E" "fd_limit N E" "pack_ok E"
  shows "yields (snug M_PROXY N) (\<lambda>_. True) (honorRequest E r)"
  unfolding honorRequest_def by (intro yields_rules yields_intro yields_choices assms)

lemma yields_authDone [yields_intro]:
  "io_ok E \<Longrightarrow> fd_limit N E \<Longrightarrow> pack_ok E \<Longrightarrow> yields (snug M_PROXY N) (\<lambda>_. True) (authDone E r)"
  unfolding authDone_def addrFixupAndHonorRequest_def by (intro yields_rules yields_intro yields_choices)

lemma yields_sendReply [yields_intro]:
  assumes "io_ok E" "fd_limit N E" "pack_ok E"
  shows "yields (snug M_PROXY N) (\<lambda>_. True) (sendReply E r)"
  unfolding sendReply_def by (intro yields_rules yields_intro assms TrueI) simp

lemma yields_AuthServer [yields_intro]:
  assumes "io_ok E" "fd_limit N E" "pack_ok E"
  shows "yields (snug M_PROXY N) (\<lambda>_. True) (AuthServer_start E r)" "yields (snug M_PROXY N) (\<lambda>_. True) (AuthServer_process E r)"
  unfolding AuthServer_start_def AuthServer_process_def by (intro yields_intro assms)+

lemma yields_readReq [yields_intro]:
  assumes "io_ok E" "parse_ok E" "fd_limit N E" "pack_ok E"
  shows "yields (snug M_PROXY N) (\<lambda>_. True) (ProxyUpstreamer_readReq E r)"
  unfolding ProxyUpstreamer_readReq_def
  by (intro yields_parsed yields_rules yields_intro yields_exn_case assms TrueI)

lemma yields_ProxyUpstreamer [yields_intro]:
  assumes "io_ok E" "parse_ok E" "fd_limit N E" "pack_ok E"
  shows "yields (snug M_PROXY N) (\<lambda>_. True) (ProxyUpstreamer_process E r)"
  unfolding ProxyUpstreamer_process_def ProxyUpstreamer_connecting_def ProxyUpstreamer_tfo_def
  by (intro yields_rules yields_intro yields_choices yields_exn_case assms TrueI)

section \<open>The listeners\<close>

lemma yields_handleNewConnection [yields_intro]:
  assumes "io_ok E" "parse_ok E" "fd_limit N E" "pack_ok E" "fd < int N"
  shows "yields (snug M_PROXY N) (\<lambda>_. True) (Proxy_handleNewConnection E p fd)"
  unfolding Proxy_handleNewConnection_def ProxyUpstreamer_start_def by (intro yields_rules yields_intro assms TrueI)

lemma yields_listen_start [yields_intro]: "yields (snug md N) (\<lambda>_. True) (ListenReactor_start E r)"
  unfolding ListenReactor_start_def by (intro yields_rules yields_intro)

lemma yields_listen_loop:
  assumes "fd_limit N E" "\<And>fd. fd < int N \<Longrightarrow> yields (snug md N) (\<lambda>_. True) (h fd)"
  shows "yields (snug md N) (\<lambda>_. True) (ListenReactor_loop E h r n)"
proof (induction n)
  case (Suc n)
  show ?case
    unfolding ListenReactor_loop.simps
    by (intro yields_rules yields_intro assms Suc TrueI) (simp add: fit_simps)
qed (simp add: yields_pure)

lemma yields_Proxy [yields_intro]:
  assumes "fd_limit N E"
  shows "io_ok E \<Longrightarrow> parse_ok E \<Longrightarrow> pack_ok E \<Longrightarrow> yields (snug M_PROXY N) (\<lambda>_. True) (Proxy_process E p)"
    "yields (snug M_PROXY N) (\<lambda>_. True) (Proxy_start E p)" "yields (snug M_PROXY N) (\<lambda>_. True) (Proxy_new E a pc ctx)"
  unfolding Proxy_process_def ListenReactor_process_def Proxy_start_def Proxy_new_def ListenReactor_new_def
    ListenReactor_init_def set_listenFD_def
  by (intro yields_listen_loop yields_rules yields_intro served_new served_classes fits_new assms TrueI; simp add: fit_simps)+

lemma yields_dispatch:
  assumes "io_ok E" "parse_ok E" "fd_limit N E" "pack_ok E"
  shows "yields (snug M_PROXY N) (\<lambda>_. True) (dispatch E r fd ev)"
proof (rule yieldsI)
  fix w assume w: "snug M_PROXY N w"
  have m: "snug M_PROXY N (snd (m w)) \<and> fst (m w) \<noteq> Abort OutOfBounds"
    if "m \<in> {Resolver_process, ConnectProxyDownstreamer_process E r, Proxy_process E r, ProxyUpstreamer_process E r,
        AuthServer_process E r, StreamReactor_process E r}" for m
  proof -
    have "yields (snug M_PROXY N) (\<lambda>_. True) m"
      using that unfolding Resolver_process_def ConnectProxyDownstreamer_process_def
      by (elim insertE emptyE; simp only:) (intro yields_intro yields_pure assms TrueI)+
    from yieldsD[OF this w] show ?thesis by blast
  qed
  show "snug M_PROXY N (snd (dispatch E r fd ev w)) \<and> fst (dispatch E r fd ev w) \<noteq> Abort OutOfBounds \<and>
      (\<forall>a. fst (dispatch E r fd ev w) = Ret a \<longrightarrow> True)"
  proof (cases "reactors w r")
    case (Some x)
    with servedD[OF snugD(1)[OF w] Some] m show ?thesis
      by (cases "cls x") (auto simp: dispatch_def bindM_def run_getR server_class_def)
  qed (use w in \<open>simp add: dispatch_def bindM_def no_object\<close>)
qed

end
