(* ===== verification/ClientSafe.thy ===== *)
theory ClientSafe
  imports MemSafe
begin

text \<open>
  Memory safety of the proxifier without TLS: the operations of the client side keep the invariant
  \<open>snug M_PROXIFIER\<close>, under which every object is of a class of the client side and none of its sockets
  carries a TLS object. Two points go beyond the server side: the request is put in front of the data,
  and between the parsing of a reply and its removal from the buffer other methods run, which leave
  the buffer alone (\<open>holding\<close>).
\<close>

section \<open>The client's state\<close>

lemmas client_simps = fits_def fd_call_def served_object_def mode_object_def client_class_def plain_def

lemma client_new:
  "client_class c \<Longrightarrow> served_object M_PROXIFIER (new_reactor c)"
  by (simp add: served_object_def mode_object_def plain_def new_reactor_def no_socket_def new_buffer_ok)

lemma client_classes:
  "pf_clientCtx d = None \<Longrightarrow> client_class (CProxifier d)" "client_class (CProxifierUpstreamer u)"
  "client_class (CProxifierDownstreamer x)" "client_class (CReadableDeferReactor r)"
  "client_class (CSessionSupplicationAgent a)" "client_class (CTFOCookieSupplicationAgent p)"
  by (simp_all add: client_class_def)

lemma yields_client_basic [yields_intro]:
  "yields (snug md N) (\<lambda>_. True) (getCS s)" "yields (snug md N) (\<lambda>_. True) (newCS c)"
  "yields (snug md N) (\<lambda>_. True) (getSP t)" "yields (snug md N) (\<lambda>_. True) (setSP t y)"
  "yields (snug md N) (\<lambda>_. True) (SessionSupplicant_new p)"
  by (auto simp: yields_def getCS_def newCS_def getSP_def setSP_def SessionSupplicant_new_def run_basic
      intro: snug_same split: option.splits)

lemma yields_client_get [yields_intro]:
  "yields (snug md N) (\<lambda>_. True) (getXD r)" "yields (snug md N) (\<lambda>_. True) (getXU r)"
  "yields (snug md N) (\<lambda>_. True) (getSG r)" "yields (snug md N) (\<lambda>_. True) (Proxifier_getSession p)"
  unfolding getXD_def getXU_def getSG_def Proxifier_getSession_def getPF_def
  by (intro yields_rules yields_intro yields_class_case TrueI; simp)+

text \<open>A proxifier without TLS has no context.\<close>

lemma yields_getPF:
  assumes "\<And>d. pf_clientCtx d = None \<Longrightarrow> yields (snug M_PROXIFIER N) Q (f d)"
  shows "yields (snug M_PROXIFIER N) Q (bindM (getPF p) f)"
proof (rule yields_bind_result)
  show "yields (snug M_PROXIFIER N) (\<lambda>d. pf_clientCtx d = None) (getPF p)"
    unfolding getPF_def
    by (rule yields_getR) (auto simp: client_simps yields_pure split: rclass.split)
qed (rule assms)

lemma yields_client_mod [yields_intro]:
  "(\<And>d. pf_clientCtx (f d) = pf_clientCtx d) \<Longrightarrow> yields (snug M_PROXIFIER N) (\<lambda>_. True) (modPF p f)"
  "yields (snug M_PROXIFIER N) (\<lambda>_. True) (modXD r g)" "yields (snug M_PROXIFIER N) (\<lambda>_. True) (modXU r h)"
  "yields (snug M_PROXIFIER N) (\<lambda>_. True) (set_agent_state r s)"
  unfolding modPF_def modXD_def modXU_def set_agent_state_def
  by (intro yields_modR; auto simp: client_simps split: rclass.splits)+

lemma yields_client_session [yields_intro]:
  "fd_limit N E \<Longrightarrow> yields (snug md N) (\<lambda>_. True) (ClientSession_new E sid u win)"
  "fd_limit N E \<Longrightarrow> yields (snug md N) (\<lambda>_. True) (updateWallet E s win)"
  "fd_limit N E \<Longrightarrow> yields (snug md N) (\<lambda>_. True) (getToken E s)"
  unfolding ClientSession_new_def updateWallet_def getToken_def
  by (intro yields_rules yields_intro TrueI; assumption)+

lemma yields_lock [yields_intro]:
  "yields (snug M_PROXIFIER N) (\<lambda>_. True) (killSession p so)" "yields (snug M_PROXIFIER N) (\<lambda>_. True) (setSession p s)"
  "yields (snug M_PROXIFIER N) (\<lambda>_. True) (supplicantDone p)"
  "yields (snug M_PROXIFIER N) (\<lambda>_. True) (supplicationLock_lock p)"
  "yields (snug M_PROXIFIER N) (\<lambda>_. True) (supplicationLock_try_lock p)"
  unfolding killSession_def setSession_def supplicantDone_def supplicationLock_lock_def supplicationLock_try_lock_def
  by (intro yields_getPF yields_rules yields_intro TrueI; simp)+

lemma yields_supplicant [yields_intro]:
  "yields (snug M_PROXIFIER N) (\<lambda>_. True) (SessionSupplicant_destroy s)"
  "fd_limit N E \<Longrightarrow> yields (snug M_PROXIFIER N) (\<lambda>_. True) (supplicant_process_reply E s rep)"
  unfolding SessionSupplicant_destroy_def supplicant_process_reply_def
  by (intro yields_rules yields_intro TrueI; assumption)+

lemma client_dup [yields_intro]:
  assumes "fd_limit N E"
  shows "yields (snug M_PROXIFIER N) (\<lambda>_. True) (dup_dstSock E r u)" "yields (snug M_PROXIFIER N) (\<lambda>_. True) (dup_srcSock E r u)"
  unfolding dup_dstSock_def dup_srcSock_def
  by (intro yields_duplicate yields_rules yields_intro assms; simp add: client_simps)+

lemma yields_enter [yields_intro]:
  assumes "io_ok E" "fd_limit N E"
  shows "yields (snug md N) (\<lambda>_. True) (enter_stream E r)"
  unfolding enter_stream_def by (intro yields_rules yields_intro assms)

section \<open>The downstreamer\<close>

lemma yields_downstreamer_new [yields_intro]:
  assumes "fd_limit N E"
  shows "yields (snug M_PROXIFIER N) (\<lambda>_. True) (ProxifierDownstreamer_new E u)"
  unfolding ProxifierDownstreamer_new_def
  by (intro yields_rules yields_intro client_new client_classes fits_new assms)

text \<open>The buffer of a reactor holds at least \<open>n\<close> bytes; a method that starts there ends in \<open>snug\<close>.\<close>

definition holding :: "Mode \<Rightarrow> nat \<Rightarrow> rid \<Rightarrow> nat \<Rightarrow> world \<Rightarrow> bool" where
  "holding md N r n w \<longleftrightarrow> snug md N w \<and> (\<exists>x. reactors w r = Some x \<and> n \<le> length (contents (buf x)))"

definition consumes :: "Mode \<Rightarrow> nat \<Rightarrow> rid \<Rightarrow> nat \<Rightarrow> ('a \<Rightarrow> bool) \<Rightarrow> 'a M \<Rightarrow> bool" where
  "consumes md N r n Q m \<longleftrightarrow> (\<forall>w. holding md N r n w \<longrightarrow>
     snug md N (snd (m w)) \<and> fst (m w) \<noteq> Abort OutOfBounds \<and> (\<forall>a. fst (m w) = Ret a \<longrightarrow> Q a))"

lemma consumes_plain: "yields (snug md N) Q m \<Longrightarrow> consumes md N r n Q m"
  by (auto simp: consumes_def holding_def dest: yieldsD)

lemma consumes_bind:
  assumes "keeps (quiet r) m" "yields (snug md N) (\<lambda>_. True) m" "\<And>a. consumes md N r n Q (f a)"
  shows "consumes md N r n Q (bindM m f)"
  unfolding consumes_def
proof (intro allI impI)
  fix w assume w: "holding md N r n w"
  then have s: "snug md N w" by (simp add: holding_def)
  note m = yieldsD[OF assms(2) s]
  have q: "quiet r w (snd (m w))" by (rule keepsD[OF assms(1)])
  show "snug md N (snd (bindM m f w)) \<and> fst (bindM m f w) \<noteq> Abort OutOfBounds \<and>
      (\<forall>a. fst (bindM m f w) = Ret a \<longrightarrow> Q a)"
  proof (cases "fst (m w)")
    case (Ret a)
    have "holding md N r n (snd (m w))" using w q m(1) by (auto simp: holding_def quiet_def)
    moreover have "bindM m f w = f a (snd (m w))" using Ret by (intro run_bind(1)) (simp add: prod_eq_iff)
    ultimately show ?thesis using assms(3)[of a] by (simp add: consumes_def)
  qed (use m in \<open>auto simp: bindM_def split: prod.splits outcome.splits\<close>)
qed

lemma consumes_seq:
  "keeps (quiet r) m \<Longrightarrow> yields (snug md N) (\<lambda>_. True) m \<Longrightarrow> consumes md N r n Q k \<Longrightarrow> consumes md N r n Q (seqM m k)"
  unfolding seqM_def by (rule consumes_bind)

lemma consumes_cases:
  "consumes md N r n Q m \<Longrightarrow> consumes md N r n Q k \<Longrightarrow> consumes md N r n Q (if b then m else k)"
  "consumes md N r n Q k \<Longrightarrow> (\<And>a. consumes md N r n Q (f a)) \<Longrightarrow> consumes md N r n Q (case x of None \<Rightarrow> k | Some a \<Rightarrow> f a)"
  by (auto split: option.split)

lemma consumes_leave:
  assumes "yields (snug md N) Q m"
  shows "consumes md N r n Q (seqM (modBuf r (unuse (of_nat n))) m)"
  unfolding consumes_def
proof (intro allI impI)
  fix w assume w: "holding md N r n w"
  then obtain x where x: "snug md N w" "reactors w r = Some x" "n \<le> length (contents (buf x))"
    by (auto simp: holding_def)
  let ?z = "x\<lparr>buf := leave_bytes n (buf x)\<rparr>"
  have l: "0 \<le> int n" "int n \<le> int (length (contents (buf x)))" using x(3) by simp_all
  note un = unuse_run[OF x(2) snug_buf[OF x(1,2)] l, simplified]
  have "served_object md ?z" "fits N ?z"
    using servedD[OF snugD(1)[OF x(1)] x(2)] un(2) snugD(3)[OF x(1,2)] by (simp_all add: served_object_def fits_def)
  then have u: "snug md N (w\<lparr>reactors := (reactors w)(r \<mapsto> ?z)\<rparr>)" by (intro snug_upd[OF x(1), where r = r]) simp_all
  have "seqM (modBuf r (unuse (of_nat n))) m w = m (w\<lparr>reactors := (reactors w)(r \<mapsto> ?z)\<rparr>)"
    using un(1) by (simp add: seqM_def bindM_def)
  with yieldsD[OF assms u] show "snug md N (snd (seqM (modBuf r (unuse (of_nat n))) m w)) \<and>
      fst (seqM (modBuf r (unuse (of_nat n))) m w) \<noteq> Abort OutOfBounds \<and>
      (\<forall>a. fst (seqM (modBuf r (unuse (of_nat n))) m w) = Ret a \<longrightarrow> Q a)" by simp
qed

lemma yields_reply:
  assumes "\<And>xs rep n. parse xs = Inr (rep, n) \<Longrightarrow> n \<le> length xs"
    and "\<And>e. yields (snug md N) Q (f e)" "\<And>rep n. consumes md N r n Q (g rep n)"
  shows "yields (snug md N) Q (bindM (buffered r) (\<lambda>bb. case parse bb of Inl e \<Rightarrow> f e | Inr (rep, n) \<Rightarrow> g rep n))"
    (is "yields _ _ ?m")
proof (rule yieldsI)
  fix w assume w: "snug md N w"
  show "snug md N (snd (?m w)) \<and> fst (?m w) \<noteq> Abort OutOfBounds \<and> (\<forall>a. fst (?m w) = Ret a \<longrightarrow> Q a)"
  proof (cases "reactors w r")
    case (Some x)
    have run: "?m w = (case parse (contents (buf x)) of Inl e \<Rightarrow> f e | Inr (rep, n) \<Rightarrow> g rep n) w"
      by (rule run_bind(1)) (rule buffered_run[OF Some snug_buf[OF w Some]])
    show ?thesis
    proof (cases "parse (contents (buf x))")
      case (Inl e)
      with yieldsD[OF assms(2) w, of e] show ?thesis by (simp add: run)
    next
      case (Inr p)
      obtain rep n where p: "p = (rep, n)" by fastforce
      have "holding md N r n w" using w Some assms(1) Inr p by (auto simp: holding_def)
      with assms(3)[of n rep] Inr p show ?thesis by (simp add: run consumes_def)
    qed
  qed (use w in \<open>simp add: bindM_def no_object\<close>)
qed

lemma yields_opRep [yields_intro]:
  assumes "io_ok E" "fd_limit N E" "parse_ok E"
  shows "yields (snug M_PROXIFIER N) (\<lambda>_. True) (ProxifierDownstreamer_opRep E r b)"
proof -
  have reply: "yields (snug M_PROXIFIER N) (\<lambda>_. True) (bindM (buffered r) (\<lambda>bb. case parseOpReply E bb of
      Inl e \<Rightarrow> f e
    | Inr (code, n) \<Rightarrow> if code \<noteq> SOCKS6_OPERATION_REPLY_SUCCESS then ret ()
        else seqM (modBuf r (unuse (of_nat n)))
          (seqM (modXD r (\<lambda>d. d\<lparr>xd_upstreamer := None, xd_state := XD_STREAM\<rparr>)) (enter_stream E r))))"
    if "\<And>e. yields (snug M_PROXIFIER N) (\<lambda>_. True) (f e)" for f
    by (intro yields_reply consumes_cases consumes_leave consumes_plain[OF yields_pure(1)] yields_rules yields_intro
        that assms TrueI) (erule parse_okD(2)[OF assms(3)])
  show ?thesis
    unfolding ProxifierDownstreamer_opRep_def
    by (intro reply yields_rules yields_intro yields_exn_case assms TrueI)
qed

lemma yields_session [yields_intro]:
  assumes "fd_limit N E"
  shows "yields (snug M_PROXIFIER N) (\<lambda>_. True) (ProxifierDownstreamer_session E p s rep)"
  unfolding ProxifierDownstreamer_session_def by (intro yields_rules yields_intro assms TrueI)

lemma yields_authRep [yields_intro]:
  assumes "io_ok E" "fd_limit N E" "parse_ok E"
  shows "yields (snug M_PROXIFIER N) (\<lambda>_. True) (ProxifierDownstreamer_authRep E r)"
proof -
  have reply: "yields (snug M_PROXIFIER N) (\<lambda>_. True) (bindM (buffered r) (\<lambda>bb. case parseAuthReply E bb of
      Inl e \<Rightarrow> f e
    | Inr (authRep, n) \<Rightarrow> (case xd_upstreamer d of
          None \<Rightarrow> abort NullDereference
        | Some u \<Rightarrow> bindM (getXU u) (\<lambda>up.
            seqM (ProxifierDownstreamer_session E (xd_proxifier d) (xu_session up) authRep)
            (if av_code authRep \<noteq> SOCKS6_AUTH_REPLY_SUCCESS then deactivate E r
             else seqM (modBuf r (unuse (of_nat n))) (rest authRep))))))"
    if "\<And>e. yields (snug M_PROXIFIER N) (\<lambda>_. True) (f e)" "\<And>a. yields (snug M_PROXIFIER N) (\<lambda>_. True) (rest a)" for f d rest
  proof (rule yields_reply)
    fix rep n
    show "consumes M_PROXIFIER N r n (\<lambda>_. True) (case xd_upstreamer d of
          None \<Rightarrow> abort NullDereference
        | Some u \<Rightarrow> bindM (getXU u) (\<lambda>up.
            seqM (ProxifierDownstreamer_session E (xd_proxifier d) (xu_session up) rep)
            (if av_code rep \<noteq> SOCKS6_AUTH_REPLY_SUCCESS then deactivate E r
             else seqM (modBuf r (unuse (of_nat n))) (rest rep))))"
      by (intro consumes_cases consumes_bind consumes_seq consumes_leave quiet_getXU quiet_session that
          consumes_plain[OF yields_deactivate] yields_session assms yields_client_get
          consumes_plain[OF yields_pure(3)]) simp
  qed (use that parse_okD(1)[OF assms(3)] in auto)
  show ?thesis
    unfolding ProxifierDownstreamer_authRep_def
    by (intro reply yields_rules yields_intro yields_exn_case assms TrueI)
qed

lemma yields_client_choices:
  "yields I P a \<Longrightarrow> yields I P b \<Longrightarrow> yields I P c \<Longrightarrow>
     yields I P (case s1 of XD_WAITING_FOR_AUTH_REP \<Rightarrow> a | XD_WAITING_FOR_OP_REP \<Rightarrow> b | XD_STREAM \<Rightarrow> c)"
  "yields I P a \<Longrightarrow> yields I P b \<Longrightarrow> yields I P c \<Longrightarrow> yields I P d \<Longrightarrow>
     yields I P (case s2 of XU_CONNECTING \<Rightarrow> a | XU_HANDSHAKING \<Rightarrow> b | XU_SENDING_REQ \<Rightarrow> c | XU_STREAM \<Rightarrow> d)"
  "yields I P a \<Longrightarrow> yields I P b \<Longrightarrow> yields I P c \<Longrightarrow>
     yields I P (case s3 of SA_CONNECTING \<Rightarrow> a | SA_SENDING_REQ \<Rightarrow> b | SA_RECEIVING_AUTH_REP \<Rightarrow> c)"
  "yields I P a \<Longrightarrow> yields I P b \<Longrightarrow> yields I P (case t of True \<Rightarrow> a | False \<Rightarrow> b)"
  by (auto split: ProxifierDownState.split ProxifierUpState.split AgentState.split bool.split)

lemma yields_downstreamer [yields_intro]:
  assumes "io_ok E" "fd_limit N E" "parse_ok E"
  shows "yields (snug M_PROXIFIER N) (\<lambda>_. True) (ProxifierDownstreamer_process E r)"
  unfolding ProxifierDownstreamer_process_def
  by (intro yields_rules yields_intro yields_client_choices assms)

section \<open>The upstreamer\<close>

text \<open>A new buffer is computed from the old one and stored.\<close>

lemma yields_rebuild:
  assumes "\<And>b. sb_ok b \<Longrightarrow> g b \<noteq> Abort OutOfBounds \<and> (\<forall>b'. g b = Ret b' \<longrightarrow> sb_ok b')"
    and "\<And>x. mode_object md x \<Longrightarrow> fits N x \<Longrightarrow> yields (snug md N) Q (m x)"
  shows "yields (snug md N) Q (bindM (getR r) (\<lambda>x. bindM (liftO (g (buf x))) (\<lambda>b. seqM (modBuf r (\<lambda>_. b)) (m x))))"
    (is "yields _ _ ?m")
proof (rule yieldsI)
  fix w assume w: "snug md N w"
  show "snug md N (snd (?m w)) \<and> fst (?m w) \<noteq> Abort OutOfBounds \<and> (\<forall>a. fst (?m w) = Ret a \<longrightarrow> Q a)"
  proof (cases "reactors w r")
    case (Some x)
    note x = servedD[OF snugD(1)[OF w] Some] snugD(3)[OF w Some]
    show ?thesis
    proof (cases "g (buf x)")
      case (Ret b)
      let ?v = "w\<lparr>reactors := (reactors w)(r \<mapsto> x\<lparr>buf := b\<rparr>)\<rparr>"
      have "served_object md (x\<lparr>buf := b\<rparr>)" "fits N (x\<lparr>buf := b\<rparr>)"
        using x assms(1)[of "buf x"] Ret by (simp_all add: served_object_def fits_def)
      then have v: "snug md N ?v" by (intro snug_upd[OF w]) simp_all
      have "?m w = m x ?v"
        using Ret by (simp add: bindM_def seqM_def run_getR Some run_basic modBuf_def run_modR)
      moreover have y: "yields (snug md N) Q (m x)" using x by (intro assms(2)) simp_all
      ultimately show ?thesis using yieldsD[OF y v] by simp
    qed (use w x assms(1)[of "buf x"] in \<open>auto simp: bindM_def run_getR Some run_basic\<close>)
  qed (use w in \<open>simp add: bindM_def no_object\<close>)
qed

lemma headroom_safe:
  assumes "sb_ok b"
  shows "makeHeadroom HEADROOM b \<noteq> Abort OutOfBounds \<and> (\<forall>b'. makeHeadroom HEADROOM b = Ret b' \<longrightarrow> sb_ok b')"
proof (cases "unat HEADROOM + length (contents b) \<le> 35840")
  case True
  moreover have "unat HEADROOM < 35840" by (simp add: HEADROOM_def)
  ultimately show ?thesis by (rule makeHeadroom_ok[OF assms]) auto
qed (use makeHeadroom_full[OF assms] in simp)

lemma prepend_safe:
  assumes "sb_ok b"
  shows "prepend xs (of_nat (length xs)) b \<noteq> Abort OutOfBounds \<and>
    (\<forall>b'. prepend xs (of_nat (length xs)) b = Ret b' \<longrightarrow> sb_ok b')"
proof (cases "unat (of_nat (length xs) :: 8 word) + length (contents b) \<le> 35840")
  case True
  have l: "unat (of_nat (length xs) :: 8 word) \<le> length xs" by (simp add: unat_of_nat)
  obtain b' where "prepend xs (of_nat (length xs)) b = Ret b'" "sb_ok b'"
    by (rule prepend_ok[OF assms l True])
  then show ?thesis by simp
qed (use prepend_full[OF assms, of "of_nat (length xs)" xs] in simp)

lemma yields_upstreamer_new [yields_intro]:
  assumes "fd_limit N E" "fd < int N"
  shows "yields (snug M_PROXIFIER N) (\<lambda>_. True) (ProxifierUpstreamer_new E p fd s)"
  unfolding ProxifierUpstreamer_new_def
  by (intro yields_getPF, simp only: option.case)
    (intro yields_rebuild[OF headroom_safe] yields_rules yields_intro client_new client_classes fits_new assms TrueI;
      use assms(2) in \<open>simp add: client_simps\<close>)

lemma yields_request [yields_intro]:
  assumes "fd_limit N E"
  shows "yields (snug M_PROXIFIER N) (\<lambda>_. True) (ProxifierUpstreamer_request E r)"
  unfolding ProxifierUpstreamer_request_def Let_def
  by (intro yields_getPF yields_rules yields_intro yields_client_choices assms TrueI)

lemma yields_upstreamer_start [yields_intro]:
  assumes "io_ok E" "fd_limit N E"
  shows "yields (snug M_PROXIFIER N) (\<lambda>_. True) (ProxifierUpstreamer_start E r)"
  unfolding ProxifierUpstreamer_start_def
  by (intro yields_rebuild[OF prepend_safe] yields_getPF yields_rules yields_intro yields_exn_case assms TrueI)

lemma yields_plain_handshake:
  "sk_tls s = None \<Longrightarrow> yields (snug md N) (\<lambda>_. True) (clientHandshake E s r)"
  by (simp add: clientHandshake_def yields_pure)

lemma client_plain: "mode_object M_PROXIFIER x \<Longrightarrow> sk_tls (dstSock x) = None"
  by (simp add: mode_object_def plain_def)

lemma yields_connected [yields_intro]: "fd_limit N E \<Longrightarrow> yields (snug md N) (\<lambda>_. True) (checkConnected E fd)"
  unfolding checkConnected_def by (intro yields_rules TrueI)

lemma yields_sendReq [yields_intro]:
  assumes "io_ok E" "fd_limit N E"
  shows "yields (snug M_PROXIFIER N) (\<lambda>_. True) (ProxifierUpstreamer_sendReq E r)"
  unfolding ProxifierUpstreamer_sendReq_def by (intro yields_rules yields_intro assms TrueI)

lemma yields_handshake [yields_intro]:
  assumes "io_ok E" "fd_limit N E"
  shows "yields (snug M_PROXIFIER N) (\<lambda>_. True) (ProxifierUpstreamer_handshake E r)"
    "yields (snug M_PROXIFIER N) (\<lambda>_. True) (ProxifierUpstreamer_connecting E r)"
  unfolding ProxifierUpstreamer_connecting_def ProxifierUpstreamer_handshake_def
  by (intro yields_rules yields_intro yields_plain_handshake client_plain assms; assumption)+

lemma yields_upstreamer [yields_intro]:
  assumes "io_ok E" "fd_limit N E"
  shows "yields (snug M_PROXIFIER N) (\<lambda>_. True) (ProxifierUpstreamer_process E r)"
  unfolding ProxifierUpstreamer_process_def
  by (intro yields_rules yields_intro yields_client_choices assms)

section \<open>The agents and the listener\<close>

lemma yields_defer_new [yields_intro]:
  assumes "fd < int N"
  shows "yields (snug M_PROXIFIER N) (\<lambda>_. True) (ReadableDeferReactor_new fd r)"
proof -
  have "served_object M_PROXIFIER ((new_reactor (CReadableDeferReactor r))\<lparr>listenFD := fd\<rparr>)"
    using client_new[OF client_classes(4)] by (simp add: served_object_def)
  moreover have "fits N ((new_reactor (CReadableDeferReactor r))\<lparr>listenFD := fd\<rparr>)"
    using fits_new assms by (simp add: fits_def new_reactor_def no_socket_def)
  ultimately show ?thesis unfolding ReadableDeferReactor_new_def by (intro yields_intro)
qed

lemma yields_defer [yields_intro]:
  "yields (snug M_PROXIFIER N) (\<lambda>_. True) (ReadableDeferReactor_start E r)"
  "io_ok E \<Longrightarrow> fd_limit N E \<Longrightarrow> yields (snug M_PROXIFIER N) (\<lambda>_. True) (ReadableDeferReactor_process E r)"
  unfolding ReadableDeferReactor_start_def ReadableDeferReactor_process_def
  by (intro yields_rules yields_intro yields_class_case; simp)+

lemma yields_agent_socket [yields_intro]:
  assumes "fd_limit N E"
  shows "yields (snug M_PROXIFIER N) (\<lambda>_. True) (agent_socket E r a)"
  unfolding agent_socket_def by (intro yields_rules yields_intro assms TrueI) (simp add: client_simps)

lemma yields_agent_new [yields_intro]:
  assumes "fd_limit N E" "pack_ok E"
  shows "yields (snug M_PROXIFIER N) (\<lambda>_. True) (SessionSupplicationAgent_new E p s None)"
    "yields (snug M_PROXIFIER N) (\<lambda>_. True) (TFOCookieSupplicationAgent_new E p)"
  unfolding SessionSupplicationAgent_new_def TFOCookieSupplicationAgent_new_def Let_def option.case
  by (intro yields_getPF yields_rules yields_packs yields_intro client_new client_classes fits_new assms TrueI)+

lemma yields_agent_start [yields_intro]:
  assumes "io_ok E" "fd_limit N E"
  shows "yields (snug M_PROXIFIER N) (\<lambda>_. True) (SessionSupplicationAgent_start E r)"
    "yields (snug M_PROXIFIER N) (\<lambda>_. True) (TFOCookieSupplicationAgent_start E r p)"
  unfolding SessionSupplicationAgent_start_def TFOCookieSupplicationAgent_start_def
  by (intro yields_getPF yields_rules yields_intro assms TrueI)+

lemma yields_agent_replies [yields_intro]:
  assumes "io_ok E" "fd_limit N E"
  shows "yields (snug M_PROXIFIER N) (\<lambda>_. True) (SessionSupplicationAgent_sendReq E r)"
    "yields (snug M_PROXIFIER N) (\<lambda>_. True) (SessionSupplicationAgent_recvRep E r)"
  unfolding SessionSupplicationAgent_sendReq_def SessionSupplicationAgent_recvRep_def
  by (intro yields_rules yields_intro yields_exn_case assms TrueI)+

lemma yields_agent [yields_intro]:
  assumes "io_ok E" "fd_limit N E"
  shows "yields (snug M_PROXIFIER N) (\<lambda>_. True) (SessionSupplicationAgent_process E r)"
  unfolding SessionSupplicationAgent_process_def
  by (intro yields_rules yields_intro yields_client_choices assms)

lemma yields_with_supplicant [yields_intro]:
  "yields (snug M_PROXIFIER N) (\<lambda>_. True) m \<Longrightarrow> yields (snug M_PROXIFIER N) (\<lambda>_. True) (with_supplicant s m)"
  unfolding with_supplicant_def by (intro yields_rules yields_intro TrueI)

lemma yields_supplicate [yields_intro]:
  assumes "io_ok E" "fd_limit N E" "pack_ok E"
  shows "yields (snug M_PROXIFIER N) (\<lambda>_. True) (Proxifier_supplicate E p None)"
  unfolding Proxifier_supplicate_def by (intro yields_rules yields_intro assms TrueI)

lemma yields_acquire [yields_intro]: "yields (snug M_PROXIFIER N) (\<lambda>_. True) (acquire_supplicant p)"
  unfolding acquire_supplicant_def by (intro yields_rules yields_intro TrueI)

lemma yields_client_connection [yields_intro]:
  assumes "io_ok E" "fd_limit N E" "fd < int N"
  shows "yields (snug M_PROXIFIER N) (\<lambda>_. True) (Proxifier_handleNewConnection E p fd)"
  unfolding Proxifier_handleNewConnection_def
  by (intro yields_getPF yields_rules yields_intro assms TrueI)

lemma yields_Proxifier_start [yields_intro]:
  assumes "io_ok E" "fd_limit N E" "pack_ok E"
  shows "yields (snug M_PROXIFIER N) (\<lambda>_. True) (Proxifier_start E p)"
  unfolding Proxifier_start_def
  by (intro yields_getPF, simp only:) (intro yields_rules yields_intro assms TrueI)

lemma yields_Proxifier [yields_intro]:
  assumes "fd_limit N E"
  shows "io_ok E \<Longrightarrow> yields (snug M_PROXIFIER N) (\<lambda>_. True) (Proxifier_process E p)"
    "yields (snug M_PROXIFIER N) (\<lambda>_. True) (Proxifier_new E pa ba df cr None)"
  unfolding Proxifier_process_def ListenReactor_process_def Proxifier_new_def ListenReactor_new_def
    ListenReactor_init_def set_listenFD_def
  by (intro yields_listen_loop yields_rules yields_intro client_new client_classes fits_new assms TrueI;
      simp add: client_simps)+

lemma client_dispatch:
  assumes "io_ok E" "parse_ok E" "fd_limit N E"
  shows "yields (snug M_PROXIFIER N) (\<lambda>_. True) (dispatch E r fd ev)"
proof (rule yieldsI)
  fix w assume w: "snug M_PROXIFIER N w"
  have m: "snug M_PROXIFIER N (snd (m w)) \<and> fst (m w) \<noteq> Abort OutOfBounds"
    if "m \<in> {TFOCookieSupplicationAgent_process, Proxifier_process E r, ProxifierUpstreamer_process E r,
        ProxifierDownstreamer_process E r, ReadableDeferReactor_process E r, SessionSupplicationAgent_process E r}" for m
  proof -
    have "yields (snug M_PROXIFIER N) (\<lambda>_. True) m"
      using that unfolding TFOCookieSupplicationAgent_process_def
      by (elim insertE emptyE; simp only:) (intro yields_intro yields_pure assms TrueI)+
    from yieldsD[OF this w] show ?thesis by blast
  qed
  show "snug M_PROXIFIER N (snd (dispatch E r fd ev w)) \<and> fst (dispatch E r fd ev w) \<noteq> Abort OutOfBounds \<and>
      (\<forall>a. fst (dispatch E r fd ev w) = Ret a \<longrightarrow> True)"
  proof (cases "reactors w r")
    case (Some x)
    with servedD[OF snugD(1)[OF w] Some] m show ?thesis
      by (cases "cls x") (auto simp: dispatch_def bindM_def run_getR mode_object_def client_class_def)
  qed (use w in \<open>simp add: dispatch_def bindM_def no_object\<close>)
qed

end
