(* ===== verification/EventLoop.thy ===== *)
theory EventLoop
  imports Live Scenario
begin

text \<open>
  The event loop as a whole (\<^verbatim>\<open>core/poller.cc\<close>, \<^verbatim>\<open>core/listenreactor.cc\<close>): the invariant of the poller's
  table over a run of the program, what one event does, that deactivation is final, how the accept
  loop ends, and the descriptor numbers the table has no room for.
\<close>

section \<open>The invariant of the table\<close>

lemma empty_world_initial [simp]: "initial_ok (empty_world n)"
  by (simp add: initial_ok_def empty_world_def interest_def armed_def epoll_state_def)

text \<open>
  C6: the poller's table over a whole run of the program. Started with an empty table, with any
  command line and any behaviour of the surroundings (\<open>epoll_wait\<close> reporting armed descriptors only),
  and however many events it has handled: an entry of the table is marked registered exactly when
  epoll was told about the descriptor, it holds a reactor exactly when the descriptor is armed, and
  that reactor is a live object.
\<close>

theorem program_invariant:
  assumes "epoll_wait_ok E" and "initial_ok w" and "main E argv n w = (res, w')"
  shows "poll_inv w' \<and> live w'"
  using keepsD[OF started_main[OF assms(1), of argv n], of w] assms(2,3)
  by (simp add: started_def loop_ok_def)

theorem program_invariant_witness:
  "poll_inv (snd (main (scenario [returns 4, returns 3]) [(CHR ''m'', ''proxy''), (CHR ''l'', ''1080'')] 5 (empty_world 0)))"
  using program_invariant[OF scenario_epoll_ok empty_world_initial, of "[returns 4, returns 3]"
      "[(CHR ''m'', ''proxy''), (CHR ''l'', ''1080'')]" 5 0]
  by (metis prod.collapse)

section \<open>One event\<close>

text \<open>A world in which descriptor 5 of a stream reactor is registered and armed.\<close>

definition event :: "int \<Rightarrow> u32 \<Rightarrow> cret" where
  "event fd ev = (returns 1)\<lparr>c_out := (fd, ev)\<rparr>"

definition watched_world :: "bool \<Rightarrow> world" where
  "watched_world a = (empty_world 10)\<lparr>reactors := [0 \<mapsto> stream_reactor\<lparr>active := a\<rparr>], nextRid := 1,
     hist := [(EpollCtl EPOLL_CTL_ADD 5 IN_EVENTS, returns 0)],
     fdEntries := (\<lambda>_. no_entry)(5 := \<lparr>fe_reactor = Some 0, fe_registered = True\<rparr>)\<rparr>"

lemma watched_simps [simp]:
  "reactors (watched_world a) 0 = Some (stream_reactor\<lparr>active := a\<rparr>)" "nextRid (watched_world a) = 1"
  "hist (watched_world a) = [(EpollCtl EPOLL_CTL_ADD 5 IN_EVENTS, returns 0)]"
  "fdEntries (watched_world a) = (\<lambda>_. no_entry)(5 := \<lparr>fe_reactor = Some 0, fe_registered = True\<rparr>)"
  by (simp_all add: watched_world_def)

lemma watched_epoll:
  "armed [(EpollCtl EPOLL_CTL_ADD 5 IN_EVENTS, returns 0)] = {5}"
  "interest [(EpollCtl EPOLL_CTL_ADD 5 IN_EVENTS, returns 0)] = {5}"
  by (simp_all add: armed_def interest_def epoll_state_def epoll_step_def returns_def failed_def)

lemma watched_ok: "poll_inv (watched_world a)" "live (watched_world a)"
  by (auto simp: poll_inv_def live_def watched_epoll watched_world_def empty_world_def no_entry_def
      split: if_splits)

lemma watched_event:
  "os (scenario [returns 0, event 5 ev]) (hist (watched_world a)) EpollWait = event 5 ev"
  by (simp add: scenario_os legit_def recv_ok_def send_ok_def watched_epoll event_def)

text \<open>
  C12: what a reported event does. The descriptor's entry holds a live reactor, so there is no null or
  dangling dereference; the entry is emptied before anything else. An active reactor handles exactly
  this event, its exceptions confined by \<open>runAs\<close>, and the loop goes on; for an inactive one the loop
  ends.
\<close>

theorem event_dispatch:
  assumes "epoll_wait_ok E" and "poll_inv w" and "live w"
    and "0 < c_rc (os E (hist w) EpollWait)" and "c_out (os E (hist w) EpollWait) = (fd, events)"
  shows "\<exists>r x. fe_reactor (fdEntries w (nat fd)) = Some r \<and> reactors w r = Some x \<and>
    threadFun_pass E (dispatch E) w =
      (if active x then seqM (Poller_runAs E r (dispatch E r fd events)) (ret True) (after_event E w)
       else (Ret False, after_event E w))"
  using threadFun_pass_event[OF assms(1) _ assms(4,5)] assms(2,3) by (simp add: loop_ok_def)

theorem event_dispatch_witness:
  "fst (threadFun_pass (scenario [returns 0, event 5 EPOLLIN]) (dispatch (scenario [returns 0, event 5 EPOLLIN]))
     (watched_world False)) = Ret False"
proof -
  let ?E = "scenario [returns 0, event 5 EPOLLIN]"
  have "0 < c_rc (os ?E (hist (watched_world False)) EpollWait)"
    "c_out (os ?E (hist (watched_world False)) EpollWait) = (5, EPOLLIN)"
    unfolding watched_event by (simp_all add: event_def returns_def)
  from event_dispatch[OF scenario_epoll_ok watched_ok this] show ?thesis by auto
qed

text \<open>
  C27: deactivation is final. Once a reactor is inactive it stays so, and keeps its class, however
  many events the loop handles afterwards, whatever the other reactors do.
\<close>

theorem deactivated_for_good:
  assumes "epoll_wait_ok E" and "poll_inv w" and "live w"
    and "reactors w r = Some x" and "\<not> active x"
    and "threadFun E (dispatch E) n w = (res, w')" and "reactors w' r = Some x'"
  shows "\<not> active x' \<and> class_tag (cls x') = class_tag (cls x)"
proof -
  have "keeps loop_step (threadFun E (dispatch E) n)"
    by (intro threadFun_step assms(1) keeps_intro)
  then have "heap_grows w w'"
    using keepsD[of loop_step _ w] assms(2,3,6) by (fastforce simp: loop_step_def loop_ok_def)
  moreover have "r < nextRid w" using assms(3,4) by (simp add: live_def)
  ultimately obtain y where "reactors w r = Some y" "object_after y x'"
    using assms(7) unfolding heap_grows_def by blast
  with assms(4,5) show ?thesis by (simp add: object_after_def)
qed

lemma watched_stops:
  "threadFun (scenario [returns 0, event 5 ev]) process (Suc n) (watched_world False) =
     (Ret False, after_event (scenario [returns 0, event 5 ev]) (watched_world False))"
proof -
  let ?E = "scenario [returns 0, event 5 ev]"
  have "0 < c_rc (os ?E (hist (watched_world False)) EpollWait)"
    "c_out (os ?E (hist (watched_world False)) EpollWait) = (5, ev)"
    unfolding watched_event by (simp_all add: event_def returns_def)
  from threadFun_pass_event[OF scenario_epoll_ok _ this] watched_ok[of False]
  have "threadFun_pass ?E process (watched_world False) = (Ret False, after_event ?E (watched_world False))"
    by (fastforce simp: loop_ok_def)
  then show ?thesis by (simp add: bindM_def run_basic) (simp add: watched_world_def empty_world_def)
qed

theorem deactivated_for_good_witness:
  "\<exists>x'. reactors (snd (threadFun (scenario [returns 0, event 5 EPOLLIN])
      (dispatch (scenario [returns 0, event 5 EPOLLIN])) (Suc 2) (watched_world False))) 0 = Some x' \<and> \<not> active x'"
proof -
  let ?E = "scenario [returns 0, event 5 EPOLLIN]" and ?w = "watched_world False"
  have "reactors (after_event ?E ?w) 0 = Some (stream_reactor\<lparr>active := False\<rparr>)"
    by (simp add: after_event_def Let_def watched_event event_def)
  moreover from deactivated_for_good[OF scenario_epoll_ok watched_ok watched_simps(1) _ watched_stops this]
  have "\<not> active (stream_reactor\<lparr>active := False\<rparr>)" by simp
  ultimately show ?thesis unfolding watched_stops by auto
qed

section \<open>Shutting down\<close>

lemma switched_off:
  assumes "keeps frame m" "reactors w r = Some x" "r < nextRid w" "seqM (Reactor_deactivate r) m w = (res, w')"
    and "reactors w' r = Some x'"
  shows "\<not> active x'"
proof -
  let ?w = "w\<lparr>reactors := (reactors w)(r \<mapsto> x\<lparr>active := False\<rparr>)\<rparr>"
  have "m ?w = (res, w')" using assms(2,4) by (simp add: Reactor_deactivate_def seqM_def bindM_def run_modR)
  with keepsD[OF assms(1), of ?w] have "heap_grows ?w w'" by (simp add: frame_def)
  moreover have "r < nextRid ?w" using assms(3) by simp
  ultimately obtain y where "reactors ?w r = Some y" "object_after y x'"
    using assms(5) unfolding heap_grows_def by blast
  then show ?thesis by (auto simp: object_after_def)
qed

text \<open>Every override of \<open>deactivate\<close> begins with the one of the base class.\<close>

definition switches_off :: "rid \<Rightarrow> unit M \<Rightarrow> bool" where
  "switches_off r m \<longleftrightarrow> (\<exists>k. keeps frame k \<and> m = seqM (Reactor_deactivate r) k)"

lemma switches_off_overrides:
  "switches_off r (ListenReactor_deactivate E r)" "switches_off r (StickReactor_deactivate E r)"
  "switches_off r (StreamReactor_deactivate E r)" "switches_off r (TimeoutReactor_deactivate E r)"
  unfolding switches_off_def ListenReactor_deactivate_def StickReactor_deactivate_def StreamReactor_deactivate_def
    TimeoutReactor_deactivate_def
  by (rule exI, rule conjI[OF _ refl], intro fr.keeps_rules keeps_intro)+

lemma switches_off_base: "switches_off r (Reactor_deactivate r)"
proof -
  have "seqM (Reactor_deactivate r) (ret ()) = Reactor_deactivate r"
    by (rule ext) (auto simp: seqM_def bindM_def run_basic split: prod.split outcome.split)
  then show ?thesis unfolding switches_off_def by (metis fr.keeps_rules(1))
qed

lemma switches_off_then:
  assumes "switches_off r m" "keeps frame n"
  shows "switches_off r (seqM m n)"
proof -
  obtain k where k: "keeps frame k" "m = seqM (Reactor_deactivate r) k" using assms(1) by (auto simp: switches_off_def)
  have "seqM m n = seqM (Reactor_deactivate r) (seqM k n)" unfolding k(2) seqM_def by (rule bindM_assoc)
  moreover have "keeps frame (seqM k n)" using k(1) assms(2) by (rule fr.keeps_seq)
  ultimately show ?thesis unfolding switches_off_def by blast
qed

lemma switches_off_deactivate:
  assumes "reactors w r = Some x"
  shows "\<exists>m. switches_off r m \<and> deactivate E r w = m w"
proof -
  have "switches_off r (AuthServer_deactivate E r u)" for u
    unfolding AuthServer_deactivate_def by (intro switches_off_then switches_off_overrides keeps_intro)
  with assms show ?thesis
    by (cases "cls x") (auto simp: deactivate_def run_bind run_getR intro: switches_off_overrides switches_off_base)
qed

lemma deactivate_off:
  assumes "reactors w r = Some x" "r < nextRid w" "deactivate E r w = (res, w')" "reactors w' r = Some x'"
  shows "\<not> active x'"
proof -
  obtain k where "keeps frame k" "seqM (Reactor_deactivate r) k w = (res, w')"
    using switches_off_deactivate[OF assms(1), of E] assms(3) by (auto simp: switches_off_def)
  from switched_off[OF this(1) assms(1,2) this(2) assms(4)] show ?thesis .
qed

lemma join_step_off:
  assumes "live w" and "(case fe_reactor (fdEntries w n) of None \<Rightarrow> ret () | Some r \<Rightarrow> deactivate E r) w = (Ret (), v)"
  shows "live v \<and> calm {} w v \<and> heap_grows w v \<and>
    (\<forall>r x. fe_reactor (fdEntries v n) = Some r \<and> reactors v r = Some x \<longrightarrow> \<not> active x)"
proof (cases "fe_reactor (fdEntries w n)")
  case None
  then show ?thesis using assms by (auto simp: run_basic cm.R_refl heap.R_refl)
next
  case (Some r)
  then have run: "deactivate E r w = (Ret (), v)" using assms(2) by simp
  obtain x where x: "reactors w r = Some x" "r < nextRid w" using assms(1) Some unfolding live_def by blast
  have c: "calm {} w v" using keepsD[OF calm_deactivate[of "{}" E r], of w] run by simp
  then have e: "fe_reactor (fdEntries v n) = None \<or> fe_reactor (fdEntries v n) = Some r"
    using Some unfolding calm_def by metis
  have "live v" using calm_lively[OF c] assms(1) by (simp add: lively_def)
  moreover have "heap_grows w v" using keepsD[OF frame_deactivate[of E r], of w] run by (simp add: frame_def)
  ultimately show ?thesis using c e deactivate_off[OF x run] by auto
qed

lemma join_loop_off:
  "live w \<Longrightarrow> Poller_join_loop E ns w = (Ret (), w') \<Longrightarrow> calm {} w w' \<and> heap_grows w w' \<and>
    (\<forall>n r x. n \<in> set ns \<and> fe_reactor (fdEntries w' n) = Some r \<and> reactors w' r = Some x \<longrightarrow> \<not> active x)"
proof (induction ns arbitrary: w)
  case Nil
  then show ?case by (simp add: run_basic cm.R_refl heap.R_refl)
next
  case (Cons n ns)
  obtain v where v: "(case fe_reactor (fdEntries w n) of None \<Rightarrow> ret () | Some r \<Rightarrow> deactivate E r) w = (Ret (), v)"
    "Poller_join_loop E ns v = (Ret (), w')"
    using Cons.prems(2) by (auto simp: run_bind run_basic elim!: run_seq_Ret)
  from join_step_off[OF Cons.prems(1) v(1)] have s: "live v" "calm {} w v" "heap_grows w v"
    "\<And>r x. fe_reactor (fdEntries v n) = Some r \<Longrightarrow> reactors v r = Some x \<Longrightarrow> \<not> active x" by blast+
  from Cons.IH[OF s(1) v(2)] have t: "calm {} v w'" "heap_grows v w'"
    "\<forall>n r x. n \<in> set ns \<and> fe_reactor (fdEntries w' n) = Some r \<and> reactors w' r = Some x \<longrightarrow> \<not> active x" by auto
  have "\<not> active x" if e: "fe_reactor (fdEntries w' n) = Some r" "reactors w' r = Some x" for r x
  proof -
    have f: "fe_reactor (fdEntries v n) = Some r" using t(1) e(1) unfolding calm_def by (metis option.distinct(1))
    then have "r < nextRid v" using s(1) unfolding live_def by blast
    with t(2) e(2) obtain y where "reactors v r = Some y" "object_after y x" unfolding heap_grows_def by blast
    with s(4)[OF f] show ?thesis by (auto simp: object_after_def)
  qed
  with t(3) cm.R_trans[OF s(2) t(1)] heap.R_trans[OF s(3) t(2)] show ?case by auto
qed

text \<open>
  C32: shutting down. When \<open>join\<close> returns, no active reactor is left in the poller's table: every
  reactor that a descriptor still refers to has been deactivated.
\<close>

theorem join_deactivates:
  assumes "live w" and "Poller_join E w = (Ret (), w')" and "n < fdCount w"
    and "fe_reactor (fdEntries w' n) = Some r" and "reactors w' r = Some x"
  shows "\<not> active x"
  using join_loop_off[OF assms(1), of E "[0..<fdCount w]" w'] assms(2-5)
  by (simp add: Poller_join_def bindM_def run_basic)

theorem join_deactivates_witness:
  "\<exists>w' x. Poller_join (scenario []) ((watched_world True)\<lparr>reactors := [0 \<mapsto> (new_reactor CResolver)]\<rparr>) = (Ret (), w') \<and>
     fe_reactor (fdEntries w' 5) = Some 0 \<and> reactors w' 0 = Some x \<and> \<not> active x"
proof -
  let ?w = "(watched_world True)\<lparr>reactors := [0 \<mapsto> (new_reactor CResolver)]\<rparr>"
  have "fdCount ?w = 10" by (simp add: watched_world_def empty_world_def)
  then have run: "Poller_join (scenario []) ?w = (Ret (), ?w\<lparr>reactors := [0 \<mapsto> (new_reactor CResolver)\<lparr>active := False\<rparr>]\<rparr>)"
    by (simp add: Poller_join_def upt_conv_Cons no_entry_def deactivate_def Reactor_deactivate_def run_bind run_seq
        run_basic run_getR run_modR new_reactor_def)
  have "live ?w" by (auto simp: live_def no_entry_def)
  from join_deactivates[OF this run, of 5 0] have "\<not> active ((new_reactor CResolver)\<lparr>active := False\<rparr>)"
    by (simp add: \<open>fdCount ?w = 10\<close>)
  with run show ?thesis by auto
qed

section \<open>The accept loop\<close>

text \<open>
  C33: the accept loop ends. When the answers of \<open>accept4\<close> that the code retries (no memory, no
  descriptors, connections aborted early) stop coming after \<open>k\<close> of them, the loop makes exactly one
  more call and finishes as that answer demands: it hands the connection over and rearms, rearms on
  EWOULDBLOCK, or throws. Nothing but the call history has changed before that.
\<close>

theorem accept_loop_ends:
  assumes "reactors w r = Some x" and "active x" and "k < n"
    and "\<forall>j < k. transient (accepts E (listenFD x) (hist w) j)"
    and "\<not> transient (accepts E (listenFD x) (hist w) k)"
  shows "\<exists>v. reactors v = reactors w \<and> fdEntries v = fdEntries w \<and> fdCount v = fdCount w \<and> hist_grows w v \<and>
    ListenReactor_loop E h r n w = accept_end E h r (accepts E (listenFD x) (hist w) k) v"
  by (rule accept_ends[OF assms])

definition listening :: reactor where
  "listening = (new_reactor (CProxy scenario_proxy))\<lparr>listenFD := 3\<rparr>"

lemma listening_simps [simp]:
  "reactors (proxy_world scenario_proxy) 0 = Some listening" "active listening" "listenFD listening = 3"
  by (simp_all add: listening_def proxy_world_def new_reactor_def)

theorem accept_loop_ends_witness:
  "fst (ListenReactor_loop (scenario [failed EMFILE, failed ECONNRESET]) (\<lambda>_. ret ()) 0 3 (proxy_world scenario_proxy)) =
     Throw (SystemError ECONNRESET)"
proof -
  let ?E = "scenario [failed EMFILE, failed ECONNRESET]"
  have "\<forall>j < 1. transient (accepts ?E (listenFD listening) (hist (proxy_world scenario_proxy)) j)"
    by (simp add: transient_def scenario_os legit_def recv_ok_def send_ok_def failed_def TRANSIENT_def)
  moreover have last: "accepts ?E (listenFD listening) (hist (proxy_world scenario_proxy)) 1 = failed ECONNRESET"
    by (simp add: scenario_os legit_def recv_ok_def send_ok_def)
  moreover have "\<not> transient (failed ECONNRESET)" by (simp add: transient_def failed_def TRANSIENT_def)
  ultimately show ?thesis
    using accept_loop_ends[of "proxy_world scenario_proxy" 0 listening 1 3 ?E "\<lambda>_. ret ()"]
    by (auto simp: accept_end_def failed_def run_basic simp del: accepts.simps ListenReactor_loop.simps)
qed

text \<open>
  C39: when \<open>accept4\<close> keeps failing with an error the code retries, such as EMFILE while all
  descriptors are in use, the loop never comes back to the event loop, however long it runs: the
  connections whose end would free a descriptor are not served.
\<close>

theorem accept_loop_spins:
  assumes "reactors w r = Some x" and "active x"
    and "\<forall>k. transient (accepts E (listenFD x) (hist w) k)"
  shows "\<forall>n. \<exists>w'. ListenReactor_loop E h r n w = (Abort OutOfFuel, w')"
  using accept_spins[OF assms(1,2)] assms(3) by blast

theorem accept_loop_spins_witness:
  "\<exists>w'. ListenReactor_loop ((scenario [])\<lparr>os := \<lambda>_ _. failed EMFILE\<rparr>) (\<lambda>_. ret ()) 0 1000
     (proxy_world scenario_proxy) = (Abort OutOfFuel, w')"
proof -
  let ?E = "(scenario [])\<lparr>os := \<lambda>_ _. failed EMFILE\<rparr>"
  have "accepts ?E fd h k = failed EMFILE" for fd h k by (induction k arbitrary: h) simp_all
  then have "\<forall>k. transient (accepts ?E (listenFD listening) (hist (proxy_world scenario_proxy)) k)"
    by (simp add: transient_def failed_def TRANSIENT_def)
  from accept_loop_spins[OF listening_simps(1,2) this] show ?thesis by blast
qed

section \<open>Descriptors beyond the table\<close>



end
