(* ===== verification/MemLoop.thy ===== *)
theory MemLoop
  imports ClientSafe EventLoop
begin

text \<open>
  Memory safety, continued: the event loop and \<open>main\<close>. In the loop the invariant is
  \<open>tight\<close>, which adds the invariant of the poller's table; before the poller exists it is \<open>bare\<close>.
\<close>

section \<open>The event loop\<close>

text \<open>Events name descriptors of the table because of the invariant \<open>loop_ok\<close>.\<close>

definition tight :: "Mode \<Rightarrow> nat \<Rightarrow> world \<Rightarrow> bool" where
  "tight md N w \<longleftrightarrow> snug md N w \<and> loop_ok w"

lemma tight_method:
  assumes "yields (snug md N) P m" "keeps loop_step m"
  shows "yields (tight md N) P m"
  by (rule yieldsI)
    (use yieldsD[OF assms(1)] keepsD[OF assms(2)] in \<open>auto simp: tight_def loop_step_def\<close>)

lemma tight_pass:
  assumes E: "epoll_wait_ok E" and p: "\<And>r fd ev. yields (snug md N) (\<lambda>_. True) (process r fd ev)"
    "\<And>r fd ev. keeps frame (process r fd ev)" "\<And>r fd ev. keeps lively (process r fd ev)"
  shows "yields (tight md N) (\<lambda>_. True) (threadFun_pass E process)"
proof (rule yieldsI)
  fix w assume w: "tight md N w"
  have "loop_ok (snd (threadFun_pass E process w))"
    using keepsD[OF pass_step[OF E p(2,3)], of w] w by (simp add: tight_def loop_step_def)
  moreover have "snug md N (snd (threadFun_pass E process w)) \<and> fst (threadFun_pass E process w) \<noteq> Abort OutOfBounds"
  proof (cases "0 < c_rc (os E (hist w) EpollWait)")
    case True
    obtain fd ev where out: "c_out (os E (hist w) EpollWait) = (fd, ev)" by fastforce
    have "loop_ok w" using w by (simp add: tight_def)
    from threadFun_pass_event[OF E this True out, of process]
    obtain r and x :: reactor where pass: "threadFun_pass E process w =
        (if active x then seqM (Poller_runAs E r (process r fd ev)) (ret True) (after_event E w)
         else (Ret False, after_event E w))" by (elim exE conjE) (rule that)
    have v: "snug md N (after_event E w)"
      by (rule snug_same[of md N w]) (use w in \<open>simp_all add: tight_def after_event_def Let_def\<close>)
    have "yields (snug md N) (\<lambda>_. True) (seqM (Poller_runAs E r (process r fd ev)) (ret True))"
      by (intro yields_rules yields_intro p TrueI)
    from yieldsD[OF this v] v show ?thesis by (simp add: pass)
  next
    case False
    then have c: "c_rc (os E (hist w) EpollWait) \<le> 0" by simp
    have "snug md N (snd (threadFun_pass E process w))"
      unfolding threadFun_pass_idle[OF c] by (rule snug_same[of md N w]) (use w in \<open>simp_all add: tight_def\<close>)
    moreover have "fst (threadFun_pass E process w) \<noteq> Abort OutOfBounds"
      using c by (auto simp: threadFun_pass_def bindM_def run_extcall run_basic)
    ultimately show ?thesis by simp
  qed
  ultimately show "tight md N (snd (threadFun_pass E process w)) \<and> fst (threadFun_pass E process w) \<noteq> Abort OutOfBounds \<and>
      (\<forall>a. fst (threadFun_pass E process w) = Ret a \<longrightarrow> True)" by (simp add: tight_def)
qed

lemma tight_loop:
  assumes "epoll_wait_ok E" "\<And>r fd ev. yields (snug md N) (\<lambda>_. True) (process r fd ev)"
    "\<And>r fd ev. keeps frame (process r fd ev)" "\<And>r fd ev. keeps lively (process r fd ev)"
  shows "yields (tight md N) (\<lambda>_. True) (threadFun E process n)"
proof (induction n)
  case (Suc n)
  show ?case unfolding threadFun.simps by (intro yields_rules tight_pass assms Suc TrueI)
qed (simp add: yields_pure)

lemma yields_join: "yields (snug md N) (\<lambda>_. True) (Poller_join E)"
proof -
  have "yields (snug md N) (\<lambda>_. True) (Poller_join_loop E ns)" for ns
    by (induction ns) (simp_all, (intro yields_rules yields_intro TrueI | assumption)+)
  then show ?thesis unfolding Poller_join_def by (intro yields_rules)
qed

text \<open>The invariant of a run: a proxifier has no TLS.\<close>

definition run_mode :: "settings \<Rightarrow> Mode" where
  "run_mode s = (if mode s = M_PROXIFIER then M_PROXIFIER else M_PROXY)"

definition covered :: "settings \<Rightarrow> bool" where
  "covered s \<longleftrightarrow> (mode s = M_PROXIFIER \<longrightarrow> \<not> useTLS s)"

lemma yields_listeners:
  assumes "io_ok E" "fd_limit N E" "pack_ok E" "mode s = M_PROXIFIER \<longrightarrow> cctx = None"
  shows "yields (snug (run_mode s) N) (\<lambda>_. True) (main_listeners E s pc cctx sctx)"
proof (cases "mode s = M_PROXIFIER")
  case True
  with assms(4) have c: "cctx = None" by simp
  have "yields (snug M_PROXIFIER N) (\<lambda>_. True) (bindM (Proxifier_new E (proxyAddr s) (any_address (port s)) (deferReq s)
      (username s, password s) None) (\<lambda>r. Poller_assign E r (Proxifier_start E r)))"
    by (intro yields_rules yields_intro assms)
  with True c show ?thesis unfolding main_listeners_def by (simp add: run_mode_def)
next
  case False
  then show ?thesis
    unfolding main_listeners_def run_mode_def
    by (simp only: if_False) (intro yields_rules yields_intro assms TrueI)
qed

lemma yields_process:
  assumes "io_ok E" "parse_ok E" "fd_limit N E" "pack_ok E"
  shows "yields (snug (run_mode s) N) (\<lambda>_. True) (dispatch E r fd ev)"
  using client_dispatch[OF assms(1-3)] yields_dispatch[OF assms] by (simp add: run_mode_def)

lemma tight_run:
  assumes E: "io_ok E" "parse_ok E" "fd_limit N E" "pack_ok E" "epoll_wait_ok E"
    and s: "mode s = M_PROXIFIER \<longrightarrow> cctx = None"
  shows "yields (tight (run_mode s) N) (\<lambda>_. True) (seqM (main_listeners E s pc cctx sctx)
     (bindM (threadFun E (dispatch E) n) (\<lambda>running. if running then ret Running
        else seqM Poller_stop (seqM (Poller_join E) (ret EXIT_SUCCESS)))))"
proof -
  let ?md = "run_mode s"
  have l: "yields (tight ?md N) (\<lambda>_. True) (main_listeners E s pc cctx sctx)"
    by (intro tight_method yields_listeners loop_step_method keeps_intro s E)
  have t: "yields (tight ?md N) (\<lambda>_. True) (threadFun E (dispatch E) n)"
    by (intro tight_loop yields_process keeps_intro E)
  have j: "yields (tight ?md N) (\<lambda>_. True) Poller_stop" "yields (tight ?md N) (\<lambda>_. True) (Poller_join E)"
    by (intro tight_method yields_intro yields_join step_stop join_step)+
  show ?thesis by (intro yields_seq yields_bind yields_cases yields_pure l t j TrueI)
qed

section \<open>The program\<close>

text \<open>Before the poller exists there are no objects.\<close>

definition bare :: "world \<Rightarrow> bool" where
  "bare w \<longleftrightarrow> initial_ok w \<and> reactors w = Map.empty"

lemma bare_global [keeps_intro]:
  "keeps (preserves (\<lambda>w. reactors w = Map.empty)) (nss_global_call E g)"
  "keeps (preserves (\<lambda>w. reactors w = Map.empty)) (tlsCheck rc)"
proof -
  have "keeps (preserves (\<lambda>w. reactors w = Map.empty)) (extcall E c)" for c
    by (simp add: keeps_def preserves_def run_extcall)
  moreover have "keeps (preserves (\<lambda>w. reactors w = Map.empty)) (PR_SetError e)" for e
    by (simp add: keeps_def preserves_def PR_SetError_def run_basic)
  ultimately show "keeps (preserves (\<lambda>w. reactors w = Map.empty)) (nss_global_call E g)"
    unfolding nss_global_call_def by (intro pres.keeps_rules)
qed (simp add: tlsCheck_def pres.keeps_rules)

lemma bare_library [keeps_intro]:
  "keeps (preserves (\<lambda>w. reactors w = Map.empty)) (TLSLibrary_new E dir)"
  "keeps (preserves (\<lambda>w. reactors w = Map.empty)) (main_contexts E s)"
  unfolding library_defs by (intro pres.keeps_rules keeps_intro keeps_exn_case)+

lemma library_in_bounds:
  "yields (\<lambda>_. True) (\<lambda>_. True) (TLSLibrary_new E dir)" "yields (\<lambda>_. True) (\<lambda>_. True) (TLSLibrary_destroy E)"
  "yields (\<lambda>_. True) (\<lambda>_. True) (main_contexts E s)" "yields (\<lambda>_. True) (\<lambda>_. True) (destroy_contexts E cctx sctx)"
proof -
  have "yields (\<lambda>_. True) (\<lambda>_. True) (extcall E c)" for c by (simp add: yields_def run_extcall)
  moreover have "yields (\<lambda>_. True) (\<lambda>_. True) (PR_SetError e)" for e
    by (simp add: yields_def PR_SetError_def run_basic)
  ultimately have g: "yields (\<lambda>_. True) (\<lambda>_. True) (nss_global_call E g)" for g
    unfolding nss_global_call_def by (intro yields_seq yields_bind yields_cases yields_pure TrueI)
  have c: "yields (\<lambda>_. True) (\<lambda>_. True) (tlsCheck rc)" for rc
    unfolding tlsCheck_def by (intro yields_bind yields_cases yields_pure TrueI)
  show "yields (\<lambda>_. True) (\<lambda>_. True) (TLSLibrary_new E dir)" "yields (\<lambda>_. True) (\<lambda>_. True) (TLSLibrary_destroy E)"
    "yields (\<lambda>_. True) (\<lambda>_. True) (main_contexts E s)" "yields (\<lambda>_. True) (\<lambda>_. True) (destroy_contexts E cctx sctx)"
    unfolding library_defs
    by (intro yields_seq yields_bind yields_try yields_cases yields_pure yields_exn_case g c TrueI)+
qed

lemma yields_kept:
  assumes "keeps (preserves I) m" "yields (\<lambda>_. True) (\<lambda>_. True) m"
  shows "yields I (\<lambda>_. True) m"
  by (rule yieldsI) (use keepsD[OF assms(1)] yieldsD(2)[OF assms(2)] in \<open>auto simp: preserves_def\<close>)

lemma bare_kept:
  "keeps (preserves initial_ok) m \<Longrightarrow> keeps (preserves (\<lambda>w. reactors w = Map.empty)) m \<Longrightarrow> keeps (preserves bare) m"
  by (simp add: bare_def keeps_def preserves_def)

lemmas bare_setup =
  yields_kept[OF bare_kept[OF initial_library(1) bare_library(1)] library_in_bounds(1)]
  yields_kept[OF bare_kept[OF initial_contexts bare_library(2)] library_in_bounds(3)]

text \<open>From the state without objects to the state with a poller.\<close>

definition in_bounds :: "(world \<Rightarrow> bool) \<Rightarrow> 'a M \<Rightarrow> bool" where
  "in_bounds I m \<longleftrightarrow> (\<forall>w. I w \<longrightarrow> fst (m w) \<noteq> Abort OutOfBounds)"

lemma in_bounds_yields: "yields I P m \<Longrightarrow> in_bounds I m"
  by (simp add: in_bounds_def yieldsD(2))

lemma in_bounds_bind_result:
  assumes "yields I P m" "\<And>a. P a \<Longrightarrow> in_bounds I (f a)"
  shows "in_bounds I (bindM m f)"
  unfolding in_bounds_def
proof (intro allI impI)
  fix w assume w: "I w"
  from yieldsD[OF assms(1) w] assms(2) show "fst (bindM m f w) \<noteq> Abort OutOfBounds"
    by (auto simp: bindM_def in_bounds_def split: prod.splits outcome.splits)
qed

lemma in_bounds_bind: "yields I (\<lambda>_. True) m \<Longrightarrow> (\<And>a. in_bounds I (f a)) \<Longrightarrow> in_bounds I (bindM m f)"
  by (rule in_bounds_bind_result)

lemma in_bounds_after:
  assumes "in_bounds I m"
  shows "(\<And>a. in_bounds (\<lambda>_. True) (f a)) \<Longrightarrow> in_bounds I (bindM m f)"
    "(\<And>e. in_bounds (\<lambda>_. True) (h e)) \<Longrightarrow> in_bounds I (tryM m h)"
  using assms by (auto simp: in_bounds_def bindM_def tryM_def split: prod.splits outcome.splits)

lemma in_bounds_Poller_new:
  assumes "yields (tight md N) P m"
  shows "in_bounds bare (seqM (Poller_new E N) m)"
  unfolding in_bounds_def
proof (intro allI impI)
  fix w assume w: "bare w"
  show "fst (seqM (Poller_new E N) m w) \<noteq> Abort OutOfBounds"
  proof (cases "Poller_new E N w")
    case (Pair res v)
    have "loop_ok v" using keepsD[OF started_Poller_new[of E N], of w] w Pair by (simp add: started_def bare_def)
    moreover have "snug md N v" if "res = Ret ()"
      using that Pair w
      by (auto simp: Poller_new_def bindM_def run_extcall run_basic snug_def served_def bare_def split: if_splits)
    moreover have "\<And>e. res \<noteq> Abort e"
      using Pair by (auto simp: Poller_new_def bindM_def run_extcall run_basic split: if_splits)
    ultimately show ?thesis
      using Pair yieldsD(2)[OF assms, of v] by (cases res) (auto simp: seqM_def bindM_def tight_def)
  qed
qed

lemma in_bounds_scoped:
  assumes "yields (\<lambda>_. True) (\<lambda>_. True) d" "in_bounds I m"
  shows "in_bounds I (scoped d m)"
proof -
  have "in_bounds (\<lambda>_. True) (seqM d (throw e))"
    "in_bounds (\<lambda>_. True) (if st = Running then ret st else seqM d (ret st))" for e st
    by (intro in_bounds_yields[where P = "\<lambda>_. True"] yields_seq yields_cases yields_pure assms(1) TrueI)+
  with assms(2) show ?thesis unfolding scoped_def by (intro in_bounds_after)
qed

lemma contexts_of_mode:
  "yields bare (\<lambda>(cctx, sctx). covered s \<longrightarrow> mode s = M_PROXIFIER \<longrightarrow> cctx = None) (main_contexts E s)"
proof (cases "useTLS s")
  case True
  then have "covered s \<longrightarrow> mode s \<noteq> M_PROXIFIER" by (simp add: covered_def)
  with bare_setup(2)[of E s] show ?thesis by (auto simp: yields_def)
qed (simp add: main_contexts_def yields_pure)

lemma main_run_in_bounds:
  assumes "io_ok E" "parse_ok E" "fd_limit expectedFDs E" "pack_ok E" "epoll_wait_ok E" "covered s"
  shows "in_bounds bare (main_run E s pc n)"
  unfolding main_run_def main_loop_def
proof (rule in_bounds_bind_result[OF contexts_of_mode], clarify)
  fix cctx sctx :: "tlscontext option" assume "covered s \<longrightarrow> mode s = M_PROXIFIER \<longrightarrow> cctx = None"
  with assms(6) have c: "mode s = M_PROXIFIER \<longrightarrow> cctx = None" by blast
  show "in_bounds bare (scoped (destroy_contexts E cctx sctx) (seqM (Poller_new E expectedFDs)
     (seqM (main_listeners E s pc cctx sctx)
     (bindM (threadFun E (dispatch E) n) (\<lambda>running. if running then ret Running
        else seqM Poller_stop (seqM (Poller_join E) (ret EXIT_SUCCESS)))))))"
    by (rule in_bounds_scoped[OF library_in_bounds(4)], rule in_bounds_Poller_new, rule tight_run, (rule assms c)+)
qed

lemma with_library_in_bounds:
  assumes "in_bounds bare m"
  shows "in_bounds bare (with_library E s m)"
proof (cases "useTLS s")
  case True
  then show ?thesis
    unfolding with_library_def seqM_def[of "TLSLibrary_new E (certDB s)"]
    by (simp, intro in_bounds_bind[OF bare_setup(1)] in_bounds_scoped library_in_bounds assms)
qed (use assms in \<open>simp add: with_library_def\<close>)

text \<open>Without the options of TLS there is no TLS.\<close>

definition tls_option :: "char \<times> string \<Rightarrow> bool" where
  "tls_option opt \<longleftrightarrow> fst opt \<in> {CHR ''C'', CHR ''S'', CHR ''n''}"

lemma options_tls:
  "parse_options E argv s = Some s' \<Longrightarrow> list_all (\<lambda>opt. \<not> tls_option opt) argv \<Longrightarrow> \<not> useTLS s \<Longrightarrow> \<not> useTLS s'"
proof (induction argv arbitrary: s)
  case (Cons opt opts)
  then obtain t where t: "parse_option E opt s = Some t" "parse_options E opts t = Some s'"
    by (auto split: option.splits)
  obtain c arg where "opt = (c, arg)" by fastforce
  with Cons.prems t(1) have "\<not> useTLS t"
    by (auto simp: parse_option_def tls_option_def Let_def split: if_splits)
  with Cons t(2) show ?case by simp
qed simp

lemma settings_tls: "check_settings s = Ret (Some (s', pc)) \<Longrightarrow> useTLS s' = useTLS s"
  by (auto simp: check_settings_def Let_def split: if_splits sum.splits)

definition safe_options :: "(char \<times> string) list \<Rightarrow> bool" where
  "safe_options argv \<longleftrightarrow> (CHR ''m'', ''proxify'') \<notin> set argv \<or> list_all (\<lambda>opt. \<not> tls_option opt) argv"

lemma options_covered:
  assumes "parse_options E argv (initial_settings E) = Some s" "safe_options argv"
    "check_settings s = Ret (Some (t, pc))"
  shows "covered t"
  using options_mode[OF assms(1)] options_tls[OF assms(1)] settings_mode[OF assms(3)] settings_tls[OF assms(3)] assms(2)
  by (auto simp: safe_options_def covered_def initial_settings_def)

lemma main_in_bounds:
  assumes E: "io_ok E" "parse_ok E" "fd_limit expectedFDs E" "pack_ok E" "epoll_wait_ok E"
    and argv: "safe_options argv"
  shows "in_bounds bare (main E argv n)"
proof (cases "parse_options E argv (initial_settings E)")
  case (Some s)
  have run: "in_bounds bare (tryM (with_library E t (main_run E t pc n)) (\<lambda>_. ret EXIT_FAILURE))"
    if "check_settings s = Ret (Some (t, pc))" for t pc
    by (intro in_bounds_after with_library_in_bounds main_run_in_bounds E options_covered[OF Some argv that]
        in_bounds_yields[OF yields_pure(1)[of "\<lambda>_. True"]] TrueI)
  have "check_settings s \<noteq> Abort OutOfBounds" by (auto simp: check_settings_def Let_def split: sum.splits)
  with Some run show ?thesis
    by (auto simp: main_def in_bounds_def bindM_def run_basic split: outcome.splits option.splits)
qed (simp add: main_def in_bounds_def run_basic)

text \<open>
  C7: memory safety. If the descriptors the system gives out fit the poller's table, no run of \<open>main\<close>
  accesses a buffer or the table out of bounds: of the proxy with or without TLS, and of the proxifier
  without TLS.\<close>

theorem program_memory_safe:
  assumes "io_ok E" "parse_ok E" "pack_ok E" "epoll_wait_ok E" "fd_limit expectedFDs E"
    "initial_ok w" "reactors w = Map.empty"
    "(CHR ''m'', ''proxify'') \<notin> set argv \<or> list_all (\<lambda>opt. fst opt \<notin> {CHR ''C'', CHR ''S'', CHR ''n''}) argv"
  shows "fst (main E argv n w) \<noteq> Abort OutOfBounds"
proof -
  from assms(8) have "safe_options argv" by (simp add: safe_options_def tls_option_def)
  from main_in_bounds[OF assms(1,2,5,3,4) this, of n] assms(6,7) show ?thesis by (simp add: in_bounds_def bare_def)
qed

lemma scenario_pack_ok: "pack_ok (scenario as)"
  by (auto simp: pack_ok_def scenario_def split: if_splits)

text \<open>The scenarios answer with small descriptors.\<close>

lemma scenario_fd_limit:
  assumes "\<forall>a \<in> set as. c_rc a < int N" "100 \<le> N"
  shows "fd_limit N (scenario as)"
  unfolding fd_limit_def scenario_os
  using assms nth_mem[of _ as] by (auto simp: default_answer_def failed_def fd_call_def split: call.splits)

text \<open>The surroundings of a proxy whose start succeeds and whose listening socket then reports a connection.\<close>

definition busy_start :: "cret list" where
  "busy_start = [returns 4, returns 3, returns 0, returns 0, returns 0, returns 0, returns 0, event 3 EPOLLIN,
     returns 5, returns 0, returns 0, failed EAGAIN, returns 0, returns 0]"

theorem program_memory_safe_witness:
  "fst (main (scenario busy_start) [(CHR ''m'', ''proxy''), (CHR ''l'', ''1080'')] 5 (empty_world 0))
     \<noteq> Abort OutOfBounds"
proof -
  have "fd_limit expectedFDs (scenario busy_start)"
    by (rule scenario_fd_limit) (simp_all add: busy_start_def returns_def failed_def event_def expectedFDs_def)
  from program_memory_safe[OF scenario_io_ok scenario_parse_ok scenario_pack_ok scenario_epoll_ok this empty_world_initial]
  show ?thesis by (simp add: empty_world_def)
qed

end
