(* ===== verification/Progress.thy ===== *)
theory Progress
  imports StreamInv Scenario
begin

text \<open>
  A relay never gets stuck (\<^verbatim>\<open>core/streamreactor.cc\<close>, \<^verbatim>\<open>core/poller.hh\<close>): for a stream reactor between two
  plain sockets whose descriptors fit the poller's table, handling an event has defined behaviour,
  and afterwards the reactor is inactive, or the socket it needs next is closed, or the poller's
  table names it for that socket. The proofs use the triples of the prelude: pre- and
  postconditions for returns and for exceptions, without undefined behaviour.
\<close>

section \<open>States of a plain relay\<close>

definition stream_class :: "rclass \<Rightarrow> bool" where
  "stream_class c \<longleftrightarrow> (case c of CProxyUpstreamer _ \<Rightarrow> True | CSimpleProxyDownstreamer \<Rightarrow> True
     | CConnectProxyDownstreamer _ \<Rightarrow> True | CProxifierUpstreamer _ \<Rightarrow> True
     | CProxifierDownstreamer _ \<Rightarrow> True | _ \<Rightarrow> False)"

text \<open>\<open>plain_stream r w\<close>: \<open>r\<close> is a relay between plain sockets that fit the table.\<close>

definition plain_object :: "nat \<Rightarrow> reactor \<Rightarrow> bool" where
  "plain_object n x \<longleftrightarrow> stream_class (cls x) \<and> sb_ok (buf x) \<and>
     sk_tls (srcSock x) = None \<and> sk_tls (dstSock x) = None \<and>
     sk_fd (srcSock x) < int n \<and> sk_fd (dstSock x) < int n"

definition stream_with :: "rid \<Rightarrow> (reactor \<Rightarrow> bool) \<Rightarrow> world \<Rightarrow> bool" where
  "stream_with r X w \<longleftrightarrow> (\<exists>x. reactors w r = Some x \<and> plain_object (fdCount w) x \<and> X x)"

definition plain_stream :: "rid \<Rightarrow> world \<Rightarrow> bool" where
  "plain_stream r = stream_with r (\<lambda>_. True)"

text \<open>The descriptor whose next event the reactor needs.\<close>

definition wanted :: "reactor \<Rightarrow> int" where
  "wanted x = (case streamState x of SS_RECEIVING \<Rightarrow> sk_fd (srcSock x) | SS_SENDING \<Rightarrow> sk_fd (dstSock x))"

definition waits :: "rid \<Rightarrow> world \<Rightarrow> bool" where
  "waits r w \<longleftrightarrow> stream_with r (\<lambda>x. active x \<longrightarrow> wanted x < 0 \<or>
     fe_reactor (fdEntries w (nat (wanted x))) = Some r) w"

text \<open>The last call made was an \<open>epoll_ctl\<close> that failed, and its error was thrown.\<close>

definition ctl_failed :: "exn \<Rightarrow> history \<Rightarrow> bool" where
  "ctl_failed e h \<longleftrightarrow> (\<exists>k op fd ev rc. h = k @ [(EpollCtl op fd ev, rc)] \<and> c_rc rc < 0 \<and>
     e = SystemError (c_errno rc))"

text \<open>An exception inside the handler: a request to reschedule names the wanted descriptor.\<close>

definition thrown :: "rid \<Rightarrow> exn \<Rightarrow> world \<Rightarrow> bool" where
  "thrown r e w \<longleftrightarrow> stream_with r (\<lambda>x. \<forall>fd ev. e = RescheduleException fd ev \<longrightarrow> wanted x = fd) w"

lemma ctl_failed_thrown: "plain_stream r w \<and> ctl_failed e (hist w) \<Longrightarrow> thrown r e w"
  by (auto simp: thrown_def plain_stream_def stream_with_def ctl_failed_def)

lemma ctl_failed_snoc: "c_rc rc < 0 \<Longrightarrow> ctl_failed (SystemError (c_errno rc)) (h @ [(EpollCtl op fd ev, rc)])"
  by (auto simp: ctl_failed_def)

lemma stream_with_hist [simp]:
  "stream_with r X (w\<lparr>hist := h\<rparr>) = stream_with r X w"
  "stream_with r X (w\<lparr>fdEntries := f\<rparr>) = stream_with r X w"
  by (simp_all add: stream_with_def)

lemma stream_with_mono: "stream_with r X w \<Longrightarrow> (\<And>x. X x \<Longrightarrow> Y x) \<Longrightarrow> stream_with r Y w"
  by (auto simp: stream_with_def)

section \<open>The poller\<close>

lemma triple_add [triple_intro]:
  "triple (stream_with r (\<lambda>x. wanted x = fd)) (Poller_add E r fd ev) (\<lambda>_. waits r)
     (\<lambda>e w. plain_stream r w \<and> ctl_failed e (hist w))"
proof (rule tripleI)
  fix w assume "stream_with r (\<lambda>x. wanted x = fd) w"
  then obtain x where x: "reactors w r = Some x" "plain_object (fdCount w) x" "wanted x = fd"
    by (auto simp: stream_with_def)
  then have "fd < int (fdCount w)" by (auto simp: plain_object_def wanted_def split: StreamState.splits)
  with x show "case Poller_add E r fd ev w of (Ret a, w') \<Rightarrow> waits r w'
      | (Throw e, w') \<Rightarrow> plain_stream r w' \<and> ctl_failed e (hist w') | (Abort _, _) \<Rightarrow> False"
    by (auto simp: Poller_add_eq[OF x(1)] Let_def waits_def plain_stream_def stream_with_def ctl_failed_snoc)
qed

lemma triple_remove [triple_intro]:
  "triple (\<lambda>w. stream_with r X w \<and> fd < int (fdCount w)) (Poller_remove E fd False) (\<lambda>_. stream_with r X)
     (\<lambda>e w. plain_stream r w \<and> ctl_failed e (hist w))"
  by (rule tripleI)
    (auto simp: Poller_remove_eq Let_def plain_stream_def ctl_failed_snoc intro: stream_with_mono)

section \<open>The object\<close>

lemma triple_get:
  assumes "\<And>x. X x \<Longrightarrow> triple (stream_with r (\<lambda>y. y = x)) (f x) Q R"
  shows "triple (stream_with r X) (bindM (getR r) f) Q R"
proof (rule tripleI)
  fix w assume "stream_with r X w"
  then obtain x where x: "reactors w r = Some x" "plain_object (fdCount w) x" "X x"
    by (auto simp: stream_with_def)
  then have "stream_with r (\<lambda>y. y = x) w" by (simp add: stream_with_def)
  from tripleD[OF assms[OF x(3)] this] x(1)
  show "case bindM (getR r) f w of (Ret a, w') \<Rightarrow> Q a w' | (Throw e, w') \<Rightarrow> R e w' | (Abort _, _) \<Rightarrow> False"
    by (simp add: run_bind run_getR)
qed

lemma triple_mod:
  assumes "\<And>n x. plain_object n x \<Longrightarrow> X x \<Longrightarrow> plain_object n (f x) \<and> Y (f x)"
  shows "triple (stream_with r X) (modR r f) (\<lambda>_. stream_with r Y) R"
  using assms by (intro tripleI) (auto simp: stream_with_def run_modR)

lemma reset_src_run: "\<exists>h. UniqRecvFD_reset E fd w = (Ret (-1), w\<lparr>hist := h\<rparr>)"
  by (cases "fd = -1") (force simp: UniqRecvFD_reset_def bindM_def run_basic run_extcall intro: exI[of _ "hist w"])+

lemma reset_dst_run: "\<exists>h. UniqSendFD_reset E fd w = (Ret (-1), w\<lparr>hist := h\<rparr>)"
  by (cases "fd = -1") (force simp: UniqSendFD_reset_def bindM_def run_basic run_extcall intro: exI[of _ "hist w"])+

lemma triple_reset:
  assumes "\<And>n x. plain_object n x \<Longrightarrow> X x \<Longrightarrow> plain_object n (f (-1) x) \<and> Y (f (-1) x)"
    and "\<And>x w. \<exists>h. m x w = (Ret (-1), w\<lparr>hist := h\<rparr>)"
  shows "triple (stream_with r X) (bindM (getR r) (\<lambda>x. bindM (m x) (\<lambda>fd :: int. modR r (f fd)))) (\<lambda>_. stream_with r Y) R"
proof (rule triple_get)
  fix x :: reactor assume x: "X x"
  have "triple (stream_with r (\<lambda>y. y = x)) (m x) (\<lambda>fd w. fd = -1 \<and> stream_with r X w) R"
  proof (rule tripleI)
    fix w assume "stream_with r (\<lambda>y. y = x) w"
    moreover obtain h where "m x w = (Ret (-1), w\<lparr>hist := h\<rparr>)" using assms(2) by blast
    ultimately show "case m x w of (Ret fd, w') \<Rightarrow> fd = -1 \<and> stream_with r X w' | (Throw e, w') \<Rightarrow> R e w'
        | (Abort _, _) \<Rightarrow> False" using x by (auto elim: stream_with_mono)
  qed
  moreover have "triple (\<lambda>w. fd = -1 \<and> stream_with r X w) (modR r (f fd)) (\<lambda>_. stream_with r Y) R" for fd
    by (cases "fd = -1") (use triple_mod[of X "f (-1)" Y r R] assms(1) in \<open>auto simp: triple_def\<close>)
  ultimately show "triple (stream_with r (\<lambda>y. y = x)) (bindM (m x) (\<lambda>fd. modR r (f fd))) (\<lambda>_. stream_with r Y) R"
    by (rule triple_bind)
qed

lemma triple_reset_src:
  "triple (stream_with r (\<lambda>x. streamState x = s \<and> sk_fd (dstSock x) = d)) (reset_srcSock E r)
     (\<lambda>_. stream_with r (\<lambda>x. streamState x = s \<and> sk_fd (dstSock x) = d \<and> sk_fd (srcSock x) = -1)) R"
  unfolding reset_srcSock_def by (rule triple_reset[OF _ reset_src_run]) (auto simp: plain_object_def)

lemma triple_reset_dst:
  "triple (stream_with r (\<lambda>x. sk_fd (srcSock x) = -1)) (reset_dstSock E r)
     (\<lambda>_. stream_with r (\<lambda>x. sk_fd (srcSock x) = -1 \<and> sk_fd (dstSock x) = -1)) R"
  unfolding reset_dstSock_def by (rule triple_reset[OF _ reset_dst_run]) (auto simp: plain_object_def)

lemma src_fits: "stream_with r (\<lambda>y. y = x) w \<Longrightarrow> sk_fd (srcSock x) < int (fdCount w)"
  and dst_fits: "stream_with r (\<lambda>y. y = x) w \<Longrightarrow> sk_fd (dstSock x) < int (fdCount w)"
  by (auto simp: stream_with_def plain_object_def)

lemma triple_remove_src:
  "X x \<Longrightarrow> triple (stream_with r (\<lambda>y. y = x)) (Poller_remove E (sk_fd (srcSock x)) False)
     (\<lambda>_. stream_with r X) (thrown r)"
  by (rule triple_weaken[OF triple_remove[of r X]])
    (auto simp: src_fits ctl_failed_thrown elim: stream_with_mono)

lemma triple_remove_dst:
  "X x \<Longrightarrow> triple (stream_with r (\<lambda>y. y = x)) (Poller_remove E (sk_fd (dstSock x)) False)
     (\<lambda>_. stream_with r X) (thrown r)"
  by (rule triple_weaken[OF triple_remove[of r X]])
    (auto simp: dst_fits ctl_failed_thrown elim: stream_with_mono)

lemma triple_close_src:
  "triple (stream_with r (\<lambda>x. streamState x = s)) (close_srcSock E r)
     (\<lambda>_. stream_with r (\<lambda>x. streamState x = s \<and> sk_fd (srcSock x) = -1)) (thrown r)"
  unfolding close_srcSock_def
proof (rule triple_get)
  fix x :: reactor assume s: "streamState x = s"
  show "triple (stream_with r (\<lambda>y. y = x)) (seqM (Poller_remove E (sk_fd (srcSock x)) False) (reset_srcSock E r))
     (\<lambda>_. stream_with r (\<lambda>x. streamState x = s \<and> sk_fd (srcSock x) = -1)) (thrown r)"
    by (rule triple_seq[OF triple_remove_src[where X = "\<lambda>y. streamState y = s \<and> sk_fd (dstSock y) = sk_fd (dstSock x)"]
          triple_weaken[OF triple_reset_src]]) (use s in \<open>auto elim: stream_with_mono\<close>)
qed

lemma triple_close_dst:
  "triple (stream_with r (\<lambda>x. sk_fd (srcSock x) = -1)) (close_dstSock E r) (\<lambda>_. waits r) (thrown r)"
  unfolding close_dstSock_def
proof (rule triple_get)
  fix x :: reactor assume s: "sk_fd (srcSock x) = -1"
  have "stream_with r (\<lambda>x. sk_fd (srcSock x) = -1 \<and> sk_fd (dstSock x) = -1) w \<Longrightarrow> waits r w" for w
    by (auto simp: waits_def wanted_def elim!: stream_with_mono split: StreamState.split)
  then show "triple (stream_with r (\<lambda>y. y = x)) (seqM (Poller_remove E (sk_fd (dstSock x)) False) (reset_dstSock E r))
     (\<lambda>_. waits r) (thrown r)"
    by (intro triple_seq[OF triple_remove_dst[where X = "\<lambda>y. sk_fd (srcSock y) = -1"]
          triple_weaken[OF triple_reset_dst[where R = "thrown r"]]]) (use s in auto)
qed

lemma triple_deactivate:
  "triple (plain_stream r) (deactivate E r) (\<lambda>_. waits r) (\<lambda>e w. plain_stream r w \<and> ctl_failed e (hist w))"
  unfolding deactivate_def plain_stream_def
proof (rule triple_get)
  let ?off = "stream_with r (\<lambda>x. \<not> active x)"
  let ?R = "\<lambda>e w. stream_with r (\<lambda>_. True) w \<and> ctl_failed e (hist w)"
  fix x :: reactor
  have off: "triple (stream_with r (\<lambda>y. y = x)) (Reactor_deactivate r) (\<lambda>_. ?off) ?R"
    unfolding Reactor_deactivate_def by (rule triple_mod) (simp add: plain_object_def)
  have rm: "triple ?off (bindM (getR r) (\<lambda>x. seqM (Poller_remove E (sk_fd (srcSock x)) False)
      (Poller_remove E (sk_fd (dstSock x)) False))) (\<lambda>_. waits r) ?R"
  proof (rule triple_get)
    fix y :: reactor assume y: "\<not> active y"
    show "triple (stream_with r (\<lambda>z. z = y)) (seqM (Poller_remove E (sk_fd (srcSock y)) False)
      (Poller_remove E (sk_fd (dstSock y)) False)) (\<lambda>_. waits r) ?R"
      by (rule triple_seq[OF triple_weaken[OF triple_remove[of r "\<lambda>z. z = y"]] triple_weaken[OF triple_remove[of r "\<lambda>z. z = y"]]])
        (use y in \<open>auto simp: src_fits dst_fits plain_stream_def waits_def elim: stream_with_mono\<close>)
  qed
  show "triple (stream_with r (\<lambda>y. y = x)) (case cls x of
       CProxy _ \<Rightarrow> ListenReactor_deactivate E r
     | CProxifier _ \<Rightarrow> ListenReactor_deactivate E r
     | CAuthServer a \<Rightarrow> AuthServer_deactivate E r (as_upstreamer a)
     | CSessionSupplicationAgent _ \<Rightarrow> StickReactor_deactivate E r
     | CTFOCookieSupplicationAgent _ \<Rightarrow> StickReactor_deactivate E r
     | CTimeoutReactor _ \<Rightarrow> TimeoutReactor_deactivate E r
     | CReadableDeferReactor _ \<Rightarrow> Reactor_deactivate r
     | CResolver \<Rightarrow> Reactor_deactivate r
     | _ \<Rightarrow> StreamReactor_deactivate E r) (\<lambda>_. waits r) ?R"
  proof (cases "stream_class (cls x)")
    case True
    then show ?thesis
      using triple_seq[OF off rm] by (simp add: stream_class_def StreamReactor_deactivate_def split: rclass.splits)
  next
    case False
    then have "\<not> stream_with r (\<lambda>y. y = x) w" for w by (auto simp: stream_with_def plain_object_def)
    then show ?thesis by (simp add: triple_def)
  qed
qed

section \<open>Reading and writing\<close>

lemma triple_recv:
  assumes "io_ok E" "streamState x = SS_RECEIVING"
  shows "triple (stream_with r (\<lambda>y. y = x)) (sockRecv E (srcSock x) r)
     (\<lambda>_. stream_with r (\<lambda>y. streamState y = SS_RECEIVING)) (thrown r)"
proof (rule tripleI)
  fix w assume "stream_with r (\<lambda>y. y = x) w"
  then have x: "reactors w r = Some x" "plain_object (fdCount w) x" by (auto simp: stream_with_def)
  let ?c = "Recv (sk_fd (srcSock x)) (unat (availSize (buf x)))"
  let ?rc = "os E (hist w) ?c"
  let ?w = "w\<lparr>hist := hist w @ [(?c, ?rc)]\<rparr>"
  have p: "sk_tls (srcSock x) = None" "sb_ok (buf x)" using x(2) by (auto simp: plain_object_def)
  show "case sockRecv E (srcSock x) r w of (Ret a, w') \<Rightarrow> stream_with r (\<lambda>y. streamState y = SS_RECEIVING) w'
      | (Throw e, w') \<Rightarrow> thrown r e w' | (Abort _, _) \<Rightarrow> False"
  proof (cases "c_rc ?rc < 0")
    case True
    then show ?thesis using x p assms(2)
      by (auto simp: sockRecv_def tcpRecv_def bindM_def run_getR run_extcall run_basic stream_with_def thrown_def wanted_def)
  next
    case False
    with io_okD(1)[OF assms(1), of "hist w" "sk_fd (srcSock x)" "unat (availSize (buf x))"]
    have l: "length (c_data ?rc) \<le> unat (availSize (buf x))" "c_rc ?rc = int (length (c_data ?rc))" by auto
    from buf_receive_run[of ?w r x, OF _ p(2) l(1)] x False p
    have "sockRecv E (srcSock x) r w = (Ret (c_rc ?rc), ?w\<lparr>reactors := (reactors w)(r \<mapsto> x\<lparr>buf := store (c_data ?rc) (buf x)\<rparr>)\<rparr>)"
      by (simp add: sockRecv_def tcpRecv_def bindM_def seqM_def run_getR run_extcall run_basic flip: l(2))
    then show ?thesis using x assms(2) store_ok(1)[OF p(2) l(1)] by (auto simp: stream_with_def plain_object_def)
  qed
qed

lemma triple_send:
  assumes "io_ok E" "streamState x = SS_SENDING"
  shows "triple (stream_with r (\<lambda>y. y = x)) (sockSend E (dstSock x) r)
     (\<lambda>_. stream_with r (\<lambda>y. streamState y = SS_SENDING)) (thrown r)"
proof (rule tripleI)
  fix w assume "stream_with r (\<lambda>y. y = x) w"
  then have x: "reactors w r = Some x" "plain_object (fdCount w) x" by (auto simp: stream_with_def)
  let ?c = "Send (sk_fd (dstSock x)) (contents (buf x))"
  let ?rc = "os E (hist w) ?c"
  have p: "sk_tls (dstSock x) = None" "sb_ok (buf x)" using x(2) by (auto simp: plain_object_def)
  note eq = tcpSend_eq[OF x(1) p(2), of E "dstSock x"]
  show "case sockSend E (dstSock x) r w of (Ret a, w') \<Rightarrow> stream_with r (\<lambda>y. streamState y = SS_SENDING) w'
      | (Throw e, w') \<Rightarrow> thrown r e w' | (Abort _, _) \<Rightarrow> False"
  proof (cases "c_rc ?rc < 0")
    case True
    then show ?thesis using x p assms(2)
      by (auto simp: sockSend_def eq Let_def stream_with_def thrown_def wanted_def)
  next
    case False
    with io_okD(3)[OF assms(1), of "hist w" "sk_fd (dstSock x)" "contents (buf x)"]
    have n: "0 \<le> c_rc ?rc" "c_rc ?rc \<le> int (length (contents (buf x)))" by simp_all
    let ?w = "w\<lparr>hist := hist w @ [(?c, ?rc)]\<rparr>"
    have "reactors ?w r = Some x" using x(1) by simp
    note un = unuse_run[OF this p(2) n]
    with False show ?thesis using x(1,2) p(1) assms(2)
      by (auto simp: sockSend_def eq Let_def run_seq run_basic stream_with_def plain_object_def)
  qed
qed

section \<open>Events\<close>

lemma triple_set_state:
  "(\<And>x. X x \<Longrightarrow> Y (x\<lparr>streamState := s\<rparr>)) \<Longrightarrow> triple (stream_with r X) (set_streamState r s) (\<lambda>_. stream_with r Y) R"
  unfolding set_streamState_def by (rule triple_mod) (simp add: plain_object_def)

lemma triple_rearm:
  "triple (stream_with r (\<lambda>x. wanted x = fd)) (Poller_add E r fd ev) (\<lambda>_. waits r) (thrown r)"
  by (rule triple_weaken[OF triple_add]) (simp_all add: ctl_failed_thrown)

lemma triple_sending:
  assumes "io_ok E"
  shows "triple (stream_with r (\<lambda>x. streamState x = SS_SENDING)) (StreamReactor_sending E r) (\<lambda>_. waits r) (thrown r)"
  unfolding StreamReactor_sending_def
proof (intro triple_get triple_bind[OF triple_send[OF assms]] triple_if)
  let ?S = "stream_with r (\<lambda>x. streamState x = SS_SENDING)"
  show "triple ?S (seqM (close_srcSock E r) (close_dstSock E r)) (\<lambda>_. waits r) (thrown r)"
    by (rule triple_seq[OF triple_close_src triple_weaken[OF triple_close_dst]]) (auto elim: stream_with_mono)
next
  fix x :: reactor assume s: "streamState x = SS_SENDING"
  show "triple (stream_with r (\<lambda>y. y = x)) (seqM (set_streamState r SS_RECEIVING)
      (Poller_add E r (sk_fd (srcSock x)) IN_EVENTS)) (\<lambda>_. waits r) (thrown r)"
    by (rule triple_seq[OF triple_set_state triple_rearm]) (simp add: wanted_def)
  show "triple (stream_with r (\<lambda>y. y = x)) (Poller_add E r (sk_fd (dstSock x)) OUT_EVENTS) (\<lambda>_. waits r) (thrown r)"
    by (rule triple_weaken[OF triple_rearm]) (use s in \<open>auto simp: wanted_def elim: stream_with_mono\<close>)
qed

lemma triple_receiving:
  assumes "io_ok E"
  shows "triple (stream_with r (\<lambda>x. streamState x = SS_RECEIVING)) (StreamReactor_receiving E r) (\<lambda>_. waits r) (thrown r)"
  unfolding StreamReactor_receiving_def
proof (intro triple_get triple_bind[OF triple_recv[OF assms]] triple_if)
  let ?S = "stream_with r (\<lambda>x. streamState x = SS_RECEIVING)"
  have send: "triple (stream_with r X) (seqM (set_streamState r SS_SENDING) (StreamReactor_sending E r)) (\<lambda>_. waits r) (thrown r)" for X
    by (rule triple_seq[OF triple_set_state triple_sending[OF assms]]) simp
  show "triple ?S (seqM (set_streamState r SS_SENDING) (StreamReactor_sending E r)) (\<lambda>_. waits r) (thrown r)"
    by (rule send)
  show "triple ?S (seqM (close_srcSock E r) (bindM (getR r) (\<lambda>x. if usedSize (buf x) = 0 then close_dstSock E r
      else seqM (set_streamState r SS_SENDING) (StreamReactor_sending E r)))) (\<lambda>_. waits r) (thrown r)"
    by (rule triple_seq[OF triple_close_src triple_get], rule triple_if)
      (auto intro: send triple_weaken[OF triple_close_dst] elim!: stream_with_mono)
qed assumption

lemma triple_process:
  assumes "io_ok E"
  shows "triple (plain_stream r) (StreamReactor_process E r) (\<lambda>_. waits r) (thrown r)"
  unfolding plain_stream_def StreamReactor_process_def
proof (rule triple_get)
  fix x :: reactor
  show "triple (stream_with r (\<lambda>y. y = x)) (case streamState x of SS_RECEIVING \<Rightarrow> StreamReactor_receiving E r
      | SS_SENDING \<Rightarrow> StreamReactor_sending E r) (\<lambda>_. waits r) (thrown r)"
    by (cases "streamState x")
      (auto intro!: triple_weaken[OF triple_receiving[OF assms]] triple_weaken[OF triple_sending[OF assms]] elim: stream_with_mono)
qed

lemma triple_event:
  assumes "io_ok E"
  shows "triple (plain_stream r) (Poller_runAs E r (StreamReactor_process E r)) (\<lambda>_. waits r)
     (\<lambda>e w. plain_stream r w \<and> ctl_failed e (hist w))"
  unfolding Poller_runAs_def
proof (rule triple_try[OF triple_process[OF assms]])
  fix e
  have "thrown r e w \<Longrightarrow> plain_stream r w" for w by (auto simp: thrown_def plain_stream_def elim: stream_with_mono)
  then show "triple (thrown r e) (case e of RescheduleException fd events \<Rightarrow> Poller_add E r fd events | _ \<Rightarrow> deactivate E r)
      (\<lambda>_. waits r) (\<lambda>e w. plain_stream r w \<and> ctl_failed e (hist w))"
    by (cases e) (auto simp: thrown_def intro!: triple_weaken[OF triple_add] triple_weaken[OF triple_deactivate]
        elim: stream_with_mono)
qed

lemma waits_plain: "waits r w \<Longrightarrow> plain_stream r w"
  by (auto simp: waits_def plain_stream_def elim: stream_with_mono)

lemma triple_pump:
  assumes "io_ok E"
  shows "triple (plain_stream r) (pump E r (Suc n)) (\<lambda>_. waits r) (\<lambda>e w. plain_stream r w \<and> ctl_failed e (hist w))"
proof (induction n)
  case 0
  have "triple (waits r) (ret ()) (\<lambda>_. waits r) R" for R by (simp add: triple_def run_basic)
  then show ?case by (simp, intro triple_seq[OF triple_event[OF assms]])
next
  case (Suc n)
  show ?case
    by (subst pump.simps(2), rule triple_seq[OF triple_weaken[OF triple_event[OF assms]] Suc]) (simp_all add: waits_plain)
qed

text \<open>
  C10: a relay never gets stuck. Between plain sockets that fit the poller's table, any number of
  events is handled without undefined behaviour. Unless an \<open>epoll_ctl\<close> call fails, which is the only
  exception that leaves \<open>runAs\<close>, the reactor is afterwards inactive, or the socket it needs next is
  closed, or the poller's table names the reactor for that socket, so that its next event arrives.
\<close>

theorem relay_never_stuck:
  assumes "io_ok E" and "plain_stream r w" and "pump E r (Suc n) w = (res, w')"
  shows "plain_stream r w' \<and> (res = Ret () \<and> waits r w' \<or> (\<exists>e. res = Throw e \<and> ctl_failed e (hist w')))"
  using tripleD[OF triple_pump[OF assms(1), of r n] assms(2)] assms(3)
  by (auto simp: waits_plain split: outcome.splits)

theorem relay_never_stuck_witness:
  "waits 0 (snd (pump (scenario [delivers [1, 2, 3], returns 2, returns 0]) 0 (Suc 0) stream_world))"
proof -
  let ?E = "scenario [delivers [1, 2, 3], returns 2, returns 0]"
  have "plain_stream 0 stream_world"
    by (simp add: plain_stream_def stream_with_def plain_object_def stream_class_def stream_world_def
        stream_reactor_def new_reactor_def empty_world_def no_socket_def)
  moreover have "fst (pump ?E 0 (Suc 0) stream_world) = Ret ()"
    by (simp add: run_simps stream_simps buffer_simps scenario_simps)
  moreover obtain res w' where "pump ?E 0 (Suc 0) stream_world = (res, w')" by fastforce
  ultimately show ?thesis using relay_never_stuck[OF scenario_io_ok] by fastforce
qed

section \<open>Draining\<close>

text \<open>
  What the surroundings must do for the buffer to empty: a write of something accepts something,
  and \<open>epoll_ctl\<close> works.
\<close>

definition sends_progress :: "env \<Rightarrow> bool" where
  "sends_progress E \<longleftrightarrow> (\<forall>h fd xs. 0 \<le> fd \<and> xs \<noteq> [] \<longrightarrow> 0 < c_rc (os E h (Send fd xs))) \<and>
     (\<forall>h op fd ev. 0 \<le> c_rc (os E h (EpollCtl op fd ev)))"

definition sending :: "rid \<Rightarrow> reactor \<Rightarrow> world \<Rightarrow> bool" where
  "sending r x w \<longleftrightarrow> reactors w r = Some x \<and> plain_object (fdCount w) x \<and> active x \<and>
     0 \<le> sk_fd (dstSock x) \<and> (streamState x = SS_SENDING \<longleftrightarrow> contents (buf x) \<noteq> [])"

lemma rearm_run:
  assumes "reactors w r = Some x" "active x" "fd < int (fdCount w)" "sends_progress E"
  shows "\<exists>h f. Poller_add E r fd ev w = (Ret (), w\<lparr>hist := hist w @ h, fdEntries := f\<rparr>) \<and> data_free h"
proof (cases "fd < 0")
  case True
  have "w = w\<lparr>hist := hist w @ [], fdEntries := fdEntries w\<rparr>" by simp
  with True assms(1) show ?thesis by (intro exI[of _ "[]"] exI[of _ "fdEntries w"]) (simp add: Poller_add_eq)
next
  case False
  have "0 \<le> c_rc (os E h (EpollCtl op fd ev))" for h op fd ev using assms(4) by (simp add: sends_progress_def)
  with False assms(1-3) show ?thesis by (auto simp: Poller_add_eq[OF assms(1)] Let_def not_less[symmetric])
qed

lemma data_Cons: "data_in s (e # h) = in_of s e @ data_in s h" "data_out d (e # h) = out_of d e @ data_out d h"
  by (simp_all add: data_in_def data_out_def)

lemma send_step:
  assumes "io_ok E" "sends_progress E" "sending r x w" "contents (buf x) \<noteq> []"
  obtains w' x' k where "Poller_runAs E r (StreamReactor_process E r) w = (Ret (), w')" "sending r x' w'"
    "dstSock x' = dstSock x" "0 < k" "contents (buf x') = drop k (contents (buf x))" "hist_grows w w'"
    "data_out (dstSock x) (new_calls w w') = take k (contents (buf x))" "data_in (srcSock x) (new_calls w w') = []"
    "srcSock x' = srcSock x"
proof -
  have x: "reactors w r = Some x" "sb_ok (buf x)" "active x" "sk_tls (dstSock x) = None" "streamState x = SS_SENDING"
    "sk_fd (srcSock x) < int (fdCount w)" "sk_fd (dstSock x) < int (fdCount w)" "0 \<le> sk_fd (dstSock x)"
    using assms(3,4) by (auto simp: sending_def plain_object_def)
  let ?c = "Send (sk_fd (dstSock x)) (contents (buf x))"
  let ?rc = "os E (hist w) ?c" and ?k = "nat (c_rc (os E (hist w) ?c))"
  have rc: "0 < c_rc ?rc" using assms(2,4) x(8) by (simp add: sends_progress_def)
  then have n: "0 \<le> c_rc ?rc" "c_rc ?rc \<le> int (length (contents (buf x)))"
    using io_okD(3)[OF assms(1), of "hist w" "sk_fd (dstSock x)" "contents (buf x)"] by auto
  let ?w = "w\<lparr>hist := hist w @ [(?c, ?rc)]\<rparr>" and ?b = "leave_bytes ?k (buf x)"
  have x1: "reactors ?w r = Some x" using x(1) by simp
  note un = unuse_run[OF x1 x(2) n]
  define y where "y = (if contents ?b = [] then x\<lparr>buf := ?b, streamState := SS_RECEIVING\<rparr> else x\<lparr>buf := ?b\<rparr>)"
  let ?v = "?w\<lparr>reactors := (reactors w)(r \<mapsto> y)\<rparr>"
  have y: "active y" "dstSock y = dstSock x" "srcSock y = srcSock x" "contents (buf y) = drop ?k (contents (buf x))"
    using x(3) un(3) by (simp_all add: y_def)
  have yv: "reactors ?v r = Some y" by simp
  have fits: "wanted y < int (fdCount ?v)" using x(6,7) y(2,3) by (simp add: wanted_def split: StreamState.split)
  obtain h f where add: "Poller_add E r (wanted y) (if contents ?b = [] then IN_EVENTS else OUT_EVENTS) ?v =
      (Ret (), ?v\<lparr>hist := hist ?v @ h, fdEntries := f\<rparr>)" "data_free h"
    using rearm_run[OF yv y(1) _ assms(2), of "wanted y"] fits by blast
  have "tcpSend E (dstSock x) r w = (Ret (c_rc ?rc), ?w\<lparr>reactors := (reactors w)(r \<mapsto> x\<lparr>buf := ?b\<rparr>)\<rparr>)"
    using un(1) rc by (simp add: tcpSend_eq[OF x(1,2)] Let_def run_seq run_basic)
  then have "StreamReactor_sending E r w = (Ret (), ?v\<lparr>hist := hist ?v @ h, fdEntries := f\<rparr>)"
    using x(1,4,5) rc add(1)
    by (cases "contents ?b = []")
      (simp_all add: StreamReactor_sending_def sockSend_def bindM_def seqM_def set_streamState_def run_getR run_modR
        usedSize_0_iff y_def wanted_def)
  then have run: "Poller_runAs E r (StreamReactor_process E r) w = (Ret (), ?v\<lparr>hist := hist ?v @ h, fdEntries := f\<rparr>)"
    using x(1,5) by (simp add: Poller_runAs_def StreamReactor_process_def run_bind run_getR run_try)
  show thesis
  proof (rule that[OF run, of y ?k])
    show "sending r y (?v\<lparr>hist := hist ?v @ h, fdEntries := f\<rparr>)"
      using assms(3) un(2) x(5) by (auto simp: sending_def plain_object_def y_def)
    show "data_out (dstSock x) (new_calls w (?v\<lparr>hist := hist ?v @ h, fdEntries := f\<rparr>)) = take ?k (contents (buf x))"
      using x(4) data_free_no_data[OF add(2)] by (simp add: new_calls_def in_of_call data_Cons)
  qed (use y rc data_free_no_data[OF add(2)] in \<open>auto simp: hist_grows_def new_calls_def in_of_call data_Cons\<close>)
qed

text \<open>
  C11: a relay delivers. If writes accept something and \<open>epoll_ctl\<close> works, a sending relay has handed
  everything in its buffer to its destination, in order, after at most as many events as it holds
  bytes; it then waits for more input.
\<close>

theorem relay_drains:
  assumes "io_ok E" and "sends_progress E" and "sending r x w"
  shows "\<exists>n w' x'. n \<le> length (contents (buf x)) \<and> pump E r n w = (Ret (), w') \<and> sending r x' w' \<and>
    contents (buf x') = [] \<and> streamState x' = SS_RECEIVING \<and>
    data_out (dstSock x) (new_calls w w') = contents (buf x)"
  using assms(3)
proof (induction "length (contents (buf x))" arbitrary: x w rule: less_induct)
  case less
  show ?case
  proof (cases "contents (buf x) = []")
    case True
    then have "streamState x = SS_RECEIVING" using less.prems by (cases "streamState x") (auto simp: sending_def)
    with True less.prems show ?thesis
      by (intro exI[of _ 0] exI[of _ w] exI[of _ x]) (simp add: run_basic new_calls_def)
  next
    case False
    obtain v y k where y: "Poller_runAs E r (StreamReactor_process E r) w = (Ret (), v)" "sending r y v"
      "dstSock y = dstSock x" "0 < k" "contents (buf y) = drop k (contents (buf x))" "hist_grows w v"
      "data_out (dstSock x) (new_calls w v) = take k (contents (buf x))"
      by (rule send_step[OF assms(1,2) less.prems False])
    have "length (contents (buf y)) < length (contents (buf x))" using y(4,5) False by simp
    from less.hyps[OF this y(2)] obtain n w' x' where n: "n \<le> length (contents (buf y))" "pump E r n v = (Ret (), w')"
      "sending r x' w'" "contents (buf x') = []" "streamState x' = SS_RECEIVING"
      "data_out (dstSock y) (new_calls v w') = contents (buf y)" by blast
    have "hist_grows v w'"
      using keepsD[OF relayed_pump[OF assms(1), of r n], of v] n(2) by (simp add: relayed_def)
    then have "data_out (dstSock x) (new_calls w w') = contents (buf x)"
      using y(3,5,7) n(6) new_calls_trans[OF y(6), of w'] by simp
    moreover have "pump E r (Suc n) w = (Ret (), w')" using y(1) n(2) by (simp add: run_seq)
    moreover have "Suc n \<le> length (contents (buf x))" using n(1)[unfolded y(5) length_drop] y(4) False by (cases "contents (buf x)") auto
    ultimately show ?thesis using n by blast
  qed
qed

text \<open>Surroundings in which writes accept two bytes at most.\<close>

definition two_at_a_time :: env where
  "two_at_a_time = (scenario [])\<lparr>os := \<lambda>h c. case c of
     Send fd xs \<Rightarrow> if 0 \<le> fd then returns (int (min (length xs) (Suc (Suc 0)))) else failed EBADF
   | EpollCtl _ _ _ \<Rightarrow> returns 0 | _ \<Rightarrow> failed EAGAIN\<rparr>"

definition loaded_reactor :: reactor where
  "loaded_reactor = stream_reactor\<lparr>buf := store [1, 2, 3] new_buffer, streamState := SS_SENDING\<rparr>"

theorem relay_drains_witness:
  "\<exists>n w'. n \<le> 3 \<and> pump two_at_a_time 0 n (stream_world\<lparr>reactors := [0 \<mapsto> loaded_reactor]\<rparr>) = (Ret (), w') \<and>
     data_out \<lparr>sk_fd = 6, sk_tls = None\<rparr> (hist w') = [1, 2, 3]"
proof -
  have "length [1, 2, 3 :: byte] \<le> unat (availSize new_buffer)"
    by (simp add: availSize_def new_buffer_def BUF_SIZE_def)
  note b = store_ok[OF _ this]
  have "io_ok two_at_a_time" "sends_progress two_at_a_time"
    by (auto simp: io_ok_def sends_progress_def two_at_a_time_def recv_ok_def send_ok_def returns_def failed_def
        split: call.split)
  moreover have "sending 0 loaded_reactor (stream_world\<lparr>reactors := [0 \<mapsto> loaded_reactor]\<rparr>)"
    using b by (simp add: sending_def plain_object_def stream_class_def loaded_reactor_def stream_reactor_def
        stream_world_def empty_world_def new_reactor_def no_socket_def)
  moreover have "hist (stream_world\<lparr>reactors := [0 \<mapsto> loaded_reactor]\<rparr>) = []" by (simp add: stream_world_def empty_world_def)
  moreover have "contents (buf loaded_reactor) = [1, 2, 3]" "dstSock loaded_reactor = \<lparr>sk_fd = 6, sk_tls = None\<rparr>"
    using b by (simp_all add: loaded_reactor_def stream_reactor_def)
  moreover from calculation(1-3) obtain n w' where "n \<le> length (contents (buf loaded_reactor))"
    "pump two_at_a_time 0 n (stream_world\<lparr>reactors := [0 \<mapsto> loaded_reactor]\<rparr>) = (Ret (), w')"
    "data_out (dstSock loaded_reactor) (new_calls (stream_world\<lparr>reactors := [0 \<mapsto> loaded_reactor]\<rparr>) w') =
      contents (buf loaded_reactor)"
    using relay_drains by blast
  ultimately show ?thesis by (intro exI[of _ n] exI[of _ w']) (simp add: new_calls_def)
qed

end
