(* ===== verification/Replies.thy ===== *)
theory Replies
  imports Relay Scenario
begin

text \<open>
  How the proxy answers a client that was let in (\<^verbatim>\<open>proxy/proxyupstreamer.cc\<close>,
  \<^verbatim>\<open>proxy/simpleproxydownstreamer.cc\<close>): requests that need no connection are answered at once by a
  relay of its own that holds nothing but the packed reply and writes it to a duplicate of the
  client's descriptor.
\<close>

section \<open>Queueing a reply\<close>

definition answer :: "env \<Rightarrow> rid \<Rightarrow> opcode \<Rightarrow> unit M" where
  "answer E r c = seqM (set_reply_code r c) (assign_simple E r)"

text \<open>
  What an answer needs: the reply can be packed, the client's descriptor can be duplicated and the
  duplicate fits the poller's table, and \<open>epoll_ctl\<close> works.
\<close>

definition can_answer :: "env \<Rightarrow> int \<Rightarrow> nat \<Rightarrow> opreply \<Rightarrow> byte list \<Rightarrow> bool" where
  "can_answer E fd n rep bytes \<longleftrightarrow> packOpReply E rep (unat BUF_SIZE) = Inr bytes \<and> bytes \<noteq> [] \<and>
     length bytes \<le> unat BUF_SIZE \<and>
     (\<forall>h. 0 \<le> c_rc (os E h (DupFD fd)) \<and> c_rc (os E h (DupFD fd)) < int n) \<and>
     (\<forall>h op f ev. 0 \<le> c_rc (os E h (EpollCtl op f ev)))"

text \<open>
  \<open>queued\<close>: a new relay \<open>s\<close> holds the bytes, is about to send them to the duplicate \<open>fd\<close>, and is
  registered for it; besides, only calls that open no connection were made.
\<close>

definition queued :: "rid \<Rightarrow> byte list \<Rightarrow> int \<Rightarrow> world \<Rightarrow> bool" where
  "queued s bytes fd w \<longleftrightarrow> (\<exists>y. reactors w s = Some y \<and> active y \<and> contents (buf y) = bytes \<and>
     streamState y = SS_SENDING \<and> dstSock y = \<lparr>sk_fd = fd, sk_tls = None\<rparr> \<and>
     srcSock y = no_socket \<and> fe_reactor (fdEntries w (nat fd)) = Some s)"

lemma new_buffer_room: "unat (availSize new_buffer) = unat BUF_SIZE" "sb_ok new_buffer" "contents new_buffer = []"
  by (simp_all add: availSize_def new_buffer_def sb_ok_def contents_def usedSize_def BUF_SIZE_def)

lemma pack_run:
  assumes "reactors w s = Some (new_reactor c)" "pack (unat BUF_SIZE) = Inr bytes" "length bytes \<le> unat BUF_SIZE"
  shows "pack_into s pack w =
    (Ret (), w\<lparr>reactors := (reactors w)(s \<mapsto> (new_reactor c)\<lparr>buf := store bytes new_buffer\<rparr>)\<rparr>)"
proof -
  have b: "buf (new_reactor c) = new_buffer" by (simp add: new_reactor_def)
  with assms show ?thesis
    using buf_receive_run[of w s "new_reactor c" bytes] new_buffer_room
    by (simp add: pack_into_def bindM_def run_getR b)
qed

lemma dup_run:
  assumes "reactors w s = Some y" "dstSock y = no_socket" "reactors w r = Some x" "sk_tls (srcSock x) = None"
    and "0 \<le> c_rc (os E (hist w) (DupFD (sk_fd (srcSock x))))"
  shows "dup_dstSock E s r w = (let c = DupFD (sk_fd (srcSock x)); rc = os E (hist w) c in
    (Ret (), w\<lparr>hist := hist w @ [(c, rc)],
      reactors := (reactors w)(s \<mapsto> y\<lparr>dstSock := \<lparr>sk_fd = c_rc rc, sk_tls = None\<rparr>\<rparr>)\<rparr>))"
  using assms
  by (simp add: dup_dstSock_def duplicate_for_write_def UniqFD_assign_def no_socket_def bindM_def seqM_def run_getR
      run_modR run_extcall run_basic run_guards Let_def)

lemma simple_run:
  assumes "reactors w r = Some x" "r < nextRid w" "sk_tls (srcSock x) = None"
    and "can_answer E (sk_fd (srcSock x)) n rep bytes"
  shows "\<exists>rc. SimpleProxyDownstreamer_new E r rep w = (Ret (nextRid w),
      w\<lparr>hist := hist w @ [(DupFD (sk_fd (srcSock x)), rc)], nextRid := Suc (nextRid w),
        reactors := (reactors w)(nextRid w \<mapsto> (new_reactor CSimpleProxyDownstreamer)
          \<lparr>buf := store bytes new_buffer, dstSock := \<lparr>sk_fd = c_rc rc, sk_tls = None\<rparr>\<rparr>)\<rparr>) \<and>
    0 \<le> c_rc rc \<and> c_rc rc < int n"
proof -
  let ?s = "nextRid w" and ?y = "new_reactor CSimpleProxyDownstreamer"
  let ?w1 = "w\<lparr>reactors := (reactors w)(?s \<mapsto> ?y), nextRid := Suc ?s\<rparr>"
  let ?w2 = "?w1\<lparr>reactors := (reactors ?w1)(?s \<mapsto> ?y\<lparr>buf := store bytes new_buffer\<rparr>)\<rparr>"
  have p: "pack_into ?s (packOpReply E rep) ?w1 = (Ret (), ?w2)"
    using assms(4) by (intro pack_run) (simp_all add: can_answer_def)
  have d: "dup_dstSock E ?s r ?w2 = (let c = DupFD (sk_fd (srcSock x)); rc = os E (hist ?w2) c in
    (Ret (), ?w2\<lparr>hist := hist ?w2 @ [(c, rc)],
      reactors := (reactors ?w2)(?s \<mapsto> ?y\<lparr>buf := store bytes new_buffer, dstSock := \<lparr>sk_fd = c_rc rc, sk_tls = None\<rparr>\<rparr>)\<rparr>))"
    using assms by (intro dup_run) (auto simp: new_reactor_def can_answer_def)
  have n: "newR ?y w = (Ret ?s, ?w1)" by (simp add: newR_def)
  show ?thesis
    unfolding SimpleProxyDownstreamer_new_def run_bind(1)[of "newR ?y", OF n]
    using p d assms(4)
    by (intro exI[of _ "os E (hist w) (DupFD (sk_fd (srcSock x)))"])
      (simp add: construct_def tryM_def seqM_def bindM_def run_basic Let_def can_answer_def)
qed

lemma answer_run:
  assumes "reactors w r = Some x" "r < nextRid w" "cls x = CProxyUpstreamer d" "sk_tls (srcSock x) = None"
    and "can_answer E (sk_fd (srcSock x)) (fdCount w) ((pu_reply d)\<lparr>or_code := c\<rparr>) bytes"
  obtains w' fd op where "answer E r c w = (Ret (), w')" "queued (nextRid w) bytes fd w'"
    "map fst (hist w') = map fst (hist w) @ [DupFD (sk_fd (srcSock x)), EpollCtl op fd (OUT_EVENTS OR EPOLLONESHOT)]"
    "reactors w' r = Some (x\<lparr>cls := CProxyUpstreamer (d\<lparr>pu_reply := (pu_reply d)\<lparr>or_code := c\<rparr>\<rparr>)\<rparr>)"
proof -
  let ?d = "d\<lparr>pu_reply := (pu_reply d)\<lparr>or_code := c\<rparr>\<rparr>"
  let ?x = "x\<lparr>cls := CProxyUpstreamer ?d\<rparr>"
  let ?w1 = "w\<lparr>reactors := (reactors w)(r \<mapsto> ?x)\<rparr>"
  have w1: "set_reply_code r c w = (Ret (), ?w1)"
    using assms(1,3) by (simp add: set_reply_code_def modPU_def run_modR)
  have g: "getPU r ?w1 = (Ret ?d, ?w1)" by (simp add: getPU_def bindM_def run_getR run_basic)
  let ?b = "store bytes new_buffer"
  obtain rc where s: "SimpleProxyDownstreamer_new E r (pu_reply ?d) ?w1 = (Ret (nextRid w),
      ?w1\<lparr>hist := hist w @ [(DupFD (sk_fd (srcSock x)), rc)], nextRid := Suc (nextRid w),
        reactors := (reactors ?w1)(nextRid w \<mapsto> (new_reactor CSimpleProxyDownstreamer)
          \<lparr>buf := ?b, dstSock := \<lparr>sk_fd = c_rc rc, sk_tls = None\<rparr>\<rparr>)\<rparr>)"
    and rc: "0 \<le> c_rc rc" "c_rc rc < int (fdCount w)"
    using simple_run[of ?w1 r ?x E "fdCount w" "pu_reply ?d" bytes] assms by auto
  let ?y = "(new_reactor CSimpleProxyDownstreamer)\<lparr>buf := ?b, dstSock := \<lparr>sk_fd = c_rc rc, sk_tls = None\<rparr>,
      streamState := SS_SENDING\<rparr>"
  let ?w3 = "?w1\<lparr>hist := hist w @ [(DupFD (sk_fd (srcSock x)), rc)], nextRid := Suc (nextRid w),
        reactors := (reactors ?w1)(nextRid w \<mapsto> ?y)\<rparr>"
  have "length bytes \<le> unat (availSize new_buffer)" using assms(5) new_buffer_room by (simp add: can_answer_def)
  note b = store_ok[OF new_buffer_room(2) this]
  have u: "usedSize ?b \<noteq> 0" using b(2) assms(5) new_buffer_room(3) by (simp add: usedSize_0_iff can_answer_def)
  let ?c = "EpollCtl (if fe_registered (fdEntries w (nat (c_rc rc))) then EPOLL_CTL_MOD else EPOLL_CTL_ADD)
      (c_rc rc) (OUT_EVENTS OR EPOLLONESHOT)"
  let ?w4 = "?w3\<lparr>hist := hist ?w3 @ [(?c, os E (hist ?w3) ?c)],
      fdEntries := (fdEntries w)(nat (c_rc rc) := \<lparr>fe_reactor = Some (nextRid w), fe_registered = True\<rparr>)\<rparr>"
  have e: "0 \<le> c_rc (os E h (EpollCtl op f ev))" for h op f ev using assms(5) by (simp add: can_answer_def)
  have "active ?y" "reactors ?w3 (nextRid w) = Some ?y" by (simp_all add: new_reactor_def)
  then have a: "Poller_add E (nextRid w) (c_rc rc) OUT_EVENTS ?w3 = (Ret (), ?w4)"
    using Poller_add_eq[of ?w3 "nextRid w" ?y E "c_rc rc" OUT_EVENTS] rc e
    by (simp add: Let_def not_less[symmetric])
  have "answer E r c w = (Ret (), ?w4)"
    unfolding answer_def assign_simple_def
    using s g w1 a u
    by (simp add: bindM_def seqM_def Poller_assign_def Poller_runAs_def StreamReactor_start_def run_getR run_modR
        set_streamState_def tryM_def word_neq_0_conv)
  moreover have "queued (nextRid w) bytes (c_rc rc) ?w4"
    using b(2) new_buffer_room(3) by (simp add: queued_def new_reactor_def)
  moreover have "map fst (hist ?w4) = map fst (hist w) @ [DupFD (sk_fd (srcSock x)), ?c]" by simp
  moreover have "reactors ?w4 r = Some ?x" using assms(2) by simp
  ultimately show thesis by (rule that)
qed

section \<open>Requests that need no connection\<close>

definition verdict :: "request \<Rightarrow> opcode option" where
  "verdict rq = (case rq_address rq of Domain _ \<Rightarrow> Some SOCKS6_OPERATION_REPLY_ADDR_NOT_SUPPORTED
     | _ \<Rightarrow> (case rq_code rq of SOCKS6_REQUEST_CONNECT \<Rightarrow> None
         | SOCKS6_REQUEST_NOOP \<Rightarrow> Some SOCKS6_OPERATION_REPLY_SUCCESS
         | SOCKS6_REQUEST_OTHER _ \<Rightarrow> Some SOCKS6_OPERATION_REPLY_CMD_NOT_SUPPORTED))"

lemma run_upstreamer:
  assumes "reactors w r = Some x" "cls x = CProxyUpstreamer d" "pu_request d = Some rq"
  shows "getPU r w = (Ret d, w)" "the_request d w = (Ret rq, w)"
    "modPU r f w = (Ret (), w\<lparr>reactors := (reactors w)(r \<mapsto> x\<lparr>cls := CProxyUpstreamer (f d)\<rparr>)\<rparr>)"
  using assms by (simp_all add: getPU_def the_request_def modPU_def bindM_def run_getR run_modR run_basic)

lemma authDone_eq:
  assumes "reactors w r = Some x" "cls x = CProxyUpstreamer d" "pu_request d = Some rq"
  shows "authDone E r w = (case rq_address rq of
     Domain _ \<Rightarrow> answer E r SOCKS6_OPERATION_REPLY_ADDR_NOT_SUPPORTED w
   | _ \<Rightarrow> tryM (case rq_code rq of SOCKS6_REQUEST_CONNECT \<Rightarrow> honorConnect E r
        | SOCKS6_REQUEST_NOOP \<Rightarrow> answer E r SOCKS6_OPERATION_REPLY_SUCCESS
        | _ \<Rightarrow> answer E r SOCKS6_OPERATION_REPLY_CMD_NOT_SUPPORTED)
      (\<lambda>_. answer E r SOCKS6_OPERATION_REPLY_FAILURE)
      (w\<lparr>reactors := (reactors w)(r \<mapsto> x\<lparr>cls := CProxyUpstreamer (d\<lparr>pu_addr := Some (fixup E rq)\<rparr>)\<rparr>)\<rparr>))"
proof -
  let ?d = "d\<lparr>pu_addr := Some (fixup E rq)\<rparr>"
  let ?w = "w\<lparr>reactors := (reactors w)(r \<mapsto> x\<lparr>cls := CProxyUpstreamer ?d\<rparr>)\<rparr>"
  have "reactors ?w r = Some (x\<lparr>cls := CProxyUpstreamer ?d\<rparr>)" by simp
  from run_upstreamer(1,2)[OF this, of ?d rq] assms(3)
  have h: "getPU r ?w = (Ret ?d, ?w)" "the_request ?d ?w = (Ret rq, ?w)" by simp_all
  have "honorRequest E r ?w = tryM (case rq_code rq of SOCKS6_REQUEST_CONNECT \<Rightarrow> honorConnect E r
        | SOCKS6_REQUEST_NOOP \<Rightarrow> answer E r SOCKS6_OPERATION_REPLY_SUCCESS
        | _ \<Rightarrow> answer E r SOCKS6_OPERATION_REPLY_CMD_NOT_SUPPORTED)
      (\<lambda>_. answer E r SOCKS6_OPERATION_REPLY_FAILURE) ?w"
    using h by (simp add: honorRequest_def answer_def tryM_def bindM_def[of "getPU r"] bindM_def[of "the_request e" for e]
        split: reqcode.split)
  then show ?thesis
    using run_upstreamer[OF assms]
    by (simp add: authDone_def addrFixupAndHonorRequest_def answer_def bindM_def[of "getPU r"] bindM_def[of "the_request d"]
        seqM_def[of "modPU r f" for f] bindM_def[of "modPU r f" for f] split: address.split)
qed

text \<open>
  C30: requests that need no connection. For a client that was let in, a request for a domain name is
  answered with ADDR_NOT_SUPPORTED, a NOOP with SUCCESS and any other request except CONNECT with
  CMD_NOT_SUPPORTED. The packed reply waits in a relay of its own that is registered for writing to
  a duplicate of the client's descriptor; no other call is made, so no connection is opened.
\<close>

theorem simple_request_answered:
  assumes "reactors w r = Some x" and "r < nextRid w" and "cls x = CProxyUpstreamer d"
    and "pu_request d = Some rq" and "verdict rq = Some c" and "sk_tls (srcSock x) = None"
    and "can_answer E (sk_fd (srcSock x)) (fdCount w) ((pu_reply d)\<lparr>or_code := c\<rparr>) bytes"
  shows "\<exists>w' fd op. authDone E r w = (Ret (), w') \<and> queued (nextRid w) bytes fd w' \<and>
    map fst (hist w') = map fst (hist w) @ [DupFD (sk_fd (srcSock x)), EpollCtl op fd (OUT_EVENTS OR EPOLLONESHOT)]"
proof (cases "\<exists>name. rq_address rq = Domain name")
  case True
  then have "c = SOCKS6_OPERATION_REPLY_ADDR_NOT_SUPPORTED" using assms(5) by (auto simp: verdict_def)
  with True have "authDone E r w = answer E r c w" by (auto simp: authDone_eq[OF assms(1,3,4)])
  then show ?thesis using answer_run[OF assms(1-3,6,7)] by metis
next
  case False
  let ?x = "x\<lparr>cls := CProxyUpstreamer (d\<lparr>pu_addr := Some (fixup E rq)\<rparr>)\<rparr>"
  let ?w = "w\<lparr>reactors := (reactors w)(r \<mapsto> ?x)\<rparr>"
  have "authDone E r w = tryM (answer E r c) (\<lambda>_. answer E r SOCKS6_OPERATION_REPLY_FAILURE) ?w"
    using False assms(5) by (auto simp: authDone_eq[OF assms(1,3,4)] verdict_def split: address.splits reqcode.splits)
  moreover obtain w' fd op where "answer E r c ?w = (Ret (), w')" "queued (nextRid ?w) bytes fd w'"
    "map fst (hist w') = map fst (hist ?w) @ [DupFD (sk_fd (srcSock ?x)), EpollCtl op fd (OUT_EVENTS OR EPOLLONESHOT)]"
    by (rule answer_run[of ?w r ?x "d\<lparr>pu_addr := Some (fixup E rq)\<rparr>" E c bytes]) (use assms in simp_all)
  ultimately show ?thesis by (simp add: run_try)
qed

text \<open>Surroundings that duplicate descriptors to 8 and accept registrations; nothing has arrived yet.\<close>

definition answering :: env where
  "answering = (scenario [])\<lparr>os := \<lambda>h c. case c of DupFD _ \<Rightarrow> returns 8 | EpollCtl _ _ _ \<Rightarrow> returns 0
     | SocketFD _ \<Rightarrow> returns 9 | _ \<Rightarrow> failed EAGAIN\<rparr>"

definition asked_world :: "request \<Rightarrow> world" where
  "asked_world rq = (proxy_world scenario_proxy)\<lparr>reactors := [1 \<mapsto> scenario_upstreamer
     \<lparr>cls := CProxyUpstreamer (scenario_up\<lparr>pu_request := Some rq\<rparr>)\<rparr>]\<rparr>"

lemma answering_can_answer:
  "can_answer answering 7 (fdCount (asked_world rq)) rep [if or_code rep = SOCKS6_OPERATION_REPLY_SUCCESS then 0 else 1]"
  by (simp add: can_answer_def answering_def returns_def asked_world_def BUF_SIZE_def scenario_def)

theorem simple_request_answered_witness:
  "\<exists>w' fd. authDone answering 1 (asked_world (scenario_request\<lparr>rq_code := SOCKS6_REQUEST_NOOP\<rparr>)) = (Ret (), w') \<and>
     queued 2 [0] fd w'"
proof -
  let ?rq = "scenario_request\<lparr>rq_code := SOCKS6_REQUEST_NOOP\<rparr>"
  have "verdict ?rq = Some SOCKS6_OPERATION_REPLY_SUCCESS" by (simp add: verdict_def scenario_request_def)
  moreover have "can_answer answering (sk_fd (srcSock scenario_upstreamer)) (fdCount (asked_world ?rq))
      ((pu_reply (scenario_up\<lparr>pu_request := Some ?rq\<rparr>))\<lparr>or_code := SOCKS6_OPERATION_REPLY_SUCCESS\<rparr>) [0]"
    using answering_can_answer[of ?rq "(pu_reply scenario_up)\<lparr>or_code := SOCKS6_OPERATION_REPLY_SUCCESS\<rparr>"] by simp
  ultimately have "\<exists>w' fd op. authDone answering 1 (asked_world ?rq) = (Ret (), w') \<and>
      queued (nextRid (asked_world ?rq)) [0] fd w' \<and>
      map fst (hist w') = map fst (hist (asked_world ?rq)) @ [DupFD 7, EpollCtl op fd (OUT_EVENTS OR EPOLLONESHOT)]"
    using simple_request_answered[of "asked_world ?rq" 1 "scenario_upstreamer
        \<lparr>cls := CProxyUpstreamer (scenario_up\<lparr>pu_request := Some ?rq\<rparr>)\<rparr>" "scenario_up\<lparr>pu_request := Some ?rq\<rparr>" ?rq
        SOCKS6_OPERATION_REPLY_SUCCESS answering "[0]"]
    by (simp add: asked_world_def)
  then show ?thesis by (auto simp: asked_world_def)
qed

section \<open>Waiting for the payload of a connection attempt\<close>

text \<open>
  C37: a client that asks for a connection with TCP Fast Open payload, and whose payload has not
  arrived yet, is refused. The read that finds nothing throws a RescheduleException to have the
  request resumed; the handler around \<open>honorConnect\<close> catches it like every other exception and
  queues a FAILURE reply.
\<close>

theorem late_payload_refused:
  assumes "reactors w r = Some x" and "r < nextRid w" and "cls x = CProxyUpstreamer d" and "pu_request d = Some rq"
    and "rq_code rq = SOCKS6_REQUEST_CONNECT" and "verdict rq = None" and "rq_tfo rq = Some n" and "n \<noteq> 0"
    and "sk_tls (srcSock x) = None" and "sk_fd (dstSock x) = -1" and "sb_ok (buf x)" and "contents (buf x) = []"
    and "\<forall>h fam. 0 \<le> c_rc (os E h (SocketFD fam))"
    and "\<forall>h k. c_rc (os E h (Recv (sk_fd (srcSock x)) k)) < 0 \<and> c_errno (os E h (Recv (sk_fd (srcSock x)) k)) = EAGAIN"
    and "can_answer E (sk_fd (srcSock x)) (fdCount w) ((pu_reply d)\<lparr>or_code := SOCKS6_OPERATION_REPLY_FAILURE\<rparr>) bytes"
  shows "\<exists>w' fd. authDone E r w = (Ret (), w') \<and> queued (nextRid w) bytes fd w'"
proof -
  let ?d = "d\<lparr>pu_addr := Some (fixup E rq)\<rparr>"
  let ?w = "w\<lparr>reactors := (reactors w)(r \<mapsto> x\<lparr>cls := CProxyUpstreamer ?d\<rparr>)\<rparr>"
  let ?e = "?d\<lparr>pu_tfoPayload := min (ucast n) MSS, pu_state := PU_READING_TFO_PAYLOAD\<rparr>"
  let ?c = "SocketFD (saFamily E (sockAddr ?d))"
  define rc where "rc = os E (hist w) ?c"
  let ?y = "x\<lparr>dstSock := (dstSock x)\<lparr>sk_fd := c_rc rc\<rparr>, cls := CProxyUpstreamer ?e\<rparr>"
  let ?u = "w\<lparr>hist := hist w @ [(?c, rc)], reactors := (reactors w)(r \<mapsto> ?y)\<rparr>"
  let ?q = "Recv (sk_fd (srcSock x)) (unat (availSize (buf x)))"
  let ?v = "?u\<lparr>hist := hist ?u @ [(?q, os E (hist ?u) ?q)]\<rparr>"
  have "(ucast (ucast n :: size_t) :: u16) = n" by (rule bit_word_eqI) (simp add: bit_ucast_iff)
  then have "(ucast n :: size_t) \<noteq> 0" using assms(8) by auto
  then have tfo: "usedSize (buf x) < min (ucast n) MSS"
    using assms(12) by (simp add: usedSize_0_iff[symmetric] MSS_def word_neq_0_conv)
  have rc: "0 \<le> c_rc rc" using assms(13) by (simp add: rc_def)
  have read: "ProxyUpstreamer_readTFO E r ?u = (Throw (RescheduleException (sk_fd (srcSock x)) IN_EVENTS), ?v)"
    using tfo assms(9,14)
    by (simp add: ProxyUpstreamer_readTFO_def getPU_def bindM_def run_getR run_basic sockRecv_def tcpRecv_def run_extcall)
  have "honorConnect E r ?w = ProxyUpstreamer_tfo E r ?u"
    using rc assms(4,7,10)
    by (simp add: honorConnect_def getPU_def the_request_def honorConnectStackOptions_def modPU_def set_pu_state_def
        UniqFD_assign_def bindM_def seqM_def run_getR run_modR run_extcall run_basic run_guards flip: rc_def)
  then have "honorConnect E r ?w = (Throw (RescheduleException (sk_fd (srcSock x)) IN_EVENTS), ?v)"
    using read by (simp add: ProxyUpstreamer_tfo_def run_bind)
  then have "authDone E r w = answer E r SOCKS6_OPERATION_REPLY_FAILURE ?v"
    using assms(5,6) by (auto simp: authDone_eq[OF assms(1,3,4)] verdict_def run_try split: address.splits)
  moreover obtain w' fd where "answer E r SOCKS6_OPERATION_REPLY_FAILURE ?v = (Ret (), w')" "queued (nextRid ?v) bytes fd w'"
    by (rule answer_run[of ?v r ?y ?e E SOCKS6_OPERATION_REPLY_FAILURE bytes]) (use assms in simp_all)
  ultimately show ?thesis by auto
qed

theorem late_payload_refused_witness:
  "\<exists>w' fd. authDone answering 1 (asked_world (scenario_request\<lparr>rq_tfo := Some 100\<rparr>)) = (Ret (), w') \<and> queued 2 [1] fd w'"
proof -
  let ?rq = "scenario_request\<lparr>rq_tfo := Some 100\<rparr>"
  let ?d = "scenario_up\<lparr>pu_request := Some ?rq\<rparr>"
  have "verdict ?rq = None" by (simp add: verdict_def scenario_request_def)
  moreover have "can_answer answering 7 (fdCount (asked_world ?rq))
      ((pu_reply ?d)\<lparr>or_code := SOCKS6_OPERATION_REPLY_FAILURE\<rparr>) [1]"
    using answering_can_answer[of ?rq "(pu_reply ?d)\<lparr>or_code := SOCKS6_OPERATION_REPLY_FAILURE\<rparr>"] by simp
  ultimately have "\<exists>w' fd. authDone answering 1 (asked_world ?rq) = (Ret (), w') \<and> queued (nextRid (asked_world ?rq)) [1] fd w'"
    by (intro late_payload_refused[of _ _ "scenario_upstreamer\<lparr>cls := CProxyUpstreamer ?d\<rparr>" ?d ?rq 100])
      (simp_all add: asked_world_def scenario_request_def answering_def returns_def failed_def no_socket_def new_buffer_room)
  then show ?thesis by (simp add: asked_world_def)
qed

section \<open>Connection attempts that fail\<close>


definition connecting_world :: world where
  "connecting_world = (proxy_world scenario_proxy)\<lparr>reactors := [1 \<mapsto> scenario_upstreamer
     \<lparr>cls := CProxyUpstreamer (scenario_up\<lparr>pu_state := PU_CONNECTING\<rparr>), dstSock := \<lparr>sk_fd = 9, sk_tls = None\<rparr>\<rparr>]\<rparr>"


end
