(* ===== verification/TimerQueue.thy ===== *)
theory TimerQueue
  imports Timeout
begin

text \<open>
  Properties of the timer queues. \<open>timers_inv\<close>: every queue is ordered by arming time and holds
  timers of its interval that know their tracker. Arming, refreshing and cancelling keep it as long
  as the clock does not run backwards. On ordered queues the scan of \<open>process\<close>, which stops at the
  first timer that is not due, triggers exactly the timers that are due.
\<close>

section \<open>Queues by interval\<close>

lemma queue_at_upd: "queue_at j (upd_queue i f qs) = (if j = i then f (queue_at i qs) else queue_at j qs)"
  by (induction qs) (auto simp: queue_at_def)

lemma keys_upd: "fst ` set (upd_queue i f qs) = insert i (fst ` set qs)"
  by (induction qs rule: upd_queue.induct) (auto simp: image_iff)

lemma distinct_upd: "distinct (map fst qs) \<Longrightarrow> distinct (map fst (upd_queue i f qs))"
proof (induction qs)
  case (Cons kq qs)
  have "fst kq \<notin> fst ` set (upd_queue i f qs)" if "fst kq \<noteq> i"
    using Cons.prems that keys_upd[of i f qs] by (simp del: keys_upd)
  with Cons show ?case by (cases kq) (auto simp: keys_upd)
qed simp

section \<open>The invariant\<close>

definition arm_time :: "world \<Rightarrow> nat \<Rightarrow> int" where
  "arm_time w t = (case timers w t of Some y \<Rightarrow> tm_arm y | None \<Rightarrow> 0)"

definition queue_ok :: "rid \<Rightarrow> world \<Rightarrow> int \<Rightarrow> nat list \<Rightarrow> bool" where
  "queue_ok r w i q \<longleftrightarrow> distinct q \<and> sorted (map (arm_time w) q) \<and>
     (\<forall>t \<in> set q. \<exists>y. timers w t = Some y \<and> tm_interval y = i \<and> tm_tracker y = Some r)"

definition has_queues :: "rid \<Rightarrow> queues \<Rightarrow> world \<Rightarrow> bool" where
  "has_queues r qs w \<longleftrightarrow> (\<exists>x. reactors w r = Some x \<and> cls x = CTimeoutReactor qs)"

definition timers_inv :: "rid \<Rightarrow> world \<Rightarrow> bool" where
  "timers_inv r w \<longleftrightarrow> (\<exists>qs. has_queues r qs w \<and> distinct (map fst qs) \<and> (\<forall>i. queue_ok r w i (queue_at i qs)))"

definition not_after :: "rid \<Rightarrow> int \<Rightarrow> world \<Rightarrow> bool" where
  "not_after r now w \<longleftrightarrow> (\<forall>qs i. has_queues r qs w \<longrightarrow> (\<forall>t \<in> set (queue_at i qs). arm_time w t \<le> now))"

lemma run_getQ: "has_queues r qs w \<Longrightarrow> getQ r w = (Ret qs, w)"
  by (auto simp: has_queues_def getQ_def bindM_def run_getR run_basic)

lemma run_modQ:
  assumes "has_queues r qs w"
  obtains w' where "modQ r f w = (Ret (), w')" "has_queues r (f qs) w'" "timers w' = timers w"
  using assms by (auto simp: has_queues_def modQ_def run_modR)

lemma run_timer:
  assumes "timers w t = Some y"
  shows "getTM t w = (Ret y, w)" "modTM t f w = (Ret (), w\<lparr>timers := (timers w)(t \<mapsto> f y)\<rparr>)"
  using assms by (simp_all add: getTM_def modTM_def)

lemma has_queues_timers [simp]: "has_queues r qs (w\<lparr>timers := tm\<rparr>) = has_queues r qs w"
  by (simp add: has_queues_def)

lemma has_queues_unique: "has_queues r qs w \<Longrightarrow> has_queues r qs' w \<Longrightarrow> qs' = qs"
  by (auto simp: has_queues_def)

lemma queue_ok_cong:
  assumes "\<And>t. t \<in> set q \<Longrightarrow> timers w' t = timers w t"
  shows "queue_ok r w' i q = queue_ok r w i q"
proof -
  have "map (arm_time w') q = map (arm_time w) q" using assms by (simp add: arm_time_def)
  moreover have "(\<forall>t \<in> set q. \<exists>y. timers w' t = Some y \<and> tm_interval y = i \<and> tm_tracker y = Some r) =
      (\<forall>t \<in> set q. \<exists>y. timers w t = Some y \<and> tm_interval y = i \<and> tm_tracker y = Some r)"
    by (intro ball_cong refl) (simp add: assms)
  ultimately show ?thesis by (simp only: queue_ok_def)
qed

lemma queue_ok_remove: "queue_ok r w i q \<Longrightarrow> queue_ok r w i (remove1 t q)"
  using set_remove1_subset[of t q]
  by (auto simp: queue_ok_def distinct_remove1 sorted_map_remove1)

text \<open>A timer that was just set to the present time goes to the end of its queue.\<close>

lemma queue_ok_snoc:
  assumes "queue_ok r w i q" "t \<notin> set q" "timers w' t = Some y" "tm_interval y = i" "tm_tracker y = Some r"
    "\<And>s. s \<noteq> t \<Longrightarrow> timers w' s = timers w s" "\<And>s. s \<in> set q \<Longrightarrow> arm_time w s \<le> tm_arm y"
  shows "queue_ok r w' i (q @ [t])"
proof -
  have same: "timers w' s = timers w s" if "s \<in> set q" for s
    using that assms(2,6) by (cases "s = t") auto
  then have "queue_ok r w' i q" using assms(1) queue_ok_cong by blast
  moreover have "arm_time w' s \<le> arm_time w' t" if "s \<in> set q" for s
    using assms(3) same[OF that] assms(7)[OF that] by (simp add: arm_time_def)
  ultimately show ?thesis
    using assms(2-5) by (auto simp: queue_ok_def sorted_append)
qed

lemma timers_inv_elsewhere:
  assumes inv: "queue_ok r w j (queue_at j qs)" and y: "timers w t = Some y"
    and j: "j \<noteq> tm_interval y" and same: "\<And>s. s \<noteq> t \<Longrightarrow> timers w' s = timers w s"
  shows "queue_ok r w' j (queue_at j qs)"
proof -
  have "t \<notin> set (queue_at j qs)" using inv y j by (auto simp: queue_ok_def)
  with same have "\<And>s. s \<in> set (queue_at j qs) \<Longrightarrow> timers w' s = timers w s" by metis
  with inv show ?thesis using queue_ok_cong by blast
qed

section \<open>The operations\<close>

lemma timer_add_ok:
  assumes inv: "timers_inv r w" and q: "has_queues r qs w" and now: "not_after r now w"
    and y: "timers w t = Some y" "tm_tracker y = None" "tm_interval y \<in> fst ` set qs"
  obtains w' where "timer_add r t now w = (Ret (), w')" "timers_inv r w'"
    "has_queues r (upd_queue (tm_interval y) (\<lambda>q. q @ [t]) qs) w'"
    "timers w' = (timers w)(t \<mapsto> y\<lparr>tm_tracker := Some r, tm_arm := now\<rparr>)"
proof -
  let ?y = "y\<lparr>tm_tracker := Some r, tm_arm := now\<rparr>"
  let ?v = "w\<lparr>timers := (timers w)(t \<mapsto> ?y)\<rparr>"
  let ?i = "tm_interval y"
  have ok: "distinct (map fst qs)" "\<And>i. queue_ok r w i (queue_at i qs)"
    using inv has_queues_unique[OF q] by (auto simp: timers_inv_def)
  obtain w' where w': "modQ r (upd_queue ?i (\<lambda>q. q @ [t])) ?v = (Ret (), w')"
    "has_queues r (upd_queue ?i (\<lambda>q. q @ [t]) qs) w'" "timers w' = timers ?v"
    using run_modQ[of r qs ?v] q by auto
  have run: "timer_add r t now w = (Ret (), w')"
    using y w'(1) by (simp add: timer_add_def bindM_def seqM_def run_getQ[OF q] run_timer[OF y(1)] run_guards)
  have "t \<notin> set (queue_at i qs)" for i
    using ok(2)[of i] y(1,2) by (auto simp: queue_ok_def)
  moreover have "arm_time w s \<le> now" if "s \<in> set (queue_at i qs)" for s i
    using now q that by (auto simp: not_after_def)
  ultimately have "queue_ok r w' ?i (queue_at ?i qs @ [t])"
    using ok(2)[of ?i] by (intro queue_ok_snoc[where y = ?y and w = w]) (auto simp: w'(3))
  moreover have "queue_ok r w' j (queue_at j qs)" if "j \<noteq> ?i" for j
    using that by (intro timers_inv_elsewhere[OF ok(2) y(1)]) (auto simp: w'(3))
  ultimately have "timers_inv r w'"
    using w'(2) ok(1) by (auto simp: timers_inv_def queue_at_upd distinct_upd
        intro!: exI[of _ "upd_queue ?i (\<lambda>q. q @ [t]) qs"])
  with run w' show thesis by (intro that) auto
qed

lemma timer_refresh_ok:
  assumes inv: "timers_inv r w" and q: "has_queues r qs w" and now: "not_after r now w"
    and y: "timers w t = Some y" "tm_tracker y = Some r" "tm_interval y \<in> fst ` set qs"
  obtains w' where "timer_refresh r t now w = (Ret (), w')" "timers_inv r w'"
    "timers w' = (timers w)(t \<mapsto> y\<lparr>tm_arm := now\<rparr>)"
    "has_queues r (if t \<in> set (queue_at (tm_interval y) qs)
       then upd_queue (tm_interval y) (\<lambda>q. remove1 t q @ [t]) qs else qs) w'"
proof -
  let ?y = "y\<lparr>tm_arm := now\<rparr>"
  let ?v = "w\<lparr>timers := (timers w)(t \<mapsto> ?y)\<rparr>"
  let ?i = "tm_interval y"
  have ok: "distinct (map fst qs)" "\<And>i. queue_ok r w i (queue_at i qs)"
    using inv has_queues_unique[OF q] by (auto simp: timers_inv_def)
  have other: "queue_ok r w' j (queue_at j qs)" if "j \<noteq> ?i" "timers w' = timers ?v" for j w'
    using that by (intro timers_inv_elsewhere[OF ok(2) y(1)]) auto
  note run_simps' = timer_refresh_def bindM_def seqM_def run_getQ[OF q] run_timer[OF y(1)] run_guards
  show thesis
  proof (cases "t \<in> set (queue_at ?i qs)")
    case False
    have "timers ?v s = timers w s" if "s \<in> set (queue_at ?i qs)" for s
      using that False by auto
    then have "queue_ok r ?v ?i (queue_at ?i qs)" using ok(2)[of ?i] queue_ok_cong by blast
    with other[of _ ?v] have "\<forall>i. queue_ok r ?v i (queue_at i qs)" by metis
    with q ok(1) have "timers_inv r ?v" by (auto simp: timers_inv_def intro!: exI[of _ qs])
    moreover have "timer_refresh r t now w = (Ret (), ?v)"
      using y False by (simp add: run_simps' run_basic)
    ultimately show thesis using False q by (intro that[of ?v]) auto
  next
    case True
    obtain w' where w': "modQ r (upd_queue ?i (\<lambda>q. remove1 t q @ [t])) ?v = (Ret (), w')"
      "has_queues r (upd_queue ?i (\<lambda>q. remove1 t q @ [t]) qs) w'" "timers w' = timers ?v"
      using run_modQ[of r qs ?v] q by auto
    have run: "timer_refresh r t now w = (Ret (), w')"
      using y True w'(1) by (simp add: run_simps')
    have "t \<notin> set (remove1 t (queue_at ?i qs))" using ok(2)[of ?i] by (simp add: queue_ok_def)
    moreover have "arm_time w s \<le> now" if "s \<in> set (remove1 t (queue_at ?i qs))" for s
      using now q that set_remove1_subset[of t "queue_at ?i qs"] by (auto simp: not_after_def)
    ultimately have "queue_ok r w' ?i (remove1 t (queue_at ?i qs) @ [t])"
      using queue_ok_remove[OF ok(2)[of ?i]] y(2) by (intro queue_ok_snoc[where y = ?y and w = w]) (auto simp: w'(3))
    with other[OF _ w'(3)] w'(2) ok(1) have "timers_inv r w'"
      by (auto simp: timers_inv_def queue_at_upd distinct_upd
          intro!: exI[of _ "upd_queue ?i (\<lambda>q. remove1 t q @ [t]) qs"])
    with run w' True show thesis by (intro that[of w']) auto
  qed
qed

lemma timer_cancel_ok:
  assumes inv: "timers_inv r w" and q: "has_queues r qs w"
    and y: "timers w t = Some y" "tm_tracker y = Some r" "tm_interval y \<in> fst ` set qs"
  obtains w' qs' where "timer_cancel r t w = (Ret (), w')" "timers_inv r w'" "timers w' = timers w"
    "has_queues r qs' w'" "\<And>i. queue_at i qs' = remove1 t (queue_at i qs)"
proof -
  let ?i = "tm_interval y"
  have ok: "distinct (map fst qs)" "\<And>i. queue_ok r w i (queue_at i qs)"
    using inv has_queues_unique[OF q] by (auto simp: timers_inv_def)
  have absent: "t \<notin> set (queue_at i qs)" if "i \<noteq> ?i" for i
    using ok(2)[of i] y(1) that by (auto simp: queue_ok_def)
  note run_simps' = timer_cancel_def bindM_def seqM_def run_getQ[OF q] run_timer[OF y(1)] run_guards
  show thesis
  proof (cases "t \<in> set (queue_at ?i qs)")
    case False
    with absent have "\<And>i. queue_at i qs = remove1 t (queue_at i qs)" by (metis remove1_idem)
    moreover have "timer_cancel r t w = (Ret (), w)" using y False by (simp add: run_simps' run_basic)
    ultimately show thesis using inv q by (intro that[of w qs]) auto
  next
    case True
    obtain w' where w': "modQ r (upd_queue ?i (remove1 t)) w = (Ret (), w')"
      "has_queues r (upd_queue ?i (remove1 t) qs) w'" "timers w' = timers w"
      using run_modQ[of r qs w] q by auto
    have at: "queue_at i (upd_queue ?i (remove1 t) qs) = remove1 t (queue_at i qs)" for i
      using absent[of i] by (auto simp: queue_at_upd remove1_idem)
    have "queue_ok r w' i (remove1 t (queue_at i qs))" for i
      using queue_ok_remove[OF ok(2)[of i]] queue_ok_cong[of _ w' w] w'(3) by simp
    with w'(2) ok(1) have "timers_inv r w'"
      by (auto simp: timers_inv_def at distinct_upd intro!: exI[of _ "upd_queue ?i (remove1 t) qs"])
    moreover have "timer_cancel r t w = (Ret (), w')" using y True w'(1) by (simp add: run_simps')
    ultimately show thesis using w' at by (intro that) auto
  qed
qed

section \<open>Expiry\<close>

definition due :: "int \<Rightarrow> int \<Rightarrow> world \<Rightarrow> nat \<Rightarrow> bool" where
  "due now timeout w t \<longleftrightarrow> timeout \<le> millis (now - arm_time w t)"

text \<open>The reference: trigger the timers of a list one after the other, whatever their times.\<close>

fun trigger_list :: "env \<Rightarrow> rid \<Rightarrow> int \<Rightarrow> nat list \<Rightarrow> unit M" where
  "trigger_list E r timeout [] = ret ()"
| "trigger_list E r timeout (t # ts) =
     seqM (trigger E t) (seqM (modQ r (upd_queue timeout tl)) (trigger_list E r timeout ts))"

fun trigger_lists :: "env \<Rightarrow> rid \<Rightarrow> queues \<Rightarrow> unit M" where
  "trigger_lists E r [] = ret ()"
| "trigger_lists E r ((timeout, q) # qs) = seqM (trigger_list E r timeout q) (trigger_lists E r qs)"

lemma millis_mono: "a \<le> b \<Longrightarrow> millis a \<le> millis b"
  by (auto simp: millis_def intro: zdiv_mono1 order_trans[of _ 0] pos_imp_zdiv_nonneg_iff[THEN iffD2])

lemma not_due_later:
  "arm_time w s \<le> arm_time w t \<Longrightarrow> \<not> due now i w s \<Longrightarrow> \<not> due now i w t"
  using millis_mono[of "now - arm_time w t" "now - arm_time w s"] by (simp add: due_def)

lemma seqM_cong:
  "(\<And>w'. m w = (Ret (), w') \<Longrightarrow> n w' = n' w') \<Longrightarrow> seqM m n w = seqM m n' w"
  by (auto simp: seqM_def bindM_def split: prod.splits outcome.splits)

text \<open>Triggering changes no timer and leaves the queues to their reactor.\<close>

definition same_object :: "reactor \<Rightarrow> reactor \<Rightarrow> bool" where
  "same_object x x' \<longleftrightarrow> cls x' = cls x \<and> (active x' \<longrightarrow> active x)"

definition timers_kept :: "world \<Rightarrow> world \<Rightarrow> bool" where
  "timers_kept w w' \<longleftrightarrow> timers w' = timers w \<and> (\<forall>r. rel_option same_object (reactors w r) (reactors w' r))"

lemma same_object_refl [simp]: "rel_option same_object x x"
  by (cases x) (simp_all add: same_object_def)

interpretation tk: world_preorder timers_kept
proof unfold_locales
  fix u v w assume uv: "timers_kept u v" and vw: "timers_kept v w"
  have "rel_option same_object (reactors u r) (reactors w r)" for r
  proof -
    from uv vw have "rel_option same_object (reactors u r) (reactors v r)"
      "rel_option same_object (reactors v r) (reactors w r)" by (simp_all add: timers_kept_def)
    then show ?thesis by (auto simp: option_rel_Some1 option_rel_Some2 same_object_def elim!: option.rel_cases)
  qed
  with uv vw show "timers_kept u w" by (simp add: timers_kept_def)
qed (simp add: timers_kept_def)

lemma kept_extcall [keeps_intro]: "keeps timers_kept (extcall E c)"
  by (simp add: keeps_def run_extcall timers_kept_def)

lemma kept_getR [keeps_intro]: "keeps timers_kept (getR r)"
  by (simp add: keeps_def getR_def timers_kept_def split: option.split)

lemma kept_remove [keeps_intro]: "keeps timers_kept (Poller_remove E fd False)"
  by (simp add: keeps_def Poller_remove_eq timers_kept_def Let_def)

lemma kept_inactive [keeps_intro]: "keeps timers_kept (Reactor_deactivate r)"
  by (auto simp: keeps_def Reactor_deactivate_def modR_def timers_kept_def same_object_def split: option.split)

lemma kept_deactivate [keeps_intro]: "keeps timers_kept (deactivate E r)"
  unfolding deactivate_def ListenReactor_deactivate_def StickReactor_deactivate_def
    StreamReactor_deactivate_def TimeoutReactor_deactivate_def AuthServer_deactivate_def
  by (intro tk.keeps_rules keeps_intro) (auto split: rclass.split intro!: tk.keeps_rules keeps_intro)

lemma kept_getTM [keeps_intro]: "keeps timers_kept (getTM t)"
  by (simp add: keeps_def getTM_def timers_kept_def split: option.split)

lemma kept_trigger: "keeps timers_kept (trigger E t)"
  unfolding trigger_def by (intro tk.keeps_rules keeps_intro)

lemma trigger_timers: "trigger E t w = (res, w') \<Longrightarrow> timers w' = timers w"
  using keepsD[OF kept_trigger[of E t], of w] by (simp add: timers_kept_def)

lemma modQ_timers: "modQ r f w = (res, w') \<Longrightarrow> timers w' = timers w"
  by (auto simp: modQ_def modR_def split: option.splits)

lemma due_cong: "timers w' = timers w \<Longrightarrow> due now i w' = due now i w"
  by (rule ext) (simp add: due_def arm_time_def)

lemma arm_cong: "timers w' = timers w \<Longrightarrow> arm_time w' = arm_time w"
  by (rule ext) (simp add: arm_time_def)

lemma expire_due:
  assumes "sorted (map (arm_time w) q)" "\<forall>t \<in> set q. timers w t \<noteq> None"
  shows "expire E r now timeout q w = trigger_list E r timeout (filter (due now timeout w) q) w"
  using assms
proof (induction q arbitrary: w)
  case (Cons t ts)
  from Cons.prems(2) obtain y where y: "timers w t = Some y" by auto
  then have head: "millis (now - tm_arm y) < timeout \<longleftrightarrow> \<not> due now timeout w t"
    by (auto simp: due_def arm_time_def)
  show ?case
  proof (cases "due now timeout w t")
    case False
    moreover from this Cons.prems(1) have "filter (due now timeout w) ts = []"
      using not_due_later[of w t] by (auto simp: filter_empty_conv)
    ultimately show ?thesis
      using head by (simp add: bindM_def run_timer[OF y] run_basic)
  next
    case True
    have "expire E r now timeout ts u = trigger_list E r timeout (filter (due now timeout w) ts) u"
      if "timers u = timers w" for u
      using Cons.IH[of u] Cons.prems that due_cong[OF that] arm_cong[OF that] by simp
    note later = this
    have "seqM (trigger E t) (seqM (modQ r (upd_queue timeout tl)) (expire E r now timeout ts)) w =
        seqM (trigger E t) (seqM (modQ r (upd_queue timeout tl))
          (trigger_list E r timeout (filter (due now timeout w) ts))) w"
      by (rule seqM_cong, rule seqM_cong) (auto dest!: trigger_timers modQ_timers intro: later)
    with True head show ?thesis by (simp add: bindM_def run_timer[OF y])
  qed
qed simp

lemma expire_timers: "expire E r now timeout q w = (res, w') \<Longrightarrow> timers w' = timers w"
proof (induction q arbitrary: w)
  case (Cons t ts)
  from Cons.prems Cons.IH show ?case
    by (auto simp: bindM_def seqM_def getTM_def run_basic split: option.splits if_splits prod.splits outcome.splits
        dest!: trigger_timers modQ_timers)
qed (simp add: run_basic)

lemma expire_all_due:
  assumes "\<forall>(i, q) \<in> set qs. sorted (map (arm_time w) q) \<and> (\<forall>t \<in> set q. timers w t \<noteq> None)"
  shows "expire_all E r now qs w = trigger_lists E r (map (\<lambda>(i, q). (i, filter (due now i w) q)) qs) w"
  using assms
proof (induction qs arbitrary: w)
  case (Cons iq qs)
  obtain i q where iq: "iq = (i, q)" by fastforce
  have head: "expire E r now i q w = trigger_list E r i (filter (due now i w) q) w"
    using Cons.prems iq by (intro expire_due) auto
  have "expire_all E r now qs u = trigger_lists E r (map (\<lambda>(i, q). (i, filter (due now i w) q)) qs) u"
    if "timers u = timers w" for u
    using Cons.IH[of u] Cons.prems arm_cong[OF that] due_cong[OF that] that by auto
  then have "seqM (expire E r now i q) (expire_all E r now qs) w =
      seqM (expire E r now i q) (trigger_lists E r (map (\<lambda>(i, q). (i, filter (due now i w) q)) qs)) w"
    by (intro seqM_cong) (auto dest: expire_timers)
  then show ?case using head iq by (simp add: seqM_def bindM_def)
qed simp

text \<open>What is left afterwards: the timers that were not due, and reactors that no longer run.\<close>

definition inactive :: "rid \<Rightarrow> world \<Rightarrow> bool" where
  "inactive r w \<longleftrightarrow> (\<forall>x. reactors w r = Some x \<longrightarrow> \<not> active x)"

lemma timers_keptD:
  assumes "timers_kept w w'"
  shows "reactors w' r = Some x' \<Longrightarrow> \<exists>x. reactors w r = Some x \<and> same_object x x'"
    "reactors w r = Some x \<Longrightarrow> \<exists>x'. reactors w' r = Some x' \<and> same_object x x'"
proof -
  from assms have "rel_option same_object (reactors w r) (reactors w' r)" by (simp add: timers_kept_def)
  then show "reactors w' r = Some x' \<Longrightarrow> \<exists>x. reactors w r = Some x \<and> same_object x x'"
    "reactors w r = Some x \<Longrightarrow> \<exists>x'. reactors w' r = Some x' \<and> same_object x x'"
    by (auto simp: option_rel_Some1 option_rel_Some2)
qed

lemma inactive_kept: "timers_kept w w' \<Longrightarrow> inactive r w \<Longrightarrow> inactive r w'"
  using timers_keptD(1)[of w w' r] by (fastforce simp: inactive_def same_object_def)

lemma inactive_seq:
  assumes "keeps timers_kept n" "inactive r (snd (m w))" shows "inactive r (snd (seqM m n w))"
proof (cases "fst (m w)")
  case (Ret a)
  then have "seqM m n w = n (snd (m w))" by (intro run_seq) (simp add: prod_eq_iff)
  with inactive_kept[OF keepsD[OF assms(1)] assms(2)] show ?thesis by simp
qed (use assms(2) in \<open>auto simp: seqM_def bindM_def split: prod.splits outcome.splits\<close>)

lemma deactivate_inactive: "inactive r (snd (deactivate E r w))"
proof (cases "reactors w r")
  case (Some x)
  have base: "inactive r (snd (Reactor_deactivate r w))"
    using Some by (simp add: Reactor_deactivate_def run_modR inactive_def)
  have "inactive r (snd (ListenReactor_deactivate E r w))" "inactive r (snd (StickReactor_deactivate E r w))"
    "inactive r (snd (StreamReactor_deactivate E r w))" "inactive r (snd (TimeoutReactor_deactivate E r w))"
    unfolding ListenReactor_deactivate_def StickReactor_deactivate_def StreamReactor_deactivate_def
      TimeoutReactor_deactivate_def
    by (intro inactive_seq base tk.keeps_rules keeps_intro)+
  moreover have "inactive r (snd (AuthServer_deactivate E r u w))" for u
    unfolding AuthServer_deactivate_def StickReactor_deactivate_def StreamReactor_deactivate_def
    by (intro inactive_seq base tk.keeps_rules keeps_intro)
  ultimately show ?thesis
    using base Some by (simp add: deactivate_def bindM_def[of "getR r"] run_getR split: rclass.split)
qed (simp add: deactivate_def bindM_def[of "getR r"] run_getR inactive_def)

definition stopped :: "nat \<Rightarrow> world \<Rightarrow> bool" where
  "stopped t w \<longleftrightarrow> (\<forall>y. timers w t = Some y \<longrightarrow> inactive (tm_reactor y) w)"

lemma stopped_kept: "timers_kept w w' \<Longrightarrow> stopped t w \<Longrightarrow> stopped t w'"
  using inactive_kept by (auto simp: stopped_def timers_kept_def)

lemma trigger_stopped: "trigger E t w = (Ret (), w') \<Longrightarrow> stopped t w'"
  using deactivate_inactive trigger_timers[of E t w "Ret ()" w']
  by (auto simp: trigger_def bindM_def getTM_def stopped_def split: option.splits) (metis snd_conv)

lemma queues_kept: "timers_kept w w' \<Longrightarrow> has_queues r qs w \<Longrightarrow> has_queues r qs w'"
  using timers_keptD(2)[of w w' r] by (fastforce simp: has_queues_def same_object_def)

lemma stopped_modQ: "modQ r f w = (Ret (), w') \<Longrightarrow> stopped t w \<Longrightarrow> stopped t w'"
  by (auto simp: modQ_def modR_def stopped_def inactive_def split: option.splits if_splits rclass.splits)

lemma trigger_list_effect:
  assumes "has_queues r qs w" "queue_at i qs = ts @ rest" "trigger_list E r i ts w = (Ret (), w')"
  shows "\<exists>qs'. has_queues r qs' w' \<and> (distinct (map fst qs) \<longrightarrow> distinct (map fst qs')) \<and>
    timers w' = timers w \<and> queue_at i qs' = rest \<and>
    (\<forall>j. j \<noteq> i \<longrightarrow> queue_at j qs' = queue_at j qs) \<and> (\<forall>t. t \<in> set ts \<or> stopped t w \<longrightarrow> stopped t w')"
  using assms
proof (induction ts arbitrary: w qs)
  case (Cons t ts)
  from Cons.prems(3) obtain u where u: "trigger E t w = (Ret (), u)"
    and rest: "seqM (modQ r (upd_queue i tl)) (trigger_list E r i ts) u = (Ret (), w')"
    by (auto simp: seqM_def bindM_def split: prod.splits outcome.splits)
  have k: "timers_kept w u" using keepsD[OF kept_trigger[of E t], of w] u by simp
  obtain v where v: "modQ r (upd_queue i tl) u = (Ret (), v)" "has_queues r (upd_queue i tl qs) v"
    "timers v = timers u"
    using run_modQ[OF queues_kept[OF k Cons.prems(1)]] by blast
  have run: "trigger_list E r i ts v = (Ret (), w')" using rest v(1) by (simp add: run_seq)
  have "queue_at i (upd_queue i tl qs) = ts @ rest" using Cons.prems(2) by (simp add: queue_at_upd)
  from Cons.IH[OF v(2) this run] obtain qs' where qs': "has_queues r qs' w'"
    "distinct (map fst (upd_queue i tl qs)) \<longrightarrow> distinct (map fst qs')" "timers w' = timers v"
    "queue_at i qs' = rest" "\<forall>j. j \<noteq> i \<longrightarrow> queue_at j qs' = queue_at j (upd_queue i tl qs)"
    "\<forall>s. s \<in> set ts \<or> stopped s v \<longrightarrow> stopped s w'" by blast
  have "stopped s v" if "s = t \<or> stopped s w" for s
    using that trigger_stopped[OF u] stopped_kept[OF k] stopped_modQ[OF v(1)] by blast
  with qs' v(3) k show ?case by (intro exI[of _ qs']) (auto simp: queue_at_upd timers_kept_def distinct_upd)
qed (auto simp: run_basic)

lemma trigger_lists_effect:
  assumes "has_queues r qs w" "distinct (map fst ds)" "\<forall>(i, ts) \<in> set ds. prefix ts (queue_at i qs)"
    "trigger_lists E r ds w = (Ret (), w')"
  shows "\<exists>qs'. has_queues r qs' w' \<and> (distinct (map fst qs) \<longrightarrow> distinct (map fst qs')) \<and> timers w' = timers w \<and>
    (\<forall>(i, ts) \<in> set ds. queue_at i qs' = drop (length ts) (queue_at i qs)) \<and>
    (\<forall>j. j \<notin> fst ` set ds \<longrightarrow> queue_at j qs' = queue_at j qs) \<and>
    (\<forall>t. (\<exists>(i, ts) \<in> set ds. t \<in> set ts) \<or> stopped t w \<longrightarrow> stopped t w')"
  using assms
proof (induction ds arbitrary: w qs)
  case (Cons d ds)
  obtain i ts where d: "d = (i, ts)" by fastforce
  from Cons.prems(3) obtain rest where split: "queue_at i qs = ts @ rest" unfolding d by (auto elim: prefixE)
  from Cons.prems(4) obtain u where u: "trigger_list E r i ts w = (Ret (), u)"
    "trigger_lists E r ds u = (Ret (), w')"
    by (auto simp: d seqM_def bindM_def split: prod.splits outcome.splits)
  from trigger_list_effect[OF Cons.prems(1) split u(1)] obtain q1 where q1: "has_queues r q1 u"
    and dq1: "distinct (map fst qs) \<longrightarrow> distinct (map fst q1)"
    and q1': "timers u = timers w" "queue_at i q1 = rest" "\<forall>j. j \<noteq> i \<longrightarrow> queue_at j q1 = queue_at j qs"
    "\<forall>t. t \<in> set ts \<or> stopped t w \<longrightarrow> stopped t u" by blast
  have other: "queue_at j q1 = queue_at j qs" if "j \<in> fst ` set ds" for j
    using that q1'(3) Cons.prems(2) d by auto
  with Cons.prems(3) have "\<forall>(j, s) \<in> set ds. prefix s (queue_at j q1)" by force
  from Cons.IH[OF q1(1) _ this u(2)] Cons.prems(2) obtain qs' where qs': "has_queues r qs' w'"
    and dqs': "distinct (map fst q1) \<longrightarrow> distinct (map fst qs')"
    and rest': "timers w' = timers u" "\<forall>(j, s) \<in> set ds. queue_at j qs' = drop (length s) (queue_at j q1)"
    "\<forall>j. j \<notin> fst ` set ds \<longrightarrow> queue_at j qs' = queue_at j q1"
    "\<forall>t. (\<exists>(j, s) \<in> set ds. t \<in> set s) \<or> stopped t u \<longrightarrow> stopped t w'" by auto
  have "queue_at i qs' = drop (length ts) (queue_at i qs)"
    using rest'(3) Cons.prems(2) q1'(2) split d by auto
  moreover have "\<forall>(j, s) \<in> set ds. queue_at j qs' = drop (length s) (queue_at j qs)"
    using rest'(2) other by force
  ultimately show ?case
    using qs' dqs' rest' dq1 q1' d by (intro exI[of _ qs']) auto
qed (auto simp: run_basic)

lemma due_first:
  assumes "sorted (map (arm_time w) q)"
  shows "q = filter (due now i w) q @ filter (\<lambda>t. \<not> due now i w t) q"
  using assms
proof (induction q)
  case (Cons t q)
  then show ?case
  proof (cases "due now i w t")
    case False
    with Cons.prems have "\<forall>s \<in> set q. \<not> due now i w s" using not_due_later[of w t] by auto
    then have "filter (due now i w) q = []" "filter (\<lambda>t. \<not> due now i w t) q = q"
      by (auto simp: filter_empty_conv filter_id_conv)
    with False show ?thesis by simp
  qed simp
qed simp

lemma queue_at_member: "distinct (map fst qs) \<Longrightarrow> (i, q) \<in> set qs \<Longrightarrow> queue_at i qs = q"
  by (simp add: queue_at_def)

lemma expire_all_effect:
  assumes inv: "timers_inv r w" and q: "has_queues r qs w" and run: "expire_all E r now qs w = (Ret (), w')"
  obtains qs' where "has_queues r qs' w'" "distinct (map fst qs')" "timers w' = timers w"
    "\<forall>i. queue_at i qs' = filter (\<lambda>t. \<not> due now i w t) (queue_at i qs)"
    "\<forall>i t. t \<in> set (queue_at i qs) \<and> due now i w t \<longrightarrow> stopped t w'"
proof -
  let ?ds = "map (\<lambda>(i, q). (i, filter (due now i w) q)) qs"
  have ok: "distinct (map fst qs)" "\<And>i. queue_ok r w i (queue_at i qs)"
    using inv has_queues_unique[OF q] by (auto simp: timers_inv_def)
  have member: "queue_ok r w i p \<and> p = queue_at i qs" if "(i, p) \<in> set qs" for i p
    using ok(2)[of i] queue_at_member[OF ok(1) that] by simp
  have split: "queue_at i qs = filter (due now i w) (queue_at i qs) @ filter (\<lambda>t. \<not> due now i w t) (queue_at i qs)" for i
    using ok(2)[of i] by (intro due_first) (simp add: queue_ok_def)
  have "trigger_lists E r ?ds w = (Ret (), w')"
    using run expire_all_due[of qs w E r now] member by (fastforce simp: queue_ok_def)
  moreover have "distinct (map fst ?ds)" using ok(1) by (simp add: comp_def case_prod_beta)
  moreover have "\<forall>(i, ts) \<in> set ?ds. prefix ts (queue_at i qs)"
    using member split by (fastforce intro: prefixI)
  ultimately obtain qs' where qs': "has_queues r qs' w'" "timers w' = timers w"
    and keys: "distinct (map fst qs) \<longrightarrow> distinct (map fst qs')"
    and qs'': "\<forall>(i, ts) \<in> set ?ds. queue_at i qs' = drop (length ts) (queue_at i qs)"
    "\<forall>j. j \<notin> fst ` set ?ds \<longrightarrow> queue_at j qs' = queue_at j qs"
    "\<forall>t. (\<exists>(i, ts) \<in> set ?ds. t \<in> set ts) \<or> stopped t w \<longrightarrow> stopped t w'"
    using trigger_lists_effect[OF q] by blast
  have keys_ds: "fst ` set ?ds = fst ` set qs" by force
  have known: "(i, queue_at i qs) \<in> set qs \<or> queue_at i qs = [] \<and> i \<notin> fst ` set ?ds" for i
    unfolding keys_ds
    using map_of_eq_None_iff[of qs i] by (cases "map_of qs i") (simp_all add: queue_at_def map_of_SomeD)
  have "queue_at i qs' = filter (\<lambda>t. \<not> due now i w t) (queue_at i qs)" for i
    using known[of i]
  proof
    assume "(i, queue_at i qs) \<in> set qs"
    then have "(i, filter (due now i w) (queue_at i qs)) \<in> set ?ds" by force
    with qs''(1) have "queue_at i qs' = drop (length (filter (due now i w) (queue_at i qs))) (queue_at i qs)" by blast
    then show ?thesis using split[of i] by (metis append_eq_conv_conj)
  qed (use qs''(2) in simp)
  moreover have "stopped t w'" if "t \<in> set (queue_at i qs)" "due now i w t" for i t
  proof -
    from that(1) known[of i] have "(i, queue_at i qs) \<in> set qs" by auto
    then have "(i, filter (due now i w) (queue_at i qs)) \<in> set ?ds" by force
    with that have "\<exists>(i, ts) \<in> set ?ds. t \<in> set ts" by (intro bexI[of _ "(i, filter (due now i w) (queue_at i qs))"]) auto
    with qs''(3) show ?thesis by blast
  qed
  ultimately show thesis using qs' keys ok(1) by (intro that) auto
qed

lemma expire_all_inv:
  assumes inv: "timers_inv r w" and q: "has_queues r qs w" and q': "has_queues r qs' w'"
    and "timers w' = timers w" "\<forall>i. queue_at i qs' = filter P (queue_at i qs)" "distinct (map fst qs')"
  shows "timers_inv r w'"
proof -
  have "queue_ok r w i (queue_at i qs)" for i
    using inv has_queues_unique[OF q] by (auto simp: timers_inv_def)
  then have "queue_ok r w' i (queue_at i qs')" for i
    using assms(5) arm_cong[OF assms(4)] by (auto simp: queue_ok_def sorted_filter assms(4))
  with q' assms(6) show ?thesis by (auto simp: timers_inv_def)
qed

end
