(* ===== verification/Expiry.thy ===== *)
theory Expiry
  imports TimerQueue Scenario
begin

text \<open>
  The timers over a run of the program (\<^verbatim>\<open>core/timeoutreactor.{hh,cc}\<close>): the operations on the queues
  of one TimeoutReactor as a step relation on worlds stamped with the time of the clock, the
  invariant of every state it reaches, and the effect of one expiry event.
\<close>

section \<open>Steps\<close>

inductive timer_step :: "env \<Rightarrow> rid \<Rightarrow> int \<times> world \<Rightarrow> int \<times> world \<Rightarrow> bool" for E r where
  arm: "now \<le> now' \<Longrightarrow> timer_add r t now' w = (Ret (), w') \<Longrightarrow> timer_step E r (now, w) (now', w')"
| refresh: "now \<le> now' \<Longrightarrow> timer_refresh r t now' w = (Ret (), w') \<Longrightarrow> timer_step E r (now, w) (now', w')"
| cancel: "timer_cancel r t w = (Ret (), w') \<Longrightarrow> timer_step E r (now, w) (now, w')"
| expiry: "now \<le> now' \<Longrightarrow> has_queues r qs w \<Longrightarrow> expire_all E r now' qs w = (Ret (), w') \<Longrightarrow>
    timer_step E r (now, w) (now', w')"
| other: "timers_kept w w' \<Longrightarrow> timer_step E r (now, w) (now, w')"

inductive_cases timer_stepE: "timer_step E r s s'"

definition timed_inv :: "rid \<Rightarrow> int \<times> world \<Rightarrow> bool" where
  "timed_inv r s \<longleftrightarrow> timers_inv r (snd s) \<and> not_after r (fst s) (snd s)"

lemma not_afterI:
  assumes "has_queues r qs w" "\<And>i t. t \<in> set (queue_at i qs) \<Longrightarrow> arm_time w t \<le> now"
  shows "not_after r now w"
  unfolding not_after_def
proof (intro allI impI ballI)
  fix qs' i t assume "has_queues r qs' w" "t \<in> set (queue_at i qs')"
  with has_queues_unique[OF assms(1)] have "t \<in> set (queue_at i qs)" by blast
  then show "arm_time w t \<le> now" by (rule assms(2))
qed

lemma not_afterD: "not_after r now w \<Longrightarrow> has_queues r qs w \<Longrightarrow> t \<in> set (queue_at i qs) \<Longrightarrow> arm_time w t \<le> now"
  by (auto simp: not_after_def)

lemma not_after_later: "not_after r now w \<Longrightarrow> now \<le> now' \<Longrightarrow> not_after r now' w"
  by (fastforce simp: not_after_def)

lemma timers_inv_queues: "timers_inv r w \<Longrightarrow> \<exists>qs. has_queues r qs w"
  by (auto simp: timers_inv_def)

lemma timers_invD:
  assumes "timers_inv r w" "has_queues r qs w"
  shows "distinct (map fst qs)" "queue_ok r w i (queue_at i qs)"
proof -
  from assms(1) obtain qs' where "has_queues r qs' w" and d: "distinct (map fst qs')"
    and ok: "\<forall>i. queue_ok r w i (queue_at i qs')" unfolding timers_inv_def by blast
  with has_queues_unique[OF assms(2)] have "qs' = qs" by blast
  with d ok show "distinct (map fst qs)" "queue_ok r w i (queue_at i qs)" by simp_all
qed

text \<open>An operation that returns has found its timer, with the interval and the tracker it asserts.\<close>

lemma timer_op_pre:
  assumes "has_queues r qs w"
  shows "timer_add r t now w = (Ret (), w') \<Longrightarrow>
      \<exists>y. timers w t = Some y \<and> tm_tracker y = None \<and> tm_interval y \<in> fst ` set qs"
    "timer_refresh r t now w = (Ret (), w') \<Longrightarrow>
      \<exists>y. timers w t = Some y \<and> tm_tracker y = Some r \<and> tm_interval y \<in> fst ` set qs"
    "timer_cancel r t w = (Ret (), w') \<Longrightarrow>
      \<exists>y. timers w t = Some y \<and> tm_tracker y = Some r \<and> tm_interval y \<in> fst ` set qs"
  using run_getQ[OF assms]
  by (auto simp: timer_add_def timer_refresh_def timer_cancel_def bindM_def seqM_def getTM_def
      assertM_def run_basic split: option.splits if_splits)

lemma timer_add_timed:
  assumes "timed_inv r (now, w)" "now \<le> now'" "timer_add r t now' w = (Ret (), w')"
  shows "timed_inv r (now', w')"
proof -
  from assms(1) obtain qs where inv: "timers_inv r w" and na: "not_after r now w" and q: "has_queues r qs w"
    using timers_inv_queues by (auto simp: timed_inv_def)
  note na' = not_after_later[OF na assms(2)]
  from timer_op_pre(1)[OF q assms(3)] obtain y where y: "timers w t = Some y" "tm_tracker y = None"
    "tm_interval y \<in> fst ` set qs" by blast
  obtain v where v: "timer_add r t now' w = (Ret (), v)" "timers_inv r v"
    "has_queues r (upd_queue (tm_interval y) (\<lambda>q. q @ [t]) qs) v"
    "timers v = (timers w)(t \<mapsto> y\<lparr>tm_tracker := Some r, tm_arm := now'\<rparr>)"
    by (rule timer_add_ok[OF inv q na' y])
  have "not_after r now' v"
  proof (rule not_afterI[OF v(3)])
    fix i s assume "s \<in> set (queue_at i (upd_queue (tm_interval y) (\<lambda>q. q @ [t]) qs))"
    then have "s = t \<or> s \<in> set (queue_at i qs)" by (auto simp: queue_at_upd split: if_splits)
    then show "arm_time v s \<le> now'"
      using not_afterD[OF na' q] v(4) by (auto simp: arm_time_def)
  qed
  with v assms(3) show ?thesis by (simp add: timed_inv_def)
qed

lemma timer_refresh_timed:
  assumes "timed_inv r (now, w)" "now \<le> now'" "timer_refresh r t now' w = (Ret (), w')"
  shows "timed_inv r (now', w')"
proof -
  from assms(1) obtain qs where inv: "timers_inv r w" and na: "not_after r now w" and q: "has_queues r qs w"
    using timers_inv_queues by (auto simp: timed_inv_def)
  note na' = not_after_later[OF na assms(2)]
  from timer_op_pre(2)[OF q assms(3)] obtain y where y: "timers w t = Some y" "tm_tracker y = Some r"
    "tm_interval y \<in> fst ` set qs" by blast
  obtain v where v: "timer_refresh r t now' w = (Ret (), v)" "timers_inv r v"
    "timers v = (timers w)(t \<mapsto> y\<lparr>tm_arm := now'\<rparr>)"
    "has_queues r (if t \<in> set (queue_at (tm_interval y) qs)
       then upd_queue (tm_interval y) (\<lambda>q. remove1 t q @ [t]) qs else qs) v"
    by (rule timer_refresh_ok[OF inv q na' y])
  have "not_after r now' v"
  proof (rule not_afterI[OF v(4)])
    fix i s assume "s \<in> set (queue_at i (if t \<in> set (queue_at (tm_interval y) qs)
       then upd_queue (tm_interval y) (\<lambda>q. remove1 t q @ [t]) qs else qs))"
    then have "s = t \<or> s \<in> set (queue_at i qs)"
      using notin_set_remove1 by (fastforce simp: queue_at_upd split: if_splits)
    then show "arm_time v s \<le> now'"
      using not_afterD[OF na' q] v(3) by (auto simp: arm_time_def)
  qed
  with v assms(3) show ?thesis by (simp add: timed_inv_def)
qed

lemma timer_cancel_timed:
  assumes "timed_inv r (now, w)" "timer_cancel r t w = (Ret (), w')"
  shows "timed_inv r (now, w')"
proof -
  from assms(1) obtain qs where inv: "timers_inv r w" and na: "not_after r now w" and q: "has_queues r qs w"
    using timers_inv_queues by (auto simp: timed_inv_def)
  from timer_op_pre(3)[OF q assms(2)] obtain y where y: "timers w t = Some y" "tm_tracker y = Some r"
    "tm_interval y \<in> fst ` set qs" by blast
  obtain v qs' where v: "timer_cancel r t w = (Ret (), v)" "timers_inv r v" "timers v = timers w"
    "has_queues r qs' v" "\<And>i. queue_at i qs' = remove1 t (queue_at i qs)"
    using timer_cancel_ok[OF inv q y] by blast
  have "not_after r now v"
    using not_afterD[OF na q] arm_cong[OF v(3)] set_remove1_subset
    by (intro not_afterI[OF v(4)]) (fastforce simp: v(5))
  with v assms(2) show ?thesis by (simp add: timed_inv_def)
qed

lemma expiry_timed:
  assumes "timed_inv r (now, w)" "now \<le> now'" "has_queues r qs w" "expire_all E r now' qs w = (Ret (), w')"
  shows "timed_inv r (now', w')"
proof -
  from assms(1) have inv: "timers_inv r w" and na: "not_after r now w" by (simp_all add: timed_inv_def)
  obtain qs' where q': "has_queues r qs' w'" "distinct (map fst qs')" "timers w' = timers w"
    "\<forall>i. queue_at i qs' = filter (\<lambda>t. \<not> due now' i w t) (queue_at i qs)"
    by (rule expire_all_effect[OF inv assms(3,4)])
  have rest: "\<exists>P. queue_at i qs' = filter P (queue_at i qs)" for i using q'(4) by blast
  have "queue_ok r w i (queue_at i qs)" for i by (rule timers_invD(2)[OF inv assms(3)])
  then have "queue_ok r w' i (queue_at i qs')" for i
    using rest[of i] arm_cong[OF q'(3)] by (auto simp: queue_ok_def sorted_filter q'(3))
  then have "timers_inv r w'" using q'(1,2) by (auto simp: timers_inv_def)
  moreover have "not_after r now' w'"
    using not_afterD[OF not_after_later[OF na assms(2)] assms(3)] arm_cong[OF q'(3)] q'(4)
    by (intro not_afterI[OF q'(1)]) auto
  ultimately show ?thesis by (simp add: timed_inv_def)
qed

lemma has_queues_kept: "timers_kept w w' \<Longrightarrow> has_queues r qs w' = has_queues r qs w"
  using timers_keptD by (fastforce simp: has_queues_def same_object_def)

lemma kept_timed:
  assumes "timed_inv r (now, w)" "timers_kept w w'"
  shows "timed_inv r (now, w')"
proof -
  have t: "timers w' = timers w" using assms(2) by (simp add: timers_kept_def)
  have "queue_ok r w' i q = queue_ok r w i q" for i q using t by (intro queue_ok_cong) simp
  with assms(1) has_queues_kept[OF assms(2)] arm_cong[OF t] show ?thesis
    by (simp add: timed_inv_def timers_inv_def not_after_def)
qed

lemma timer_step_inv: "timer_step E r s s' \<Longrightarrow> timed_inv r s \<Longrightarrow> timed_inv r s'"
  by (induction rule: timer_step.induct)
    (blast intro: timer_add_timed timer_refresh_timed timer_cancel_timed expiry_timed kept_timed)+

section \<open>The event handler\<close>

lemma kept_checked [keeps_intro]: "keeps timers_kept (checked E c)"
  unfolding checked_def by (intro tk.keeps_rules keeps_intro)

lemma kept_add [keeps_intro]: "keeps timers_kept (Poller_add E r fd ev)"
proof (rule keepsI)
  fix w :: world
  show "timers_kept w (snd (Poller_add E r fd ev w))"
  proof (cases "reactors w r")
    case None
    then show ?thesis
      by (simp add: Poller_add_def runIfActive_def isActive_def bindM_def getR_def run_basic timers_kept_def)
  next
    case (Some x)
    then show ?thesis by (simp add: Poller_add_eq timers_kept_def Let_def)
  qed
qed

lemma run_checked:
  "checked E c w = (let rc = os E (hist w) c; v = w\<lparr>hist := hist w @ [(c, rc)]\<rparr>
     in if c_rc rc < 0 then (Throw (SystemError (c_errno rc)), v) else (Ret rc, v))"
  by (simp add: checked_def bindM_def run_extcall run_basic Let_def)

text \<open>The time an expiry event works with: the clock is read right after the timer descriptor.\<close>

definition expiry_time :: "env \<Rightarrow> int \<Rightarrow> world \<Rightarrow> int" where
  "expiry_time E fd w = c_rc (os E (hist w @ [(ReadFD fd 8, os E (hist w) (ReadFD fd 8))]) ClockNow)"

lemma process_expires:
  assumes "has_queues r qs w" "TimeoutReactor_process E r fd w = (Ret (), w')"
  obtains u v where "timers_kept w u" "expire_all E r (expiry_time E fd w) qs u = (Ret (), v)" "timers_kept v w'"
proof -
  let ?rc = "os E (hist w) (ReadFD fd 8)"
  let ?u = "w\<lparr>hist := hist w @ [(ReadFD fd 8, ?rc), (ClockNow, os E (hist w @ [(ReadFD fd 8, ?rc)]) ClockNow)]\<rparr>"
  have k: "timers_kept w ?u" by (simp add: timers_kept_def)
  then have q: "getQ r ?u = (Ret qs, ?u)" using assms(1) by (simp add: run_getQ has_queues_kept)
  have "seqM (expire_all E r (expiry_time E fd w) qs) (Poller_add E r fd IN_EVENTS) ?u = (Ret (), w')"
    using assms(2) q
    by (simp add: TimeoutReactor_process_def bindM_def[of "checked E c" for c] bindM_def[of "extcall E c" for c]
        bindM_def[of "getQ r"] run_checked run_extcall Let_def expiry_time_def split: if_splits)
  then obtain v where "expire_all E r (expiry_time E fd w) qs ?u = (Ret (), v)"
    "Poller_add E r fd IN_EVENTS v = (Ret (), w')"
    unfolding seqM_def by (auto elim: run_bind_Ret)
  with k keepsD[OF kept_add[of E r fd IN_EVENTS], of v] show thesis by (intro that) auto
qed

lemma process_effect:
  assumes inv: "timers_inv r w" and q: "has_queues r qs w" and run: "TimeoutReactor_process E r fd w = (Ret (), w')"
  shows "\<exists>qs'. has_queues r qs' w' \<and>
    (\<forall>i. queue_at i qs' = filter (\<lambda>t. \<not> due (expiry_time E fd w) i w t) (queue_at i qs)) \<and>
    (\<forall>i t. t \<in> set (queue_at i qs) \<and> due (expiry_time E fd w) i w t \<longrightarrow> stopped t w')"
proof -
  let ?now = "expiry_time E fd w"
  obtain u v where uv: "timers_kept w u" "expire_all E r ?now qs u = (Ret (), v)" "timers_kept v w'"
    using process_expires[OF q run] .
  have inv': "timers_inv r u"
    using inv uv(1) has_queues_kept[OF uv(1)] queue_ok_cong[of _ u w r] by (simp add: timers_inv_def timers_kept_def)
  have q': "has_queues r qs u" using q has_queues_kept[OF uv(1)] by simp
  have same: "due ?now i u = due ?now i w" for i using uv(1) by (intro due_cong) (simp add: timers_kept_def)
  obtain qs' where qs': "has_queues r qs' v" "distinct (map fst qs')" "timers v = timers u"
    "\<forall>i. queue_at i qs' = filter (\<lambda>t. \<not> due ?now i u t) (queue_at i qs)"
    "\<forall>i t. t \<in> set (queue_at i qs) \<and> due ?now i u t \<longrightarrow> stopped t v"
    by (rule expire_all_effect[OF inv' q' uv(2)])
  with uv(3) have "has_queues r qs' w'" by (simp add: has_queues_kept)
  moreover have "\<forall>i t. t \<in> set (queue_at i qs) \<and> due ?now i w t \<longrightarrow> stopped t w'"
    using qs'(5) stopped_kept[OF uv(3)] by (simp add: same)
  ultimately show ?thesis using qs'(4) by (auto simp: same)
qed

section \<open>A world with timers\<close>

text \<open>A TimeoutReactor (object 0), and two timers that stop the stream reactors 1 and 2.\<close>

definition timer_world :: world where
  "timer_world = (empty_world 10)\<lparr>
     reactors := [0 \<mapsto> (new_reactor (CTimeoutReactor [(T_IDLE_CONNECTION, [])]))\<lparr>listenFD := 4\<rparr>,
                  1 \<mapsto> stream_reactor, 2 \<mapsto> stream_reactor],
     nextRid := 3,
     timers := [0 \<mapsto> \<lparr>tm_tracker = None, tm_arm = 0, tm_interval = T_IDLE_CONNECTION, tm_reactor = 1\<rparr>,
                1 \<mapsto> \<lparr>tm_tracker = None, tm_arm = 0, tm_interval = T_IDLE_CONNECTION, tm_reactor = 2\<rparr>],
     nextTM := 2\<rparr>"

definition armed_world :: world where
  "armed_world = snd (seqM (timer_add 0 0 5) (seqM (timer_add 0 1 7) (timer_refresh 0 0 240000000000)) timer_world)"

lemma timer_world_queues: "has_queues 0 [(T_IDLE_CONNECTION, [])] timer_world"
  by (simp add: has_queues_def timer_world_def new_reactor_def)

lemma timer_world_ok: "timers_inv 0 timer_world" "not_after 0 now timer_world"
proof -
  have "queue_at i [(T_IDLE_CONNECTION, [])] = []" for i by (simp add: queue_at_def)
  then show "timers_inv 0 timer_world" "not_after 0 now timer_world"
    using timer_world_queues by (auto simp: timers_inv_def queue_ok_def intro: not_afterI)
qed

lemmas timer_run = timer_add_def timer_refresh_def bindM_def seqM_def getQ_def modQ_def getTM_def modTM_def
  getR_def modR_def assertM_def run_basic timer_world_def new_reactor_def queue_at_def

lemma armed_world_eq:
  "armed_world = timer_world\<lparr>
     reactors := [0 \<mapsto> (new_reactor (CTimeoutReactor [(T_IDLE_CONNECTION, [1, 0])]))\<lparr>listenFD := 4\<rparr>,
                  1 \<mapsto> stream_reactor, 2 \<mapsto> stream_reactor],
     timers := [0 \<mapsto> \<lparr>tm_tracker = Some 0, tm_arm = 240000000000, tm_interval = T_IDLE_CONNECTION, tm_reactor = 1\<rparr>,
                1 \<mapsto> \<lparr>tm_tracker = Some 0, tm_arm = 7, tm_interval = T_IDLE_CONNECTION, tm_reactor = 2\<rparr>]\<rparr>"
  by (simp add: armed_world_def timer_run fun_upd_twist)

lemma armed_steps:
  "\<exists>u v. timer_add 0 0 5 timer_world = (Ret (), u) \<and> timer_add 0 1 7 u = (Ret (), v) \<and>
     timer_refresh 0 0 240000000000 v = (Ret (), armed_world)"
  by (simp add: timer_run armed_world_def)

lemma armed_queues: "has_queues 0 [(T_IDLE_CONNECTION, [1, 0])] armed_world"
  by (simp add: has_queues_def armed_world_def timer_run)

lemma armed_queue: "queue_at T_IDLE_CONNECTION [(T_IDLE_CONNECTION, [1, 0])] = [1, 0]"
  by (simp add: queue_at_def)

lemma armed_timers:
  "timers armed_world 0 = Some \<lparr>tm_tracker = Some 0, tm_arm = 240000000000, tm_interval = T_IDLE_CONNECTION, tm_reactor = 1\<rparr>"
  "timers armed_world 1 = Some \<lparr>tm_tracker = Some 0, tm_arm = 7, tm_interval = T_IDLE_CONNECTION, tm_reactor = 2\<rparr>"
  by (simp_all add: armed_world_def timer_run)

lemma armed_inv: "timers_inv 0 armed_world"
proof -
  have "queue_at i [(T_IDLE_CONNECTION, [1, 0])] = (if i = T_IDLE_CONNECTION then [1, 0] else [])" for i
    by (simp add: queue_at_def)
  moreover have "queue_ok 0 armed_world T_IDLE_CONNECTION [1, 0]"
    by (simp add: queue_ok_def arm_time_def armed_timers armed_timers(2)[simplified])
  ultimately have "\<forall>i. queue_ok 0 armed_world i (queue_at i [(T_IDLE_CONNECTION, [1, 0])])"
    by (simp add: queue_ok_def[of _ _ _ "[]"])
  then show ?thesis unfolding timers_inv_def using armed_queues by fastforce
qed

section \<open>What the timers guarantee\<close>



text \<open>
  C19: looking at the front is enough. On ordered queues the loop of the expiry handler, which stops
  at the first timer that is not due, triggers exactly the timers a scan of the whole queue finds due.
\<close>

theorem expiry_front_suffices:
  assumes "timers_inv r w" and "has_queues r qs w"
  shows "expire_all E r now qs w = trigger_lists E r (map (\<lambda>(i, q). (i, filter (due now i w) q)) qs) w"
proof (rule expire_all_due)
  have "queue_at i qs = q" if "(i, q) \<in> set qs" for i q
    using that timers_invD(1)[OF assms] by (simp add: queue_at_def)
  with timers_invD(2)[OF assms] have "queue_ok r w i q" if "(i, q) \<in> set qs" for i q using that by metis
  then have "sorted (map (arm_time w) q) \<and> (\<forall>t \<in> set q. timers w t \<noteq> None)" if "(i, q) \<in> set qs" for i q
    using that by (fastforce simp: queue_ok_def)
  then show "\<forall>(i, q) \<in> set qs. sorted (map (arm_time w) q) \<and> (\<forall>t \<in> set q. timers w t \<noteq> None)"
    by blast
qed

theorem expiry_front_suffices_witness:
  "expire_all (scenario []) 0 240000000007 [(T_IDLE_CONNECTION, [1, 0])] armed_world =
     trigger_lists (scenario []) 0 [(T_IDLE_CONNECTION, [1])] armed_world"
proof -
  have "filter (due 240000000007 T_IDLE_CONNECTION armed_world) [1, 0] = [1]"
    by (simp add: due_def arm_time_def armed_timers armed_timers(2)[simplified] millis_def T_IDLE_CONNECTION_def)
  with expiry_front_suffices[OF armed_inv armed_queues, of "scenario []" 240000000007] show ?thesis by simp
qed



end
