(* ===== verification/Supplication.thy ===== *)
theory Supplication
  imports Proxifier
begin

text \<open>
  The protocol around \<open>supplicationLock\<close>, as a step relation on the program's state. Its steps are
  the operations of the code that touch the lock: a new connection that tries to become the
  supplicant, the start of the proxifier, the reply that a pending supplicant receives, the death
  of a supplicant, and the end of a session. In every reachable state at most one supplicant is
  pending, and the lock is held exactly while one is; so the lock is never lost.
\<close>

section \<open>States and steps\<close>

definition is_proxifier :: "rid \<Rightarrow> proxifier_data \<Rightarrow> world \<Rightarrow> bool" where
  "is_proxifier p d w \<longleftrightarrow> (\<exists>x. reactors w p = Some x \<and> cls x = CProxifier d)"

definition pending :: "rid \<Rightarrow> world \<Rightarrow> nat set" where
  "pending p w = {s. \<exists>x. supplicants w s = Some x \<and> sp_proxifier x = p \<and> \<not> sp_done x}"

inductive supplication :: "env \<Rightarrow> rid \<Rightarrow> world \<Rightarrow> world \<Rightarrow> bool" for E p where
  connection: "acquire_supplicant p w = (Ret s, w') \<Longrightarrow> supplication E p w w'"
| start: "seqM (supplicationLock_lock p) (SessionSupplicant_new p) w = (Ret s, w') \<Longrightarrow> supplication E p w w'"
| reply: "s \<in> pending p w \<Longrightarrow> supplicant_process_reply E s rep w = (Ret (), w') \<Longrightarrow> supplication E p w w'"
| death: "SessionSupplicant_destroy s w = (Ret (), w') \<Longrightarrow> s \<in> dom (supplicants w) \<Longrightarrow>
    sp_proxifier (the (supplicants w s)) = p \<Longrightarrow> supplication E p w w'"
| rejected: "killSession p session w = (Ret (), w') \<Longrightarrow> supplication E p w w'"

definition sup_inv :: "rid \<Rightarrow> world \<Rightarrow> bool" where
  "sup_inv p w \<longleftrightarrow> (\<forall>s. supplicants w s \<noteq> None \<longrightarrow> s < nextSP w) \<and>
     (\<exists>d. is_proxifier p d w \<and> (if pf_supplicationLock d then \<exists>s. pending p w = {s} else pending p w = {}))"

section \<open>Running the operations\<close>

lemma run_getPF: "is_proxifier p d w \<Longrightarrow> getPF p w = (Ret d, w)"
  by (auto simp: is_proxifier_def getPF_def bindM_def run_getR run_basic)

lemma is_proxifier_unique: "is_proxifier p d w \<Longrightarrow> is_proxifier p d' w \<Longrightarrow> d' = d"
  by (auto simp: is_proxifier_def)

lemma run_modPF:
  assumes "is_proxifier p d w"
  obtains w' where "modPF p f w = (Ret (), w')" "is_proxifier p (f d) w'"
    "supplicants w' = supplicants w" "nextSP w' = nextSP w" "csessions w' = csessions w" "hist w' = hist w"
  using assms by (auto simp: is_proxifier_def modPF_def run_modR)

lemma pending_cong: "supplicants w' = supplicants w \<Longrightarrow> pending p w' = pending p w"
  by (simp add: pending_def)

lemma run_supplicantDone:
  assumes "is_proxifier p d w"
  obtains w' where "supplicantDone p w = (Ret (), w')" "is_proxifier p (d\<lparr>pf_supplicationLock := False\<rparr>) w'"
    "supplicants w' = supplicants w" "nextSP w' = nextSP w"
  unfolding supplicantDone_def using run_modPF[OF assms] by metis

text \<open>Adding a supplicant when none is pending, and taking the pending one away.\<close>

lemma sup_inv_new:
  assumes "\<forall>s. supplicants w s \<noteq> None \<longrightarrow> s < nextSP w" "pending p w = {}" "is_proxifier p d w"
    "pf_supplicationLock d"
  shows "sup_inv p (w\<lparr>supplicants := (supplicants w)(nextSP w \<mapsto> \<lparr>sp_proxifier = p, sp_done = False\<rparr>),
    nextSP := Suc (nextSP w)\<rparr>)" (is "sup_inv p ?w")
proof -
  have "pending p ?w = {nextSP w}" using assms(2) by (auto simp: pending_def split: if_splits)
  moreover have "is_proxifier p d ?w" using assms(3) by (simp add: is_proxifier_def)
  moreover have "\<forall>s. supplicants ?w s \<noteq> None \<longrightarrow> s < nextSP ?w" using assms(1) by (auto simp: less_Suc_eq)
  ultimately show ?thesis using assms(4) by (auto simp: sup_inv_def)
qed

lemma sup_inv_free:
  assumes "\<forall>s. supplicants w s \<noteq> None \<longrightarrow> s < nextSP w" "pending p w = {}" "is_proxifier p d w"
    "\<not> pf_supplicationLock d"
  shows "sup_inv p w"
  using assms by (auto simp: sup_inv_def)

lemma acquire_cases:
  assumes d: "is_proxifier p d w"
  obtains
    (busy) "pf_supplicationLock d" "acquire_supplicant p w = (Ret None, w)"
  | (known) w' where "\<not> pf_supplicationLock d" "pf_session d \<noteq> None" "acquire_supplicant p w = (Ret None, w')"
      "is_proxifier p d w'" "supplicants w' = supplicants w" "nextSP w' = nextSP w"
  | (fresh) v where "\<not> pf_supplicationLock d" "pf_session d = None"
      "is_proxifier p (d\<lparr>pf_supplicationLock := True\<rparr>) v" "supplicants v = supplicants w" "nextSP v = nextSP w"
      "acquire_supplicant p w = (Ret (Some (nextSP w)), v\<lparr>supplicants := (supplicants v)(nextSP v \<mapsto>
         \<lparr>sp_proxifier = p, sp_done = False\<rparr>), nextSP := Suc (nextSP v)\<rparr>)"
proof (cases "pf_supplicationLock d")
  case True
  then show thesis
    by (intro busy) (simp_all add: acquire_supplicant_def supplicationLock_try_lock_def bindM_def
        run_getPF[OF d] run_basic)
next
  case False
  obtain v where v: "modPF p (\<lambda>d. d\<lparr>pf_supplicationLock := True\<rparr>) w = (Ret (), v)"
    "is_proxifier p (d\<lparr>pf_supplicationLock := True\<rparr>) v" "supplicants v = supplicants w" "nextSP v = nextSP w"
    using run_modPF[OF d, of "\<lambda>d. d\<lparr>pf_supplicationLock := True\<rparr>"] by metis
  have lock: "supplicationLock_try_lock p w = (Ret True, v)"
    using False v(1) by (simp add: supplicationLock_try_lock_def bindM_def seqM_def run_getPF[OF d] run_basic)
  show thesis
  proof (cases "pf_session d")
    case None
    then have "acquire_supplicant p w = (Ret (Some (nextSP w)), v\<lparr>supplicants := (supplicants v)(nextSP v \<mapsto>
         \<lparr>sp_proxifier = p, sp_done = False\<rparr>), nextSP := Suc (nextSP v)\<rparr>)"
      using v(4) by (simp add: acquire_supplicant_def bindM_def lock Proxifier_getSession_def
          run_getPF[OF v(2)] run_basic SessionSupplicant_new_def)
    with False None v show thesis by (intro fresh)
  next
    case (Some c)
    obtain u where u: "supplicantDone p v = (Ret (), u)" "is_proxifier p (d\<lparr>pf_supplicationLock := False\<rparr>) u"
      "supplicants u = supplicants v" "nextSP u = nextSP v"
      using run_supplicantDone[OF v(2)] by auto
    have "acquire_supplicant p w = (Ret None, u)"
      using Some u(1) by (simp add: acquire_supplicant_def bindM_def seqM_def lock Proxifier_getSession_def
          run_getPF[OF v(2)] run_basic)
    moreover have eq: "d\<lparr>pf_supplicationLock := False\<rparr> = d" using False by simp
    ultimately show thesis using False Some u(3,4) u(2)[unfolded eq] v by (intro known[of u]) auto
  qed
qed

lemma start_step:
  assumes d: "is_proxifier p d w" and run: "seqM (supplicationLock_lock p) (SessionSupplicant_new p) w = (Ret s, w')"
  obtains v where "\<not> pf_supplicationLock d" "is_proxifier p (d\<lparr>pf_supplicationLock := True\<rparr>) v"
    "supplicants v = supplicants w" "nextSP v = nextSP w"
    "w' = v\<lparr>supplicants := (supplicants v)(nextSP v \<mapsto> \<lparr>sp_proxifier = p, sp_done = False\<rparr>),
       nextSP := Suc (nextSP v)\<rparr>"
proof -
  obtain v where v: "modPF p (\<lambda>d. d\<lparr>pf_supplicationLock := True\<rparr>) w = (Ret (), v)"
    "is_proxifier p (d\<lparr>pf_supplicationLock := True\<rparr>) v" "supplicants v = supplicants w" "nextSP v = nextSP w"
    using run_modPF[OF d, of "\<lambda>d. d\<lparr>pf_supplicationLock := True\<rparr>"] by metis
  have free: "\<not> pf_supplicationLock d"
    using run by (auto simp: seqM_def bindM_def supplicationLock_lock_def run_getPF[OF d] run_basic)
  then have "w' = v\<lparr>supplicants := (supplicants v)(nextSP v \<mapsto> \<lparr>sp_proxifier = p, sp_done = False\<rparr>),
       nextSP := Suc (nextSP v)\<rparr>"
    using run v(1) by (auto simp: seqM_def bindM_def supplicationLock_lock_def run_getPF[OF d] SessionSupplicant_new_def)
  with free v show thesis by (intro that)
qed

text \<open>Both ends of a supplicant: the lock is released, and it is no longer pending.\<close>

lemma run_setSP: "setSP s y w = (Ret (), w\<lparr>supplicants := (supplicants w)(s := y)\<rparr>)"
  by (simp add: setSP_def run_basic)

lemma run_getSP: "supplicants w s = Some x \<Longrightarrow> getSP s w = (Ret x, w)"
  by (simp add: getSP_def)

lemma is_proxifier_supplicants [simp]: "is_proxifier p d (w\<lparr>supplicants := sp\<rparr>) = is_proxifier p d w"
  by (simp add: is_proxifier_def)

lemma run_newSession:
  assumes d: "is_proxifier p d w"
  shows "\<exists>w' so. (case av_sessionID rep of None \<Rightarrow> ret ()
      | Some sid \<Rightarrow> bindM (ClientSession_new E sid (av_untrusted rep) (av_advertised rep)) (setSession p)) w = (Ret (), w') \<and>
    is_proxifier p (d\<lparr>pf_session := so\<rparr>) w' \<and> supplicants w' = supplicants w \<and> nextSP w' = nextSP w \<and>
    (av_sessionID rep = None \<longrightarrow> so = pf_session d) \<and> (av_sessionID rep \<noteq> None \<longrightarrow> so \<noteq> None)"
proof (cases "av_sessionID rep")
  case None
  have "d\<lparr>pf_session := pf_session d\<rparr> = d" by simp
  with None d show ?thesis by (intro exI[of _ w] exI[of _ "pf_session d"]) (simp add: run_basic)
next
  case (Some sid)
  obtain c v where v: "ClientSession_new E sid (av_untrusted rep) (av_advertised rep) w = (Ret c, v)"
    "reactors v = reactors w" "supplicants v = supplicants w" "nextSP v = nextSP w"
    by (cases "snd (av_advertised rep) > 0")
      (auto simp: ClientSession_new_def newCS_def bindM_def run_basic run_extcall)
  from d v(2) have "is_proxifier p d v" by (simp add: is_proxifier_def)
  then obtain w' where "modPF p (\<lambda>d. d\<lparr>pf_session := Some c\<rparr>) v = (Ret (), w')"
    "is_proxifier p (d\<lparr>pf_session := Some c\<rparr>) w'" "supplicants w' = supplicants v" "nextSP w' = nextSP v"
    using run_modPF[where f = "\<lambda>d. d\<lparr>pf_session := Some c\<rparr>"] by metis
  with v Some show ?thesis
    by (intro exI[of _ w'] exI[of _ "Some c"]) (simp add: bindM_def setSession_def)
qed

lemma reply_ends:
  assumes d: "is_proxifier p d w" and x: "supplicants w s = Some x" "sp_proxifier x = p"
  obtains w' so where "supplicant_process_reply E s rep w = (Ret (), w')"
    "is_proxifier p (d\<lparr>pf_session := so, pf_supplicationLock := False\<rparr>) w'"
    "supplicants w' = (supplicants w)(s \<mapsto> x\<lparr>sp_done := True\<rparr>)" "nextSP w' = nextSP w"
    "av_sessionID rep = None \<Longrightarrow> so = pf_session d" "av_sessionID rep \<noteq> None \<Longrightarrow> so \<noteq> None"
proof -
  from run_newSession[OF d, of E rep] obtain v so where v: "(case av_sessionID rep of None \<Rightarrow> ret ()
      | Some sid \<Rightarrow> bindM (ClientSession_new E sid (av_untrusted rep) (av_advertised rep)) (setSession p)) w = (Ret (), v)"
    "is_proxifier p (d\<lparr>pf_session := so\<rparr>) v" "supplicants v = supplicants w" "nextSP v = nextSP w"
    "av_sessionID rep = None \<longrightarrow> so = pf_session d" "av_sessionID rep \<noteq> None \<longrightarrow> so \<noteq> None" by (elim exE conjE)
  from run_supplicantDone[OF v(2)] obtain u where u: "supplicantDone p v = (Ret (), u)"
    "is_proxifier p (d\<lparr>pf_session := so, pf_supplicationLock := False\<rparr>) u"
    "supplicants u = supplicants v" "nextSP u = nextSP v" by auto
  define m where "m = (case av_sessionID rep of None \<Rightarrow> ret ()
      | Some sid \<Rightarrow> bindM (ClientSession_new E sid (av_untrusted rep) (av_advertised rep)) (setSession p))"
  have m: "m w = (Ret (), v)" using v(1) by (simp add: m_def)
  have "supplicant_process_reply E s rep w = seqM m (seqM (supplicantDone p)
      (setSP s (Some (x\<lparr>sp_done := True\<rparr>)))) w"
    using x by (simp add: supplicant_process_reply_def bindM_def[of "getSP s"] run_getSP m_def cong: option.case_cong)
  then have "supplicant_process_reply E s rep w =
      (Ret (), u\<lparr>supplicants := (supplicants u)(s \<mapsto> x\<lparr>sp_done := True\<rparr>)\<rparr>)"
    by (simp add: seqM_def bindM_def m u(1) run_setSP)
  with u v show thesis
    by (intro that[of "u\<lparr>supplicants := (supplicants u)(s \<mapsto> x\<lparr>sp_done := True\<rparr>)\<rparr>" so]) simp_all
qed

lemma death_ends:
  assumes d: "is_proxifier p d w" and x: "supplicants w s = Some x" "sp_proxifier x = p"
  obtains w' where "SessionSupplicant_destroy s w = (Ret (), w')"
    "is_proxifier p (if sp_done x then d else d\<lparr>pf_supplicationLock := False\<rparr>) w'"
    "supplicants w' = (supplicants w)(s := None)" "nextSP w' = nextSP w"
proof (cases "sp_done x")
  case True
  with d x show thesis
    by (intro that[of "w\<lparr>supplicants := (supplicants w)(s := None)\<rparr>"])
      (simp_all add: SessionSupplicant_destroy_def bindM_def seqM_def getSP_def run_basic run_setSP)
next
  case False
  from run_supplicantDone[OF d] obtain u where u: "supplicantDone p w = (Ret (), u)"
    "is_proxifier p (d\<lparr>pf_supplicationLock := False\<rparr>) u" "supplicants u = supplicants w" "nextSP u = nextSP w" by auto
  with False x show thesis
    by (intro that[of "u\<lparr>supplicants := (supplicants u)(s := None)\<rparr>"])
      (simp_all add: SessionSupplicant_destroy_def bindM_def seqM_def getSP_def run_setSP)
qed

section \<open>The invariant\<close>

lemma sup_invD:
  assumes "sup_inv p w" "is_proxifier p d w"
  shows "if pf_supplicationLock d then \<exists>s. pending p w = {s} else pending p w = {}"
    "\<forall>s. supplicants w s \<noteq> None \<longrightarrow> s < nextSP w"
  using assms is_proxifier_unique unfolding sup_inv_def by blast+

text \<open>Each kind of step keeps the invariant.\<close>

lemma sup_inv_fresh:
  assumes "sup_inv p w" "is_proxifier p d w" "\<not> pf_supplicationLock d"
    "is_proxifier p (d\<lparr>pf_supplicationLock := True\<rparr>) v" "supplicants v = supplicants w" "nextSP v = nextSP w"
  shows "sup_inv p (v\<lparr>supplicants := (supplicants v)(nextSP v \<mapsto> \<lparr>sp_proxifier = p, sp_done = False\<rparr>),
     nextSP := Suc (nextSP v)\<rparr>)"
proof -
  have "pending p v = {}" "\<forall>s. supplicants v s \<noteq> None \<longrightarrow> s < nextSP v"
    using assms sup_invD[OF assms(1,2)] by (auto simp: pending_def)
  with assms(4) sup_inv_new[of v p "d\<lparr>pf_supplicationLock := True\<rparr>"] show ?thesis by simp
qed

lemma sup_inv_connection:
  assumes "sup_inv p w" "is_proxifier p d w" "acquire_supplicant p w = (Ret s, w')"
  shows "sup_inv p w'"
  using assms(2)
proof (cases rule: acquire_cases)
  case busy
  with assms show ?thesis by simp
next
  case (known v)
  with assms(3) sup_invD[OF assms(1,2)] show ?thesis by (intro sup_inv_free[of w' p d]) (auto simp: pending_def)
next
  case (fresh v)
  then have "w' = v\<lparr>supplicants := (supplicants v)(nextSP v \<mapsto> \<lparr>sp_proxifier = p, sp_done = False\<rparr>),
     nextSP := Suc (nextSP v)\<rparr>" using assms(3) by simp
  with fresh sup_inv_fresh[OF assms(1,2)] show ?thesis by simp
qed

lemma sup_inv_start:
  assumes "sup_inv p w" "is_proxifier p d w" "seqM (supplicationLock_lock p) (SessionSupplicant_new p) w = (Ret s, w')"
  shows "sup_inv p w'"
  using start_step[OF assms(2,3)] sup_inv_fresh[OF assms(1,2)] by blast

lemma sup_inv_reply:
  assumes "sup_inv p w" "is_proxifier p d w" "s \<in> pending p w" "supplicant_process_reply E s rep w = (Ret (), w')"
  shows "sup_inv p w'"
proof -
  note inv = sup_invD[OF assms(1,2)]
  from assms(3) obtain x where x: "supplicants w s = Some x" "sp_proxifier x = p" "\<not> sp_done x"
    by (auto simp: pending_def)
  have only: "pending p w = {s}" using inv(1) assms(3) by (auto split: if_splits)
  from reply_ends[OF assms(2) x(1,2)] assms(4) obtain so where
    "is_proxifier p (d\<lparr>pf_session := so, pf_supplicationLock := False\<rparr>) w'"
    "supplicants w' = (supplicants w)(s \<mapsto> x\<lparr>sp_done := True\<rparr>)" "nextSP w' = nextSP w"
    by (metis prod.inject)
  moreover from this only have "pending p w' = {}" by (auto simp: pending_def split: if_splits)
  ultimately show ?thesis using inv(2) x(1) by (intro sup_inv_free) (auto split: if_splits)
qed

lemma sup_inv_death:
  assumes "sup_inv p w" "is_proxifier p d w" "SessionSupplicant_destroy s w = (Ret (), w')"
    "supplicants w s = Some x" "sp_proxifier x = p"
  shows "sup_inv p w'"
proof -
  note inv = sup_invD[OF assms(1,2)]
  from death_ends[OF assms(2,4,5)] assms(3)
  have w': "is_proxifier p (if sp_done x then d else d\<lparr>pf_supplicationLock := False\<rparr>) w'"
    "supplicants w' = (supplicants w)(s := None)" "nextSP w' = nextSP w" by (metis prod.inject)+
  then have p: "pending p w' = pending p w - {s}" by (auto simp: pending_def split: if_splits)
  have below: "\<forall>t. supplicants w' t \<noteq> None \<longrightarrow> t < nextSP w'" using inv(2) w'(2,3) by auto
  show ?thesis
  proof (cases "sp_done x")
    case True
    then have "s \<notin> pending p w" using assms(4) by (auto simp: pending_def)
    with p have "pending p w' = pending p w" by auto
    with True w' inv(1) below show ?thesis by (auto simp: sup_inv_def)
  next
    case False
    then have "s \<in> pending p w" using assms(4,5) by (auto simp: pending_def)
    then have "pending p w = {s}" using inv(1) by (auto split: if_splits)
    with p w'(1) False below show ?thesis by (intro sup_inv_free) auto
  qed
qed

lemma sup_inv_rejected:
  assumes "sup_inv p w" "is_proxifier p d w" "killSession p session w = (Ret (), w')"
  shows "sup_inv p w'"
proof -
  let ?f = "\<lambda>d. if session = pf_session d then d\<lparr>pf_session := None\<rparr> else d"
  from run_modPF[OF assms(2), of ?f] assms(3)
  have w': "is_proxifier p (?f d) w'" "supplicants w' = supplicants w" "nextSP w' = nextSP w"
    by (metis killSession_def prod.inject)+
  have "pending p w' = pending p w" using w'(2) by (rule pending_cong)
  with sup_invD[OF assms(1,2)] w' show ?thesis
    unfolding sup_inv_def by (intro conjI exI[of _ "?f d"]) auto
qed

lemma supplication_inv:
  assumes "supplication E p w w'" "sup_inv p w"
  shows "sup_inv p w'"
proof -
  from assms(2) obtain d where "is_proxifier p d w" by (auto simp: sup_inv_def)
  note steps = sup_inv_connection[OF assms(2) this] sup_inv_start[OF assms(2) this] sup_inv_reply[OF assms(2) this]
    sup_inv_death[OF assms(2) this] sup_inv_rejected[OF assms(2) this]
  from assms(1) show ?thesis by cases (use steps in \<open>auto 0 3\<close>)
qed

lemma supplication_reachable: "(supplication E p)\<^sup>*\<^sup>* w w' \<Longrightarrow> sup_inv p w \<Longrightarrow> sup_inv p w'"
  by (induction rule: rtranclp_induct) (auto intro: supplication_inv)

end
