(* ===== verification/Client.thy ===== *)
theory Client
  imports ClientPath Supplication Scenario
begin

text \<open>
  What the client side guarantees: the proxy is sent the request and then the client's data, at most
  one connection at a time asks for a session, and whoever asks gives the right to ask back.
\<close>

section \<open>A world with a proxifier\<close>

definition scenario_proxifier :: proxifier_data where
  "scenario_proxifier = \<lparr>pf_proxyAddr = \<lparr>sa_addr = IPv4 0x0A000002, sa_port = 1080\<rparr>, pf_defer = False,
     pf_username = ''user'', pf_password = ''secret'', pf_session = None, pf_supplicationLock = False,
     pf_clientCtx = None\<rparr>"

definition scenario_client :: proxifierup_data where
  "scenario_client = \<lparr>xu_proxifier = 0, xu_state = XU_CONNECTING, xu_session = None,
     xu_dest = \<lparr>sa_addr = IPv4 0x0A000003, sa_port = 80\<rparr>, xu_supplicant = None\<rparr>"

definition client_reactor :: reactor where
  "client_reactor = (new_reactor (CProxifierUpstreamer scenario_client))
     \<lparr>srcSock := \<lparr>sk_fd = 7, sk_tls = None\<rparr>, dstSock := \<lparr>sk_fd = 8, sk_tls = None\<rparr>,
      buf := new_buffer\<lparr>head := HEADROOM, tail := HEADROOM\<rparr>\<rparr>"

definition client_world :: world where
  "client_world = (empty_world 10)\<lparr>
     reactors := [0 \<mapsto> (new_reactor (CProxifier scenario_proxifier))\<lparr>listenFD := 3\<rparr>, 1 \<mapsto> client_reactor],
     nextRid := 2\<rparr>"

lemma client_world_simps:
  "reactors client_world 1 = Some client_reactor" "sb_ok (buf client_reactor)" "contents (buf client_reactor) = []"
  "sk_tls (dstSock client_reactor) = None" "1 < nextRid client_world" "srcSock client_reactor = \<lparr>sk_fd = 7, sk_tls = None\<rparr>"
  "dstSock client_reactor = \<lparr>sk_fd = 8, sk_tls = None\<rparr>" "hist client_world = []"
  by (simp_all add: client_world_def client_reactor_def new_reactor_def empty_world_def sb_ok_def BUF_SIZE_def
      HEADROOM_def contents_def usedSize_def)

lemma scenario_client_fields [simp]:
  "recommend (scenario as) req tls n = \<lparr>rec_useToken = False, rec_tfoPayload = 0, rec_earlyData = False\<rparr>"
  "packRequest (scenario as) req k = (if k = 0 then Inl EndOfBufferException else Inr [6])"
  by (simp_all add: scenario_def)

lemma client_start_returns:
  "\<exists>v. ProxifierUpstreamer_start (scenario [delivers [1, 2], failed EINVAL, returns 0, returns 0]) 1 client_world = (Ret (), v)"
  by (simp add: ProxifierUpstreamer_start_def ProxifierUpstreamer_request_def run_simps stream_simps buffer_simps
      scenario_simps getXU_def getPF_def client_world_def client_reactor_def scenario_client_def
      scenario_proxifier_def getCredentials_def sockConnect_def tcpConnect_def StreamReactor_start_def Let_def
      HEADROOM_def prepend_def makeHeadroom_def)

section \<open>The stream to the proxy\<close>




definition long_request_scenario :: "cret list \<Rightarrow> env" where
  "long_request_scenario as = (scenario as)\<lparr>packRequest := (\<lambda>_ _. Inr (replicate 256 6))\<rparr>"

lemma long_request_fields [simp]:
  "os (long_request_scenario as) = os (scenario as)" "recommend (long_request_scenario as) = recommend (scenario as)"
  "saFamily (long_request_scenario as) = saFamily (scenario as)" "io_ok (long_request_scenario as)"
  "packRequest (long_request_scenario as) req k = Inr (replicate 256 6)"
proof -
  show "io_ok (long_request_scenario as)"
    using scenario_io_ok[of as] unfolding io_ok_def long_request_scenario_def by simp
qed (simp_all add: long_request_scenario_def)


section \<open>Asking for a session\<close>


lemma client_world_proxifier: "is_proxifier 0 scenario_proxifier client_world"
  by (simp add: is_proxifier_def client_world_def new_reactor_def)

lemma client_world_inv: "sup_inv 0 client_world"
proof -
  have "supplicants client_world = Map.empty" by (simp add: client_world_def empty_world_def)
  moreover have "\<not> pf_supplicationLock scenario_proxifier" by (simp add: scenario_proxifier_def)
  ultimately show ?thesis
    unfolding sup_inv_def pending_def using client_world_proxifier by (auto intro!: exI[of _ scenario_proxifier])
qed


text \<open>
  C21: the right to ask is given back. Whoever holds the lock, both ways its supplicant can end
  release it: when it dies unanswered the next connection asks; when it is answered, the next
  connection asks exactly if the answer brought no session.
\<close>

theorem supplication_released:
  assumes "is_proxifier p d w" and "pf_session d = None" and "s \<in> pending p w"
  shows "(\<exists>w1 s' w2. SessionSupplicant_destroy s w = (Ret (), w1) \<and>
      acquire_supplicant p w1 = (Ret (Some s'), w2) \<and> s' \<in> pending p w2) \<and>
    (\<forall>rep. \<exists>w1 a w2. supplicant_process_reply E s rep w = (Ret (), w1) \<and>
      acquire_supplicant p w1 = (Ret a, w2) \<and> (a = None \<longleftrightarrow> av_sessionID rep \<noteq> None))"
proof (intro conjI allI)
  from assms(3) obtain x where x: "supplicants w s = Some x" "sp_proxifier x = p" "\<not> sp_done x"
    by (auto simp: pending_def)
  obtain w1 where w1: "SessionSupplicant_destroy s w = (Ret (), w1)"
    "is_proxifier p (d\<lparr>pf_supplicationLock := False\<rparr>) w1"
    using death_ends[OF assms(1) x(1,2)] x(3) by metis
  show "\<exists>w1 s' w2. SessionSupplicant_destroy s w = (Ret (), w1) \<and>
      acquire_supplicant p w1 = (Ret (Some s'), w2) \<and> s' \<in> pending p w2"
    by (rule acquire_cases[OF w1(2)]) (use w1(1) assms(2) in \<open>auto simp: pending_def\<close>)
  fix rep
  obtain w1 so where w1: "supplicant_process_reply E s rep w = (Ret (), w1)"
    "is_proxifier p (d\<lparr>pf_session := so, pf_supplicationLock := False\<rparr>) w1"
    "av_sessionID rep = None \<longrightarrow> so = pf_session d" "av_sessionID rep \<noteq> None \<longrightarrow> so \<noteq> None"
    using reply_ends[OF assms(1) x(1,2), of E rep] by metis
  show "\<exists>w1 a w2. supplicant_process_reply E s rep w = (Ret (), w1) \<and>
      acquire_supplicant p w1 = (Ret a, w2) \<and> (a = None \<longleftrightarrow> av_sessionID rep \<noteq> None)"
    by (rule acquire_cases[OF w1(2)]) (use w1 assms(2) in auto)
qed

definition pending_world :: world where
  "pending_world = snd (acquire_supplicant 0 client_world)"

lemma pending_world_ok:
  "is_proxifier 0 (scenario_proxifier\<lparr>pf_supplicationLock := True\<rparr>) pending_world" "0 \<in> pending 0 pending_world"
  by (rule acquire_cases[OF client_world_proxifier];
      auto simp: pending_world_def scenario_proxifier_def pending_def client_world_def empty_world_def is_proxifier_def)+

theorem supplication_released_witness:
  "\<exists>w1 s' w2. SessionSupplicant_destroy 0 pending_world = (Ret (), w1) \<and>
      acquire_supplicant 0 w1 = (Ret (Some s'), w2) \<and> s' \<in> pending 0 w2"
  using supplication_released[OF pending_world_ok(1) _ pending_world_ok(2)] by (simp add: scenario_proxifier_def)

end
