(* ===== verification/Sessions.thy ===== *)
theory Sessions
  imports Scenario
begin

text \<open>
  What the server's sessions guarantee over time (\<^verbatim>\<open>proxy/authutil.cc\<close>, \<^verbatim>\<open>proxy/proxy.cc\<close>,
  \<^verbatim>\<open>proxy/serversession.hh\<close>): a session that was granted can be resumed, sessions get different
  identifiers, and an authentication returns whenever the random numbers allow it.
\<close>

section \<open>Granting and resuming\<close>

lemma idempotence_opts:
  assumes "authenticate_idempotence E opts reply (Some s) w = (Ret rep, w')"
  shows "SessionSetID raw \<in> set (ar_opts rep) \<longleftrightarrow> SessionSetID raw \<in> set (ar_opts reply)"
    "SessionOK \<in> set (ar_opts rep) \<longleftrightarrow> SessionOK \<in> set (ar_opts reply)"
  using assms by (auto simp: authenticate_idempotence_def seqM_def bindM_def signal_def set_code_def run_basic
      split: prod.splits outcome.splits option.splits if_splits)

lemma granted_known:
  assumes ok: "sessions_ok p w" and run: "authenticate E rq p w = (Ret rep, v)"
    and granted: "SessionSetID raw \<in> set (ar_opts rep)"
  obtains sid s x where "raw = u64_bytes sid" "session_known p sid s x v"
proof -
  from ok obtain d where d: "is_proxy p d w" by (auto simp: sessions_ok_def)
  then show thesis
  proof (cases rule: authenticate_cases[where E = E and opts = rq])
    case (resumed raw' s)
    with run have "authenticate_idempotence E rq (failure_reply [SessionOK]) (Some s) w = (Ret rep, v)" by simp
    from idempotence_opts(1)[OF this] granted show thesis by simp
  next
    case (spawned s sid u)
    with run have i: "authenticate_idempotence E rq
        (failure_reply (password_opts d rq @ [SessionSetID (u64_bytes sid)])) (Some s) u = (Ret rep, v)" by simp
    from idempotence_opts(1)[OF this] granted have "raw = u64_bytes sid"
      by (auto simp: password_opts_def split: option.splits)
    moreover obtain rep' v' x' where "authenticate_idempotence E rq
        (failure_reply (password_opts d rq @ [SessionSetID (u64_bytes sid)])) (Some s) u = (Ret rep', v')"
      "reactors v' = reactors u" "ssessions v' = (ssessions u)(s \<mapsto> x')"
      by (rule idempotence_run[OF spawned(6),
            of "failure_reply (password_opts d rq @ [SessionSetID (u64_bytes sid)])" E rq]) simp_all
    ultimately show thesis
      using i spawned(5) by (intro that[of sid s x']) (auto simp: session_known_def is_proxy_def)
  qed (use run granted in \<open>auto simp: password_opts_def split: option.splits\<close>)
qed

lemma authenticate_all_sound:
  "sessions_ok p w \<Longrightarrow> authenticate_all E p rqs w = (Ret reps, w') \<Longrightarrow> sessions_ok p w' \<and> keeps_sessions p w w'"
proof (induction rqs arbitrary: w reps)
  case (Cons rq rqs)
  from Cons.prems(2) obtain rep v reps' where step: "authenticate E rq p w = (Ret rep, v)"
    "authenticate_all E p rqs v = (Ret reps', w')" by (rule authenticate_all_Cons)
  with authenticate_sound[OF Cons.prems(1) step(1)] Cons.IH[of v reps'] show ?case
    by (auto intro: ks.R_trans)
qed (auto simp: run_basic ks.R_refl)

lemma known_resumes:
  assumes "sessions_ok p w" "session_known p sid s x w" "rq_sessionID rq = Some (u64_bytes sid)" "rq_token rq = None"
  obtains rep w' where "authenticate E rq p w = (Ret rep, w')" "ar_code rep = SOCKS6_AUTH_REPLY_SUCCESS"
    "SessionOK \<in> set (ar_opts rep)"
proof -
  from assms(2) obtain d where d: "is_proxy p d w" and s: "px_sessions d sid = Some s" and x: "ssessions w s = Some x"
    by (auto simp: session_known_def)
  from d have eq: "authenticate E rq p w = authenticate_idempotence E rq (failure_reply [SessionOK]) (Some s) w"
    by (cases rule: authenticate_cases[where E = E and opts = rq]) (use s assms(3) in auto)
  obtain rep w' where run: "authenticate_idempotence E rq (failure_reply [SessionOK]) (Some s) w = (Ret rep, w')"
    "ar_code rep = SOCKS6_AUTH_REPLY_SUCCESS"
    by (rule idempotence_run[OF x, of "failure_reply [SessionOK]" E rq]) (use assms(4) in auto)
  with idempotence_opts(2)[OF run(1)] eq show thesis by (intro that) auto
qed


definition session_request :: request where
  "session_request = scenario_request\<lparr>rq_sessionRequested := True\<rparr>"

lemma session_granted:
  "\<exists>v. authenticate (scenario [returns 3, returns 2]) session_request 0 (proxy_world scenario_proxy) =
     (Ret \<lparr>ar_code = SOCKS6_AUTH_REPLY_SUCCESS,
           ar_opts = [UserPasswordReply True, SessionSetID (u64_bytes 0x200000003)]\<rparr>, v)"
  by (simp add: authenticate_def authenticate_user_def authenticate_session_def spawnSession_def
      authenticate_idempotence_def session_request_def scenario_request_def makeBank_def getPasswordChecker_def
      getSession_def getProxy_def modProxy_def ServerSession_new_def newSS_def getID_def getSS_def getTokenBank_def
      numeral_3_eq_3 proxy_world_def run_simps scenario_simps scenario_proxy_def check_def signal_def set_code_def Let_def)


section \<open>Identifiers\<close>

fun spawn_sessions :: "env \<Rightarrow> rid \<Rightarrow> nat \<Rightarrow> nat list M" where
  "spawn_sessions E p 0 = ret []"
| "spawn_sessions E p (Suc n) = bindM (spawnSession E p) (\<lambda>s. bindM (spawn_sessions E p n) (\<lambda>ss. ret (s # ss)))"

lemma spawn_sessions_many: "spawn_sessions E p n = store.spawn_many E p n"
  by (induction n) simp_all

text \<open>
  C24: sessions get different identifiers. Any number of sessions made one after the other are
  different objects, each found under its own identifier, which was free before; sessions that
  existed are still found.
\<close>

theorem spawned_sessions_distinct:
  assumes "sessions_ok p w" and "spawn_sessions E p n w = (Ret ss, w')"
  shows "length ss = n \<and> distinct ss \<and> (\<forall>s \<in> set ss. sessions_of p w' (session_ident w' s) = Some s) \<and>
    (\<forall>s \<in> set ss. sessions_of p w (session_ident w' s) = None) \<and>
    (\<forall>sid t. sessions_of p w sid = Some t \<longrightarrow> sessions_of p w' sid = Some t)"
  using store.spawn_many_found[OF assms(1), of E n ss w'] assms(2) by (simp add: spawn_sessions_many)

lemma two_sessions:
  "\<exists>w'. spawn_sessions (scenario [returns 3, returns 2, returns 1, returns 5]) 0 (Suc (Suc 0)) (proxy_world scenario_proxy) =
     (Ret [0, 1], w')"
  by (simp add: spawnSession_def getSession_def getProxy_def modProxy_def ServerSession_new_def newSS_def getID_def
      getSS_def numeral_3_eq_3 proxy_world_def run_simps scenario_simps scenario_proxy_def Let_def)

theorem spawned_sessions_distinct_witness:
  "\<exists>w'. spawn_sessions (scenario [returns 3, returns 2, returns 1, returns 5]) 0 (Suc (Suc 0)) (proxy_world scenario_proxy) =
     (Ret [0, 1], w') \<and> sessions_of 0 w' (session_ident w' 0) = Some 0 \<and> sessions_of 0 w' (session_ident w' 1) = Some 1"
proof -
  let ?E = "scenario [returns 3, returns 2, returns 1, returns 5]"
  obtain w' where run: "spawn_sessions ?E 0 (Suc (Suc 0)) (proxy_world scenario_proxy) = (Ret [0, 1], w')"
    using two_sessions by blast
  have "sessions_ok 0 (proxy_world scenario_proxy)" by simp
  from spawned_sessions_distinct[OF this run] run show ?thesis by auto
qed

text \<open>
  C25: an authentication returns a reply. If one of the identifiers that the program draws within the
  followed number of draws is free, \<open>authenticate\<close> returns, the session table stays sound and no
  session is lost.
\<close>

theorem authentication_returns:
  assumes "sessions_ok p w" and "is_proxy p d w" and "k < fuel E" and "px_sessions d (draws E (hist w) k) = None"
  shows "\<exists>rep w'. authenticate E rq p w = (Ret rep, w') \<and> sessions_ok p w' \<and> keeps_sessions p w w'"
proof -
  obtain res w' where run: "authenticate E rq p w = (res, w')" by fastforce
  from assms(2) have "res \<noteq> Abort OutOfFuel"
  proof (cases rule: authenticate_cases[where E = E and opts = rq])
    case (resumed raw s)
    then obtain x where x: "ssessions w s = Some x" using sessions_ok_session[OF assms(1,2)] by blast
    show ?thesis
      by (rule idempotence_run[OF x, of "failure_reply [SessionOK]" E rq]) (use resumed run in auto)
  next
    case (spawned s sid v)
    show ?thesis
      by (rule idempotence_run[OF spawned(6),
            of "failure_reply (password_opts d rq @ [SessionSetID (u64_bytes sid)])" E rq])
        (use spawned run in auto)
  qed (use assms(3,4) run in auto)
  with authenticate_sound[OF assms(1) run] run show ?thesis by auto
qed

theorem authentication_returns_witness:
  "\<exists>rep w'. authenticate (scenario [returns 3]) session_request 0 (proxy_world scenario_proxy) = (Ret rep, w') \<and>
     sessions_ok 0 w'"
proof -
  have ok: "sessions_ok 0 (proxy_world scenario_proxy)" by simp
  from authentication_returns[OF ok proxy_world_proxy, of 0 "scenario [returns 3]" session_request] show ?thesis by auto
qed

section \<open>Identifiers on the wire\<close>



end
