(* ===== verification/Descriptors.thy ===== *)
theory Descriptors
  imports Relay Scenario
begin

text \<open>
  Who closes a descriptor (\<^verbatim>\<open>core/uniqfd.hh\<close>, \<^verbatim>\<open>core/streamreactor.cc\<close>): a stream reactor owns the
  descriptors of its two sockets. The relation \<open>balanced r\<close> counts: the calls of \<open>close\<close> on a
  descriptor and the sockets of \<open>r\<close> that still hold it add up to the sockets that held it before.
  So a descriptor is never closed while it is held elsewhere in the object, never twice, and the
  destructor leaves none open.
\<close>

section \<open>Counting\<close>

definition closes :: "int \<Rightarrow> history \<Rightarrow> nat" where
  "closes f h = length (filter (\<lambda>e. fst e = CloseFD f) h)"

definition owns :: "int \<Rightarrow> reactor \<Rightarrow> nat" where
  "owns f x = (if sk_fd (srcSock x) = f then 1 else 0) + (if sk_fd (dstSock x) = f then 1 else 0)"

definition balanced :: "rid \<Rightarrow> world \<Rightarrow> world \<Rightarrow> bool" where
  "balanced r w w' \<longleftrightarrow> hist_grows w w' \<and> (\<forall>x. reactors w r = Some x \<longrightarrow> (\<exists>x'. reactors w' r = Some x' \<and>
     (\<forall>f. f \<noteq> -1 \<longrightarrow> closes f (new_calls w w') + owns f x' = owns f x)))"

lemma closes_append [simp]: "closes f (h @ k) = closes f h + closes f k" "closes f [] = 0"
  "closes f ((c, rc) # h) = (if c = CloseFD f then Suc (closes f h) else closes f h)"
  by (simp_all add: closes_def)

lemma balanced_trans:
  assumes "balanced r u v" "balanced r v w"
  shows "balanced r u w"
  unfolding balanced_def
proof (intro conjI allI impI)
  show "hist_grows u w" using assms by (auto simp: balanced_def intro: hg.R_trans)
  fix x assume "reactors u r = Some x"
  with assms(1) obtain y where y: "reactors v r = Some y"
    "\<forall>f. f \<noteq> -1 \<longrightarrow> closes f (new_calls u v) + owns f y = owns f x" unfolding balanced_def by blast
  with assms(2) obtain z where z: "reactors w r = Some z"
    "\<forall>f. f \<noteq> -1 \<longrightarrow> closes f (new_calls v w) + owns f z = owns f y" unfolding balanced_def by blast
  have "new_calls u w = new_calls u v @ new_calls v w"
    using assms by (auto simp: balanced_def intro: new_calls_trans)
  with y z show "\<exists>z. reactors w r = Some z \<and> (\<forall>f. f \<noteq> -1 \<longrightarrow> closes f (new_calls u w) + owns f z = owns f x)"
    by (auto simp: add.assoc)
qed

interpretation bal: world_preorder "balanced r"
proof unfold_locales
  show "balanced r w w" for w by (auto simp: balanced_def new_calls_def hg.R_refl)
qed (rule balanced_trans)

section \<open>The methods of a stream reactor\<close>

definition closing_call :: "call \<Rightarrow> bool" where
  "closing_call c \<longleftrightarrow> (\<exists>f. c = CloseFD f)"

lemma closing_call_simps [simp]:
  "\<not> closing_call (Recv fd n)" "\<not> closing_call (Send fd xs)" "\<not> closing_call (PR_Read t n)"
  "\<not> closing_call (PR_Write t xs)" "\<not> closing_call (ShutdownFD fd how)" "\<not> closing_call (EpollCtl epo fd ev)"
  "\<not> closing_call (NssRecv fd n)" "\<not> closing_call (NssSend fd xs)" "\<not> closing_call (GetSockName fd)"
  "\<not> closing_call (GetPeerName fd)"
  by (simp_all add: closing_call_def)

lemma balanced_extcall [keeps_intro]: "\<not> closing_call c \<Longrightarrow> keeps (balanced r) (extcall E c)"
  by (auto simp: keeps_def balanced_def run_extcall hist_grows_def new_calls_def closing_call_def)

lemma balanced_modR [keeps_intro]:
  "(\<And>x. sk_fd (srcSock (f x)) = sk_fd (srcSock x) \<and> sk_fd (dstSock (f x)) = sk_fd (dstSock x)) \<Longrightarrow>
     keeps (balanced r) (modR r' f)"
  by (auto simp: keeps_def balanced_def modR_def hist_grows_def new_calls_def owns_def split: option.splits)

lemma balanced_basic [keeps_intro]:
  "keeps (balanced r) (getR r')" "keeps (balanced r) (set_entry n e)" "keeps (balanced r) (entry_at fd)"
  "keeps (balanced r) (getT t)" "keeps (balanced r) (modT t g)" "keeps (balanced r) (PR_SetError pe)"
  "keeps (balanced r) (set_blockDirection bd)"
  by (auto simp: keeps_def balanced_def hist_grows_def new_calls_def getR_def set_entry_def entry_at_def exec_simps
      getT_def modT_def PR_SetError_def set_blockDirection_def split: option.splits)

lemma balanced_modBuf [keeps_intro]: "keeps (balanced r) (modBuf r' f)" "keeps (balanced r) (set_streamState r' s)"
  unfolding modBuf_def set_streamState_def by (intro keeps_intro; simp)+

lemma balanced_poller [keeps_intro]:
  "keeps (balanced r) (Poller_add E r' fd ev)" "keeps (balanced r) (Poller_remove E fd force)"
  unfolding Poller_add_def Poller_remove_def runIfActive_def isActive_def Let_def
  by (intro bal.keeps_rules keeps_intro closing_call_simps)+

lemma balanced_layer [keeps_intro]:
  "keeps (balanced r) (METHODS E t c)"
  unfolding METHODS_def tls_layer_defs mapError_override_def mapError_def
  by (cases c) (auto intro!: bal.keeps_rules keeps_intro)

lemma balanced_callbacks [keeps_intro]: "keeps (balanced r) (run_callbacks E t cs)"
  by (induction cs) (auto intro!: bal.keeps_rules keeps_intro)

lemma balanced_nss [keeps_intro]: "\<not> closing_call c \<Longrightarrow> keeps (balanced r) (nss E t c)"
  unfolding nss_def by (intro bal.keeps_rules keeps_intro)

lemma balanced_io [keeps_intro]:
  "keeps (balanced r) (sockRecv E s r')" "keeps (balanced r) (sockSend E s r')"
  unfolding sockRecv_def sockSend_def tcpRecv_def tcpSend_def tlsRead_def tlsWrite_def buf_receive_def
    buffered_def tlsHandleErr_def
  by (intro bal.keeps_rules keeps_intro closing_call_simps)+

lemma balanced_deactivate [keeps_intro]: "keeps (balanced r) (deactivate E r')"
  unfolding deactivate_def deactivate_defs
  by (intro bal.keeps_rules keeps_intro) (auto split: rclass.split intro!: bal.keeps_rules keeps_intro)

text \<open>Closing a member: one call, and the member holds -1.\<close>

lemma balanced_reset [keeps_intro]: "keeps (balanced r) (reset_srcSock E r)" "keeps (balanced r) (reset_dstSock E r)"
proof -
  show "keeps (balanced r) (reset_srcSock E r)"
  proof (rule keepsI)
    fix w :: world
    show "balanced r w (snd (reset_srcSock E r w))"
      by (cases "reactors w r")
        (auto simp: reset_srcSock_def UniqRecvFD_reset_def bindM_def getR_def modR_def run_basic run_extcall
          balanced_def hist_grows_def new_calls_def owns_def)
  qed
  show "keeps (balanced r) (reset_dstSock E r)"
  proof (rule keepsI)
    fix w :: world
    show "balanced r w (snd (reset_dstSock E r w))"
      by (cases "reactors w r")
        (auto simp: reset_dstSock_def UniqSendFD_reset_def bindM_def getR_def modR_def run_basic run_extcall
          balanced_def hist_grows_def new_calls_def owns_def)
  qed
qed

lemma balanced_close [keeps_intro]: "keeps (balanced r) (close_srcSock E r)" "keeps (balanced r) (close_dstSock E r)"
  unfolding close_srcSock_def close_dstSock_def by (intro bal.keeps_rules keeps_intro)+

lemma balanced_process [keeps_intro]: "keeps (balanced r) (StreamReactor_process E r)"
  unfolding StreamReactor_process_def StreamReactor_sending_def StreamReactor_receiving_def
  by (intro bal.keeps_rules keeps_intro keeps_choices)

lemma balanced_runAs [keeps_intro]: "keeps (balanced r) m \<Longrightarrow> keeps (balanced r) (Poller_runAs E r' m)"
  unfolding Poller_runAs_def
  by (intro bal.keeps_rules) (auto split: exn.split intro: keeps_intro)

lemma balanced_pump: "keeps (balanced r) (pump E r n)"
  by (induction n) (auto intro: bal.keeps_rules keeps_intro)

section \<open>The destructor\<close>

lemma remove_no_close:
  "Poller_remove E fd False w = (res, w') \<Longrightarrow> \<exists>h. hist w' = hist w @ h \<and> reactors w' = reactors w \<and> (\<forall>f. closes f h = 0)"
  by (auto simp: Poller_remove_eq Let_def split: if_splits)

lemma removes_no_close:
  assumes "tryM (seqM (Poller_remove E fd False) (Poller_remove E fd' False)) (\<lambda>_. ret ()) w = (res, w')"
  obtains h where "hist w' = hist w @ h" "reactors w' = reactors w" "\<forall>f. closes f h = 0"
proof -
  obtain r1 v where v: "Poller_remove E fd False w = (r1, v)" by fastforce
  obtain r2 u where u: "Poller_remove E fd' False v = (r2, u)" by fastforce
  from remove_no_close[OF v] remove_no_close[OF u] obtain h k where
    "hist v = hist w @ h" "reactors v = reactors w" "\<forall>f. closes f h = 0"
    "hist u = hist v @ k" "reactors u = reactors v" "\<forall>f. closes f k = 0" by blast
  with assms v u show thesis
    by (cases r1; cases r2) (auto simp: tryM_def seqM_def bindM_def run_basic intro: that[of h] that[of "h @ k"])
qed

lemma destroy_closes:
  fixes w :: world
  assumes "reactors w r = Some x" "StreamReactor_destroy E r w = (Ret (), w')"
  shows "\<exists>h. hist w' = hist w @ h \<and> reactors w' r = None \<and> (\<forall>f. f \<noteq> -1 \<longrightarrow> closes f h = owns f x)"
proof -
  let ?m = "tryM (seqM (Poller_remove E (sk_fd (srcSock x)) False) (Poller_remove E (sk_fd (dstSock x)) False)) (\<lambda>_. ret ())"
  obtain res v where v: "?m w = (res, v)" by fastforce
  obtain h where h: "hist v = hist w @ h" "reactors v = reactors w" "\<forall>f. closes f h = 0"
    by (rule removes_no_close[OF v])
  have "res = Ret ()"
    using assms v by (cases res) (auto simp: StreamReactor_destroy_def bindM_def[of "getR r"] run_getR run_seq)
  with assms v have "seqM (UniqSendFD_destroy E (sk_fd (dstSock x)))
     (seqM (UniqRecvFD_destroy E (sk_fd (srcSock x))) (deleteR r)) v = (Ret (), w')"
    by (simp add: StreamReactor_destroy_def bindM_def[of "getR r"] run_getR run_seq)
  then have "\<exists>k. hist w' = hist v @ k \<and> reactors w' r = None \<and> (\<forall>f. f \<noteq> -1 \<longrightarrow> closes f k = owns f x)"
    by (auto simp: UniqSendFD_destroy_def UniqRecvFD_destroy_def UniqFD_destroy_def seqM_def bindM_def run_extcall
        run_basic deleteR_def owns_def split: if_splits)
  with h show ?thesis by auto
qed

text \<open>
  C22: descriptors are closed exactly once. Over any number of events and the destruction of a stream
  reactor, each descriptor is closed as often as the reactor's sockets held it at the beginning:
  once if one of them did, never otherwise.
\<close>

theorem descriptors_closed_once:
  assumes "reactors w r = Some x" and "pump E r n w = (res, v)"
    and "StreamReactor_destroy E r v = (Ret (), w')" and "f \<noteq> -1"
  shows "closes f (new_calls w w') = owns f x \<and> reactors w' r = None"
proof -
  have b: "balanced r w v" using keepsD[OF balanced_pump[of r E n], of w] assms(2) by simp
  with assms(1) obtain y where y: "reactors v r = Some y"
    "\<forall>f. f \<noteq> -1 \<longrightarrow> closes f (new_calls w v) + owns f y = owns f x" unfolding balanced_def by blast
  obtain h where h: "hist w' = hist v @ h" "reactors w' r = None" "\<forall>f. f \<noteq> -1 \<longrightarrow> closes f h = owns f y"
    using destroy_closes[OF y(1) assms(3)] by blast
  have "new_calls w w' = new_calls w v @ h"
    using b h(1) by (auto simp: balanced_def hist_grows_def new_calls_def prefix_def)
  with y(2) h assms(4) show ?thesis by simp
qed

theorem descriptors_closed_once_witness:
  "closes 5 (hist (snd (StreamReactor_destroy (scenario [delivers [1, 2], returns 1, returns 0]) 0
     (snd (pump (scenario [delivers [1, 2], returns 1, returns 0]) 0 1 stream_world))))) = 1"
proof -
  let ?E = "scenario [delivers [1, 2], returns 1, returns 0]"
  obtain res v where run: "pump ?E 0 1 stream_world = (res, v)" by fastforce
  have x: "reactors stream_world 0 = Some stream_reactor" by (simp add: stream_world_def)
  have "fst (StreamReactor_destroy ?E 0 (snd (pump ?E 0 1 stream_world))) = Ret ()"
    by (simp add: run_simps stream_simps buffer_simps scenario_simps StreamReactor_destroy_def Poller_remove_eq
        UniqSendFD_destroy_def UniqRecvFD_destroy_def UniqFD_destroy_def deleteR_def Let_def)
  then obtain w' where d: "StreamReactor_destroy ?E 0 v = (Ret (), w')"
    using run by (metis prod.collapse snd_conv)
  from descriptors_closed_once[OF x run d, of 5] run d show ?thesis
    by (simp add: new_calls_def stream_world_def empty_world_def owns_def stream_reactor_def new_reactor_def)
qed

end
