(* ===== verification/Transport.thy ===== *)
theory Transport
  imports Relay Scenario
begin

text \<open>
  What the encrypted transport promises its callers (\<^verbatim>\<open>tls/tls.cc\<close>, \<^verbatim>\<open>core/socket.hh\<close>): a call that
  would block is reported with the direction NSS was waiting for, the handshake takes exactly
  the accepted early data off the buffer, and a connection that cannot be set up leaves nothing behind.
\<close>

section \<open>Blocked calls\<close>

text \<open>The direction of an I/O callback; the other callbacks have none.\<close>

fun direction :: "nss_callback \<Rightarrow> BlockDirection option" where
  "direction (CbRecv n) = Some BD_IN"
| "direction (CbRead n) = Some BD_IN"
| "direction (CbSend xs) = Some BD_OUT"
| "direction (CbWrite xs) = Some BD_OUT"
| "direction _ = None"

fun last_direction :: "BlockDirection \<Rightarrow> nss_callback list \<Rightarrow> BlockDirection" where
  "last_direction d [] = d"
| "last_direction d (c # cs) = last_direction (case direction c of None \<Rightarrow> d | Some e \<Rightarrow> e) cs"

lemma METHODS_run:
  assumes "tlsObjs w t = Some y"
  obtains v where "METHODS E t c w = (Ret (), v)" "tlsObjs v = tlsObjs w" "reactors v = reactors w"
    "blockDirection v = (case direction c of None \<Rightarrow> blockDirection w | Some d \<Rightarrow> d)"
proof -
  note layer = METHODS_def tls_layer_defs mapError_def mapError_override_def PR_SetError_def set_blockDirection_def
    bindM_def seqM_def getT_def run_extcall run_basic
  have "\<exists>v. METHODS E t c w = (Ret (), v) \<and> tlsObjs v = tlsObjs w \<and> reactors v = reactors w \<and>
    blockDirection v = (case direction c of None \<Rightarrow> blockDirection w | Some d \<Rightarrow> d)"
    using assms by (cases c) (simp_all add: layer split: option.split)
  with that show thesis by blast
qed

lemma callbacks_run:
  assumes "tlsObjs w t = Some y"
  obtains v where "run_callbacks E t cs w = (Ret (), v)" "tlsObjs v = tlsObjs w" "reactors v = reactors w"
    "blockDirection v = last_direction (blockDirection w) cs"
proof -
  have "\<exists>v. run_callbacks E t cs w = (Ret (), v) \<and> tlsObjs v = tlsObjs w \<and> reactors v = reactors w \<and>
    blockDirection v = last_direction (blockDirection w) cs"
    using assms
  proof (induction cs arbitrary: w)
    case (Cons c cs)
    obtain u where u: "METHODS E t c w = (Ret (), u)" "tlsObjs u = tlsObjs w" "reactors u = reactors w"
      "blockDirection u = (case direction c of None \<Rightarrow> blockDirection w | Some d \<Rightarrow> d)"
      by (rule METHODS_run[OF Cons.prems])
    with Cons.IH[of u] Cons.prems show ?case by (simp add: run_seq)
  qed (simp add: run_basic)
  with that show thesis by blast
qed

lemma nss_run:
  assumes "tlsObjs w t = Some y"
  obtains v where "nss E t c w = (Ret (os E (hist v) c), v\<lparr>hist := hist v @ [(c, os E (hist v) c)],
      prError := (if c_rc (os E (hist v) c) < 0 then c_prerr (os E (hist v) c) else prError v)\<rparr>)"
    "run_callbacks E t (nssCallbacks E (hist w) c) w = (Ret (), v)" "tlsObjs v = tlsObjs w" "reactors v = reactors w"
    "blockDirection v = last_direction (blockDirection w) (nssCallbacks E (hist w) c)"
proof -
  obtain v where v: "run_callbacks E t (nssCallbacks E (hist w) c) w = (Ret (), v)" "tlsObjs v = tlsObjs w"
    "reactors v = reactors w" "blockDirection v = last_direction (blockDirection w) (nssCallbacks E (hist w) c)"
    by (rule callbacks_run[OF assms])
  then show thesis
    by (intro that[of v]) (simp_all add: nss_def bindM_def seqM_def run_extcall run_basic PR_SetError_def)
qed

definition events_for :: "BlockDirection \<Rightarrow> u32" where
  "events_for d = (if d = BD_IN then IN_EVENTS else OUT_EVENTS)"

lemma tlsHandleErr_blocked:
  "prError w = PR_WOULD_BLOCK_ERROR \<Longrightarrow> tlsHandleErr fd w = (Throw (RescheduleException fd (events_for (blockDirection w))), w)"
  by (simp add: tlsHandleErr_def bindM_def run_basic events_for_def)

text \<open>A world with one TLS connection, and surroundings in which NSS sends before each call returns.\<close>

definition tls_reactor :: reactor where
  "tls_reactor = stream_reactor\<lparr>dstSock := \<lparr>sk_fd = 6, sk_tls = Some 0\<rparr>, buf := store [1, 2, 3] new_buffer\<rparr>"

definition tls_world :: world where
  "tls_world = stream_world\<lparr>reactors := [0 \<mapsto> tls_reactor],
     tlsObjs := [0 \<mapsto> \<lparr>hs_state = S_WANT_EARLY, earlyWritten = 0, readFD = 6, writeFD = 6\<rparr>], nextTls := 1\<rparr>"

definition tls_scenario :: "cret list \<Rightarrow> env" where
  "tls_scenario as = (scenario as)\<lparr>nssCallbacks := (\<lambda>_ _. [CbSend []])\<rparr>"

lemma tls_scenario_fields [simp]:
  "os (tls_scenario as) = os (scenario as)" "nssCallbacks (tls_scenario as) h c = [CbSend []]" "io_ok (tls_scenario as)"
proof -
  show "io_ok (tls_scenario as)"
    using scenario_io_ok[of as] unfolding io_ok_def tls_scenario_def by simp
qed (simp_all add: tls_scenario_def)

lemma tls_world_simps [simp]:
  "reactors tls_world 0 = Some tls_reactor" "hist tls_world = []" "blockDirection tls_world = BD_IN"
  "tlsObjs tls_world 0 = Some \<lparr>hs_state = S_WANT_EARLY, earlyWritten = 0, readFD = 6, writeFD = 6\<rparr>"
  "sb_ok (buf tls_reactor)" "contents (buf tls_reactor) = [1, 2, 3]"
proof -
  have "length [1, 2, 3 :: byte] \<le> unat (availSize new_buffer)" by (simp add: availSize_def new_buffer_def BUF_SIZE_def)
  from store_ok[OF new_buffer_ok(1) this] show "sb_ok (buf tls_reactor)" "contents (buf tls_reactor) = [1, 2, 3]"
    by (simp_all add: tls_reactor_def)
qed (simp_all add: tls_world_def stream_world_def empty_world_def)

text \<open>
  C28: a blocked TLS call waits for the right event. When NSS reports that a read or a write would block,
  the method throws a RescheduleException for the direction of the last transfer NSS attempted below
  (which may be a read during a write, and the other way round), on the descriptor of the method's own
  end, and leaves the buffers alone.
\<close>

theorem tls_blocked:
  assumes "tlsObjs w t = Some y" and "reactors w r = Some x" and "sb_ok (buf x)"
    and "run_callbacks E t (nssCallbacks E (hist w) c) w = (Ret (), v)"
    and "c_rc (os E (hist v) c) < 0" and "c_prerr (os E (hist v) c) = PR_WOULD_BLOCK_ERROR"
  shows "(c = PR_Write t (contents (buf x)) \<longrightarrow> (\<exists>w'. tlsWrite E t r w =
        (Throw (RescheduleException (writeFD y) (events_for (last_direction (blockDirection w) (nssCallbacks E (hist w) c)))), w')
        \<and> reactors w' = reactors w)) \<and>
    (c = PR_Read t (unat (availSize (buf x))) \<longrightarrow> (\<exists>w'. tlsRead E t r w =
        (Throw (RescheduleException (readFD y) (events_for (last_direction (blockDirection w) (nssCallbacks E (hist w) c)))), w')
        \<and> reactors w' = reactors w))"
proof -
  let ?w = "v\<lparr>hist := hist v @ [(c, os E (hist v) c)], prError := PR_WOULD_BLOCK_ERROR\<rparr>"
  obtain u where u: "nss E t c w = (Ret (os E (hist u) c), u\<lparr>hist := hist u @ [(c, os E (hist u) c)],
      prError := (if c_rc (os E (hist u) c) < 0 then c_prerr (os E (hist u) c) else prError u)\<rparr>)"
    "run_callbacks E t (nssCallbacks E (hist w) c) w = (Ret (), u)" "tlsObjs u = tlsObjs w" "reactors u = reactors w"
    "blockDirection u = last_direction (blockDirection w) (nssCallbacks E (hist w) c)"
    by (rule nss_run[OF assms(1)])
  have "u = v" using u(2) assms(4) by simp
  then have n: "nss E t c w = (Ret (os E (hist v) c), ?w)" using u(1) assms(5,6) by simp
  have t: "getT t ?w = (Ret y, ?w)" using u(3) \<open>u = v\<close> assms(1) by (simp add: getT_def)
  have err: "tlsHandleErr fd ?w = (Throw (RescheduleException fd (events_for (last_direction (blockDirection w)
      (nssCallbacks E (hist w) c)))), ?w)" for fd
    using tlsHandleErr_blocked[of ?w fd] u(5) \<open>u = v\<close> by simp
  have r: "reactors ?w = reactors w" using u(4) \<open>u = v\<close> by simp
  have "\<exists>w'. tlsWrite E t r w = (Throw (RescheduleException (writeFD y) (events_for (last_direction (blockDirection w)
      (nssCallbacks E (hist w) c)))), w') \<and> reactors w' = reactors w" if c: "c = PR_Write t (contents (buf x))"
    using n[unfolded c] t[unfolded c] err[unfolded c] r[unfolded c] assms(5)[unfolded c] unfolding c
    by (simp add: tlsWrite_def bindM_def seqM_def buffered_run[OF assms(2,3)])
  moreover have "\<exists>w'. tlsRead E t r w = (Throw (RescheduleException (readFD y) (events_for (last_direction (blockDirection w)
      (nssCallbacks E (hist w) c)))), w') \<and> reactors w' = reactors w" if c: "c = PR_Read t (unat (availSize (buf x)))"
    using n[unfolded c] t[unfolded c] err[unfolded c] r[unfolded c] assms(5)[unfolded c] unfolding c
    by (simp add: tlsRead_def bindM_def seqM_def run_getR(1)[OF assms(2)])
  ultimately show ?thesis by blast
qed

theorem tls_blocked_witness:
  "\<exists>w'. tlsWrite (tls_scenario [failed EAGAIN, (failed EAGAIN)\<lparr>c_prerr := PR_WOULD_BLOCK_ERROR\<rparr>]) 0 0 tls_world =
     (Throw (RescheduleException 6 OUT_EVENTS), w') \<and> reactors w' = reactors tls_world"
proof -
  let ?E = "tls_scenario [failed EAGAIN, (failed EAGAIN)\<lparr>c_prerr := PR_WOULD_BLOCK_ERROR\<rparr>]"
  let ?c = "PR_Write 0 (contents (buf tls_reactor))"
  obtain v where run: "run_callbacks ?E 0 (nssCallbacks ?E (hist tls_world) ?c) tls_world = (Ret (), v)"
    by (rule callbacks_run[OF tls_world_simps(4), of ?E "nssCallbacks ?E (hist tls_world) ?c"])
  then have "length (hist v) = 1"
    by (auto simp: METHODS_def dSend_def bindM_def seqM_def getT_def run_extcall run_basic mapError_def PR_SetError_def
        set_blockDirection_def split: option.splits if_splits)
  then have "os ?E (hist v) ?c = (failed EAGAIN)\<lparr>c_prerr := PR_WOULD_BLOCK_ERROR\<rparr>"
    by (simp add: scenario_simps)
  with tls_blocked[OF tls_world_simps(4,1,5) run] show ?thesis
    by (simp add: failed_def events_for_def)
qed

section \<open>Early data\<close>

text \<open>
  One run of the handshake from its first state: what the write of early data accepted is remembered, and
  taken off the buffer only when the server has accepted the early data.
\<close>

definition early_bytes :: "nat \<Rightarrow> history \<Rightarrow> byte list" where
  "early_bytes t h = data_out \<lparr>sk_fd = -1, sk_tls = Some t\<rparr> h"

definition accepted_early :: "history \<Rightarrow> bool" where
  "accepted_early h \<longleftrightarrow> c_flag (snd (last h))"

lemma nss_step:
  assumes "tlsObjs w t = Some y" "\<not> data_call c"
  obtains v h where "nss E t c w = (Ret (snd (last (hist v))), v)" "hist v = hist w @ h" "data_free h" "h \<noteq> []"
    "fst (last h) = c" "tlsObjs v = tlsObjs w" "reactors v = reactors w"
proof -
  obtain u where u: "nss E t c w = (Ret (os E (hist u) c), u\<lparr>hist := hist u @ [(c, os E (hist u) c)],
      prError := (if c_rc (os E (hist u) c) < 0 then c_prerr (os E (hist u) c) else prError u)\<rparr>)"
    "run_callbacks E t (nssCallbacks E (hist w) c) w = (Ret (), u)" "tlsObjs u = tlsObjs w" "reactors u = reactors w"
    by (rule nss_run[OF assms(1)])
  have "below_nss w u" using keepsD[OF keeps_low_callbacks, of w] u(2) by (metis snd_conv)
  then obtain k where "hist u = hist w @ k" "data_free k" by (rule below_nssD)
  with u assms(2) show thesis
    by (intro that[of "u\<lparr>hist := hist u @ [(c, os E (hist u) c)],
      prError := (if c_rc (os E (hist u) c) < 0 then c_prerr (os E (hist u) c) else prError u)\<rparr>"
          "k @ [(c, os E (hist u) c)]"]) simp_all
qed

lemma handled:
  assumes "seqM (if b then bindM (getT t) (\<lambda>x. tlsHandleErr (g x)) else ret ()) m w = (Ret a, w')"
  shows "m w = (Ret a, w')"
proof (cases b)
  case True
  show ?thesis
  proof (cases rule: getT_cases[of t w])
    case (1 y)
    with True assms show ?thesis
      by (cases rule: tlsHandleErr_cases[of "g y" w]) (auto simp: seqM_def bindM_def)
  qed (use True assms in \<open>simp add: seqM_def bindM_def\<close>)
qed (use assms in \<open>simp add: seqM_def bindM_def run_basic\<close>)

lemma force_run:
  assumes t: "tlsObjs w t = Some y" and x: "reactors w r = Some x" "sb_ok (buf x)"
    and early: "0 \<le> earlyWritten y" "earlyWritten y \<le> int (length (contents (buf x)))"
    and run: "clientHandshake_force E t r w = (Ret (), w')"
  obtains h x' where "hist w' = hist w @ h" "data_free h" "reactors w' r = Some x'" "sb_ok (buf x')"
    "x' = x\<lparr>buf := buf x'\<rparr>" "h \<noteq> []" "fst (last h) = SSL_GetChannelInfo t" "tlsObjs w' t = Some (y\<lparr>hs_state := S_LAISEZ_FAIRE\<rparr>)"
    "contents (buf x') = (if accepted_early (hist w') then drop (nat (earlyWritten y)) (contents (buf x)) else contents (buf x))"
proof -
  obtain v h where v: "nss E t (SSL_ForceHandshake t) w = (Ret (snd (last (hist v))), v)" "hist v = hist w @ h"
    "data_free h" "tlsObjs v = tlsObjs w" "reactors v = reactors w"
    by (rule nss_step[OF t, of "SSL_ForceHandshake t" E]) simp_all
  have "tlsObjs v t = Some y" using v(4) t by simp
  then obtain u k where u: "nss E t (SSL_GetChannelInfo t) v = (Ret (snd (last (hist u))), u)" "hist u = hist v @ k"
    "data_free k" "k \<noteq> []" "fst (last k) = SSL_GetChannelInfo t" "tlsObjs u = tlsObjs v" "reactors u = reactors v"
    by (rule nss_step[of v t y "SSL_GetChannelInfo t" E]) simp_all
  let ?info = "snd (last (hist u))"
  have "bindM (nss E t (SSL_GetChannelInfo t)) (\<lambda>info.
     seqM (if c_rc info < 0 then bindM (getT t) (\<lambda>x. tlsHandleErr (writeFD x)) else ret ())
     (seqM (if c_flag info then bindM (getT t) (\<lambda>x. modBuf r (unuse (word_of_int (earlyWritten x)))) else ret ())
     (modT t (\<lambda>x. x\<lparr>hs_state := S_LAISEZ_FAIRE\<rparr>)))) v = (Ret (), w')"
    using run unfolding clientHandshake_force_def run_bind(1)[of "nss E t (SSL_ForceHandshake t)", OF v(1)] by (rule handled)
  then have rest: "seqM (if c_flag ?info then bindM (getT t) (\<lambda>x. modBuf r (unuse (word_of_int (earlyWritten x)))) else ret ())
     (modT t (\<lambda>x. x\<lparr>hs_state := S_LAISEZ_FAIRE\<rparr>)) u = (Ret (), w')"
    unfolding run_bind(1)[of "nss E t (SSL_GetChannelInfo t)", OF u(1)] by (rule handled)
  have xu: "reactors u r = Some x" "tlsObjs u t = Some y" using u v x t by simp_all
  note un = unuse_run[OF xu(1) x(2) early]
  show thesis
  proof (cases "c_flag ?info")
    case True
    with rest xu un(1) have "w' = u\<lparr>reactors := (reactors u)(r \<mapsto> x\<lparr>buf := leave_bytes (nat (earlyWritten y)) (buf x)\<rparr>),
        tlsObjs := (tlsObjs u)(t \<mapsto> y\<lparr>hs_state := S_LAISEZ_FAIRE\<rparr>)\<rparr>"
      by (simp add: seqM_def bindM_def getT_def modT_def)
    with True u(2-5) v(2,3) un(2,3) show thesis
      by (intro that[of "h @ k" "x\<lparr>buf := leave_bytes (nat (earlyWritten y)) (buf x)\<rparr>"]) (simp_all add: accepted_early_def)
  next
    case False
    with rest xu have "w' = u\<lparr>tlsObjs := (tlsObjs u)(t \<mapsto> y\<lparr>hs_state := S_LAISEZ_FAIRE\<rparr>)\<rparr>"
      by (simp add: seqM_def bindM_def modT_def run_basic)
    with False u(2-5) v(2,3) xu x(2) show thesis
      by (intro that[of "h @ k" x]) (simp_all add: accepted_early_def)
  qed
qed

lemma failed_then:
  assumes "bindM (bindM (getT t) (\<lambda>x. seqM (tlsHandleErr (g x)) (ret 0))) f v = (Ret a, v')"
  shows "f (0 :: int) v = (Ret a, v')"
proof (cases rule: tls_failed[of t g "ret (0 :: int)" v])
  case 1
  then show ?thesis using assms by (simp add: run_basic run_bind)
qed (use assms in \<open>simp_all add: run_bind\<close>)

lemma early_run:
  assumes io: "io_ok E" and t: "tlsObjs w t = Some y" and x: "reactors w r = Some x" "sb_ok (buf x)"
    and run: "clientHandshake_early E t r w = (Ret (), v)"
  obtains h n where "hist v = hist w @ h" "reactors v = reactors w" "n \<le> length (contents (buf x))"
    "early_bytes t h = take n (contents (buf x))" "\<forall>s. data_in s h = []"
    "tlsObjs v t = Some (y\<lparr>earlyWritten := int n, hs_state := S_WANT_HANDSHAKE\<rparr>)"
proof -
  let ?c = "PR_Write t (contents (buf x))"
  obtain u where u: "nss E t ?c w = (Ret (os E (hist u) ?c), u\<lparr>hist := hist u @ [(?c, os E (hist u) ?c)],
      prError := (if c_rc (os E (hist u) ?c) < 0 then c_prerr (os E (hist u) ?c) else prError u)\<rparr>)"
    "run_callbacks E t (nssCallbacks E (hist w) ?c) w = (Ret (), u)" "tlsObjs u = tlsObjs w" "reactors u = reactors w"
    by (rule nss_run[OF t])
  let ?rc = "os E (hist u) ?c"
  let ?v = "u\<lparr>hist := hist u @ [(?c, ?rc)], prError := (if c_rc ?rc < 0 then c_prerr ?rc else prError u)\<rparr>"
  have "below_nss w u" using keepsD[OF keeps_low_callbacks, of w] u(2) by (metis snd_conv)
  then obtain k where k: "hist u = hist w @ k" "data_free k" by (rule below_nssD)
  define bytes where "bytes = (if c_rc ?rc < 0 then 0 else c_rc ?rc)"
  have tv: "tlsObjs ?v t = Some y" using u(3) t by simp
  have "modT t (\<lambda>x. x\<lparr>earlyWritten := bytes, hs_state := S_WANT_HANDSHAKE\<rparr>) ?v = (Ret (), v)"
  proof (cases "c_rc ?rc < 0")
    case True
    have "bindM (bindM (getT t) (\<lambda>x. seqM (tlsHandleErr (writeFD x)) (ret 0))) (\<lambda>bytes.
        modT t (\<lambda>x. x\<lparr>earlyWritten := bytes, hs_state := S_WANT_HANDSHAKE\<rparr>)) ?v = (Ret (), v)"
      using run True by (simp add: clientHandshake_early_def bindM_def[of "buffered r"] bindM_def[of "nss E t ?c"]
          buffered_run[OF x] u(1))
    from failed_then[OF this] True show ?thesis by (simp add: bytes_def)
  next
    case False
    with run show ?thesis
      by (simp add: clientHandshake_early_def bindM_def buffered_run[OF x] u(1) run_basic bytes_def)
  qed
  then have v: "v = ?v\<lparr>tlsObjs := (tlsObjs ?v)(t \<mapsto> y\<lparr>earlyWritten := bytes, hs_state := S_WANT_HANDSHAKE\<rparr>)\<rparr>"
    using tv by (simp add: modT_def)
  have b: "0 \<le> bytes" "bytes \<le> int (length (contents (buf x)))"
    using io_okD(5)[OF io, of "hist u" t "contents (buf x)"] by (auto simp: bytes_def)
  have "early_bytes t (k @ [(?c, ?rc)]) = take (nat bytes) (contents (buf x))"
    using data_free_no_data[OF k(2)] by (simp add: early_bytes_def in_of_call bytes_def)
  moreover have "\<forall>s. data_in s (k @ [(?c, ?rc)]) = []"
    using data_free_no_data[OF k(2)] by (simp add: in_of_call)
  ultimately show thesis using v b k u
    by (intro that[of "k @ [(?c, ?rc)]" "nat bytes"]) (simp_all add: nat_le_iff)
qed

text \<open>
  Early data are accounted for. When a handshake that begins with early data returns, the bytes
  written early are a front part of the buffer; they have left the buffer if the server accepted
  them, and all of the data are still there if it did not. Either way nothing is lost or sent twice.
\<close>

lemma early_data_accounted:
  assumes "io_ok E" and "tlsObjs w t = Some y" and "hs_state y = S_WANT_EARLY"
    and "reactors w r = Some x" and "sb_ok (buf x)" and "tls_clientHandshake E t r w = (Ret (), w')"
  shows "\<exists>x'. reactors w' r = Some x' \<and> sb_ok (buf x') \<and>
    prefix (early_bytes t (new_calls w w')) (contents (buf x)) \<and>
    contents (buf x') = (if accepted_early (hist w')
      then drop (length (early_bytes t (new_calls w w'))) (contents (buf x)) else contents (buf x))"
proof -
  have "seqM (clientHandshake_early E t r) (clientHandshake_force E t r) w = (Ret (), w')"
    using assms(2,3,6) by (simp add: tls_clientHandshake_def bindM_def getT_def)
  then obtain v where v: "clientHandshake_early E t r w = (Ret (), v)" "clientHandshake_force E t r v = (Ret (), w')"
    by (auto simp: seqM_def bindM_def split: prod.splits outcome.splits)
  obtain h n where e: "hist v = hist w @ h" "reactors v = reactors w" "n \<le> length (contents (buf x))"
    "early_bytes t h = take n (contents (buf x))" "\<forall>s. data_in s h = []"
    "tlsObjs v t = Some (y\<lparr>earlyWritten := int n, hs_state := S_WANT_HANDSHAKE\<rparr>)"
    by (rule early_run[OF assms(1,2,4,5) v(1)])
  have xv: "reactors v r = Some x" using e(2) assms(4) by simp
  obtain k x' where f: "hist w' = hist v @ k" "data_free k" "reactors w' r = Some x'" "sb_ok (buf x')"
    "contents (buf x') = (if accepted_early (hist w') then drop n (contents (buf x)) else contents (buf x))"
    by (rule force_run[OF e(6) xv assms(5) _ _ v(2)]) (use e(3) in simp_all)
  have "early_bytes t (new_calls w w') = take n (contents (buf x))"
    using e(1,4) f(1) data_free_no_data[OF f(2)] by (simp add: new_calls_def early_bytes_def)
  with e(3) f show ?thesis by (simp add: take_is_prefix)
qed

section \<open>Setting up and tearing down\<close>

text \<open>The configuration calls either succeed or throw, and keep the TLS objects.\<close>

definition steady :: "nat \<Rightarrow> unit M \<Rightarrow> bool" where
  "steady t m \<longleftrightarrow> (\<forall>w. tlsObjs w t \<noteq> None \<longrightarrow> (\<exists>r v. m w = (r, v) \<and> (r = Ret () \<or> (\<exists>e. r = Throw e)) \<and>
     tlsObjs v = tlsObjs w \<and> hist_grows w v))"

lemma steady_checked: "steady t (nss_checked E t c)"
  unfolding steady_def
proof (intro allI impI)
  fix w :: world assume "tlsObjs w t \<noteq> None"
  then obtain y where y: "tlsObjs w t = Some y" by blast
  obtain v where v: "nss E t c w = (Ret (os E (hist v) c), v\<lparr>hist := hist v @ [(c, os E (hist v) c)],
      prError := (if c_rc (os E (hist v) c) < 0 then c_prerr (os E (hist v) c) else prError v)\<rparr>)"
    "run_callbacks E t (nssCallbacks E (hist w) c) w = (Ret (), v)" "tlsObjs v = tlsObjs w"
    by (rule nss_run[OF y])
  have "below_nss w v" using keepsD[OF keeps_low_callbacks, of w] v(2) by (metis snd_conv)
  then have "hist_grows w (v\<lparr>hist := hist v @ [(c, os E (hist v) c)]\<rparr>)" by (auto simp: below_nss_def hist_grows_def)
  with v show "\<exists>r v. nss_checked E t c w = (r, v) \<and> (r = Ret () \<or> (\<exists>e. r = Throw e)) \<and> tlsObjs v = tlsObjs w \<and> hist_grows w v"
    by (auto simp: nss_checked_def bindM_def run_basic hist_grows_def)
qed

lemma steady_seq:
  assumes "steady t m" "steady t n" shows "steady t (seqM m n)"
  unfolding steady_def
proof (intro allI impI)
  fix w :: world assume w: "tlsObjs w t \<noteq> None"
  with assms(1) obtain r v where v: "m w = (r, v)" "r = Ret () \<or> (\<exists>e. r = Throw e)" "tlsObjs v = tlsObjs w" "hist_grows w v"
    unfolding steady_def by blast
  moreover have "tlsObjs v t \<noteq> None" using w v(3) by simp
  with assms(2) obtain r' u where u: "n v = (r', u)" "r' = Ret () \<or> (\<exists>e. r' = Throw e)" "tlsObjs u = tlsObjs v" "hist_grows v u"
    unfolding steady_def by blast
  ultimately show "\<exists>r u. seqM m n w = (r, u) \<and> (r = Ret () \<or> (\<exists>e. r = Throw e)) \<and> tlsObjs u = tlsObjs w \<and> hist_grows w u"
    using hg.R_trans[OF v(4) u(4)] by (auto simp: run_seq)
qed

lemma seqM_assoc: "seqM (seqM a b) c = seqM a (seqM b c)"
  by (simp add: seqM_def bindM_assoc)

lemma steady_if: "steady t m \<Longrightarrow> steady t (if b then m else ret ())"
  by (simp add: steady_def run_basic hg.R_refl)

text \<open>The two ends of the constructor: the descriptor is imported, and a failed configuration is undone.\<close>

lemma construction_imports:
  fixes E :: env
  obtains rc z where
    "\<And>k :: nat \<Rightarrow> cret \<Rightarrow> 'a M.
       bindM (newT fd) (\<lambda>t. bindM (nss E t (SSL_ImportFD t)) (k t)) w = k (nextTls w) rc z"
    "hist_grows w z"
    "tlsObjs z (nextTls w) = Some \<lparr>hs_state = S_WANT_EARLY, earlyWritten = 0, readFD = fd, writeFD = fd\<rparr>"
proof -
  let ?t = "nextTls w"
  let ?y = "\<lparr>hs_state = S_WANT_EARLY, earlyWritten = 0, readFD = fd, writeFD = fd\<rparr>"
  define u where "u = w\<lparr>tlsObjs := (tlsObjs w)(?t \<mapsto> ?y), nextTls := Suc ?t\<rparr>"
  have ut: "tlsObjs u ?t = Some ?y" by (simp add: u_def)
  have new: "newT fd w = (Ret ?t, u)" by (simp add: newT_def u_def)
  obtain v where v: "nss E ?t (SSL_ImportFD ?t) u = (Ret (os E (hist v) (SSL_ImportFD ?t)), v\<lparr>hist := hist v @ [(SSL_ImportFD ?t, os E (hist v) (SSL_ImportFD ?t))],
      prError := (if c_rc (os E (hist v) (SSL_ImportFD ?t)) < 0 then c_prerr (os E (hist v) (SSL_ImportFD ?t)) else prError v)\<rparr>)"
    "run_callbacks E ?t (nssCallbacks E (hist u) (SSL_ImportFD ?t)) u = (Ret (), v)" "tlsObjs v = tlsObjs u"
    by (rule nss_run[OF ut])
  define rc where "rc = os E (hist v) (SSL_ImportFD ?t)"
  define z where "z = v\<lparr>hist := hist v @ [(SSL_ImportFD ?t, rc)], prError := (if c_rc rc < 0 then c_prerr rc else prError v)\<rparr>"
  have "below_nss u v" using keepsD[OF keeps_low_callbacks, of u] v(2) by (metis snd_conv)
  then have "hist_grows w z" by (auto simp: below_nss_def hist_grows_def u_def z_def)
  moreover have "nss E ?t (SSL_ImportFD ?t) u = (Ret rc, z)" using v(1) by (simp only: rc_def z_def)
  then have "bindM (newT fd) (\<lambda>t. bindM (nss E t (SSL_ImportFD t)) (k t)) w = k ?t rc z"
    for k :: "nat \<Rightarrow> cret \<Rightarrow> 'a M"
    by (simp add: bindM_def new)
  moreover have "tlsObjs z ?t = Some ?y" using v(3) ut by (simp add: z_def)
  ultimately show thesis by (intro that)
qed

lemma construction_undone:
  assumes "bindM (extcall E (PR_Close t)) (\<lambda>_. seqM (deleteT t) (throw e)) a = (res, w')" "hist_grows w a"
  shows "tlsObjs w' t = None \<and> (\<exists>rc. (PR_Close t, rc) \<in> set (new_calls w w')) \<and> res = Throw e"
  using assms
  by (auto simp: bindM_def seqM_def run_extcall deleteT_def run_basic new_calls_def hist_grows_def prefix_def)

text \<open>
  C29: a TLS object that cannot be configured leaves nothing behind. If the constructor throws, the NSS
  descriptor has been closed and the object is gone; if it returns, the object waits for early data
  and both of its ends use the given descriptor.
\<close>

theorem tls_construction:
  assumes "TLS_new E ctx fd w = (res, w')"
  shows "(\<forall>e. res = Throw e \<longrightarrow> tlsObjs w' (nextTls w) = None \<and>
      (\<exists>rc. (PR_Close (nextTls w), rc) \<in> set (new_calls w w'))) \<and>
    (\<forall>t. res = Ret t \<longrightarrow> t = nextTls w \<and>
      tlsObjs w' t = Some \<lparr>hs_state = S_WANT_EARLY, earlyWritten = 0, readFD = fd, writeFD = fd\<rparr>)"
proof -
  let ?t = "nextTls w"
  let ?config = "seqM (if tc_server ctx then
                seqM (nss_checked E ?t (SSL_ConfigServerCert ?t))
                     (if tc_antiReplay ctx then nss_checked E ?t (SSL_SetAntiReplayContext ?t) else ret ())
              else ret ())
       (seqM (if \<not> tc_server ctx then
                seqM (nss_checked E ?t (SSL_SetURL ?t (tc_sni ctx))) (nss_checked E ?t (SSL_SetCanFalseStart ?t))
              else ret ())
       (nss_checked E ?t (SSL_ResetHandshake ?t (tc_server ctx))))"
  let ?fail = "\<lambda>e. bindM (extcall E (PR_Close ?t)) (\<lambda>_. seqM (deleteT ?t) (throw e))"
  have steady: "steady ?t ?config" by (intro steady_seq steady_if steady_checked)
  obtain rc z where k: "\<And>k :: nat \<Rightarrow> cret \<Rightarrow> nat M.
      bindM (newT fd) (\<lambda>t. bindM (nss E t (SSL_ImportFD t)) (k t)) w = k ?t rc z"
    and z: "hist_grows w z" "tlsObjs z ?t = Some \<lparr>hs_state = S_WANT_EARLY, earlyWritten = 0, readFD = fd, writeFD = fd\<rparr>"
    using construction_imports[of fd E w, where 'a = nat] by blast
  from assms have run: "(if c_rc rc < 0 then bindM (gets prError) (\<lambda>err. ?fail (TLSException err))
      else tryM (seqM ?config (ret ?t)) ?fail) z = (res, w')"
    unfolding TLS_new_def k seqM_assoc .
  show ?thesis
  proof (cases "c_rc rc < 0")
    case True
    with run construction_undone[of E ?t "TLSException (prError z)" z, OF _ z(1)] show ?thesis
      by (auto simp: bindM_def[of "gets prError"] run_basic)
  next
    case False
    obtain r1 a where a: "?config z = (r1, a)" "r1 = Ret () \<or> (\<exists>e. r1 = Throw e)" "tlsObjs a = tlsObjs z" "hist_grows z a"
      using steady z(2) unfolding steady_def by (metis option.distinct(1))
    from a(2) show ?thesis
    proof (elim disjE exE)
      assume "r1 = Ret ()"
      with a run z False show ?thesis by (auto simp: tryM_def run_seq run_basic)
    next
      fix e assume "r1 = Throw e"
      with a run False have "?fail e a = (res, w')" by (simp add: tryM_def run_seq)
      from construction_undone[OF this hg.R_trans[OF z(1) a(4)]] show ?thesis by auto
    qed
  qed
qed

theorem tls_construction_witness:
  "tlsObjs (snd (TLS_new (scenario []) \<lparr>tc_server = True, tc_antiReplay = False, tc_sni = []\<rparr> 6 tls_world)) 1 = None"
proof -
  let ?ctx = "\<lparr>tc_server = True, tc_antiReplay = False, tc_sni = []\<rparr>"
  obtain res w' where run: "TLS_new (scenario []) ?ctx 6 tls_world = (res, w')" by fastforce
  have "\<exists>e. fst (TLS_new (scenario []) ?ctx 6 tls_world) = Throw e"
    by (simp add: TLS_new_def newT_def nss_def PR_SetError_def deleteT_def bindM_def seqM_def run_extcall run_basic
        scenario_os default_answer_def failed_def)
  moreover have "nextTls tls_world = 1" by (simp add: tls_world_def)
  ultimately show ?thesis using tls_construction[OF run] run by auto
qed

text \<open>
  A failed \<open>getpeername\<close> is reported to NSS as a success, although the error was set; a failed
  \<open>getsockname\<close> is reported as the failure it is.
\<close>

lemma peer_name_failure_hidden:
  assumes "tlsObjs w t = Some y" and "c_rc (os E (hist w) (GetPeerName (readFD y))) < 0"
    and "c_rc (os E (hist w) (GetSockName (readFD y))) < 0"
  shows "fst (dGetPeerName E t w) = Ret PR_SUCCESS \<and> fst (dGetName E t w) = Ret PR_FAILURE"
  using assms
  by (simp add: dGetPeerName_def dGetName_def mapError_override_def mapError_def PR_SetError_def bindM_def seqM_def
      getT_def run_extcall run_basic split: option.split)

section \<open>An end of file during the handshake\<close>

text \<open>
  C38: a peer that closes the connection during the handshake. When \<open>SSL_ForceHandshake\<close> fails with
  PR_END_OF_FILE_ERROR the error is passed over: the method returns as if the handshake were done and
  the object counts as connected.
\<close>

theorem eof_completes_handshake:
  assumes "tlsObjs w t = Some y" and "hs_state y = S_WANT_HANDSHAKE"
    and "\<forall>h. c_rc (os E h (SSL_ForceHandshake t)) < 0 \<and> c_prerr (os E h (SSL_ForceHandshake t)) = PR_END_OF_FILE_ERROR"
    and "\<forall>h. 0 \<le> c_rc (os E h (SSL_GetChannelInfo t)) \<and> \<not> c_flag (os E h (SSL_GetChannelInfo t))"
  shows "\<exists>w'. tls_clientHandshake E t r w = (Ret (), w') \<and> tlsObjs w' t = Some (y\<lparr>hs_state := S_LAISEZ_FAIRE\<rparr>)"
proof -
  let ?f = "SSL_ForceHandshake t" and ?i = "SSL_GetChannelInfo t"
  obtain u where u: "nss E t ?f w = (Ret (os E (hist u) ?f), u\<lparr>hist := hist u @ [(?f, os E (hist u) ?f)],
      prError := (if c_rc (os E (hist u) ?f) < 0 then c_prerr (os E (hist u) ?f) else prError u)\<rparr>)"
    "tlsObjs u = tlsObjs w" by (rule nss_run[OF assms(1)])
  let ?u = "u\<lparr>hist := hist u @ [(?f, os E (hist u) ?f)], prError := PR_END_OF_FILE_ERROR\<rparr>"
  have "tlsObjs ?u t = Some y" using u(2) assms(1) by simp
  then obtain v where v: "nss E t ?i ?u = (Ret (os E (hist v) ?i), v\<lparr>hist := hist v @ [(?i, os E (hist v) ?i)],
      prError := (if c_rc (os E (hist v) ?i) < 0 then c_prerr (os E (hist v) ?i) else prError v)\<rparr>)"
    "tlsObjs v = tlsObjs ?u" by (rule nss_run)
  have f: "nss E t ?f w = (Ret (os E (hist u) ?f), ?u)" "c_rc (os E (hist u) ?f) < 0" using u(1) assms(3) by simp_all
  have i: "0 \<le> c_rc (os E (hist v) ?i)" "\<not> c_flag (os E (hist v) ?i)" using assms(4) by simp_all
  have "getT t ?u = (Ret y, ?u)" "tlsHandleErr (writeFD y) ?u = (Ret (), ?u)"
    using u(2) assms(1) by (simp_all add: getT_def tlsHandleErr_def bindM_def run_basic)
  with f i v(1) have "clientHandshake_force E t r w = modT t (\<lambda>x. x\<lparr>hs_state := S_LAISEZ_FAIRE\<rparr>)
      (v\<lparr>hist := hist v @ [(?i, os E (hist v) ?i)]\<rparr>)"
    by (simp add: clientHandshake_force_def bindM_def seqM_def run_basic not_less[symmetric])
  then show ?thesis
    using assms(1,2) u(2) v(2) by (simp add: tls_clientHandshake_def bindM_def getT_def modT_def)
qed

theorem eof_completes_handshake_witness:
  "\<exists>w'. tls_clientHandshake ((tls_scenario [])\<lparr>os := \<lambda>h c. if c = SSL_GetChannelInfo 0 then returns 0
       else (failed EAGAIN)\<lparr>c_prerr := PR_END_OF_FILE_ERROR\<rparr>\<rparr>) 0 0
     (tls_world\<lparr>tlsObjs := [0 \<mapsto> \<lparr>hs_state = S_WANT_HANDSHAKE, earlyWritten = 0, readFD = 6, writeFD = 6\<rparr>]\<rparr>) = (Ret (), w')"
proof -
  let ?E = "(tls_scenario [])\<lparr>os := \<lambda>h c. if c = SSL_GetChannelInfo 0 then returns 0
       else (failed EAGAIN)\<lparr>c_prerr := PR_END_OF_FILE_ERROR\<rparr>\<rparr>"
  let ?y = "\<lparr>hs_state = S_WANT_HANDSHAKE, earlyWritten = 0, readFD = 6, writeFD = 6\<rparr>"
  have "tlsObjs (tls_world\<lparr>tlsObjs := [0 \<mapsto> ?y]\<rparr>) 0 = Some ?y" "hs_state ?y = S_WANT_HANDSHAKE" by simp_all
  from eof_completes_handshake[OF this, of ?E] show ?thesis by (auto simp: failed_def returns_def)
qed

end
