(* ===== verification/Startup.thy ===== *)
theory Startup
  imports Live Scenario
begin

text \<open>
  What happens before the first event (\<^verbatim>\<open>sixtysocks.cc\<close>, \<^verbatim>\<open>tls/tlslibrary.cc\<close>): numbers on the
  command line, which settings are accepted, and how a failed set-up of NSS is taken back.
\<close>

section \<open>Numbers on the command line\<close>

text \<open>The decimal notation of a number, as a user would type it.\<close>

definition digit :: "nat \<Rightarrow> char" where
  "digit k = ''0123456789'' ! k"

fun decimal :: "nat \<Rightarrow> string" where
  "decimal n = (if n < 10 then [digit n] else decimal (n div 10) @ [digit (n mod 10)])"

declare decimal.simps [simp del]

definition all_digits :: "string \<Rightarrow> bool" where
  "all_digits s \<longleftrightarrow> (\<forall>c \<in> set s. digit_value c \<noteq> None)"

lemma digit_value_digit: "k < 10 \<Longrightarrow> digit_value (digit k) = Some (int k)"
proof -
  assume "k < 10"
  then have "k \<in> {0, 1, 2, 3, 4, 5, 6, 7, 8, 9}" by auto
  then show ?thesis by (auto simp: digit_value_def digit_def)
qed

lemma digits_value_snoc:
  "all_digits s \<Longrightarrow> digit_value c = Some d \<Longrightarrow> digits_value acc (s @ [c]) = 10 * digits_value acc s + d"
  by (induction s arbitrary: acc) (auto simp: all_digits_def)

lemma decimal_digits: "all_digits (decimal n) \<and> digits_value 0 (decimal n) = int n"
proof (induction n rule: decimal.induct)
  case (1 n)
  show ?case
  proof (cases "n < 10")
    case True
    then show ?thesis
      by (subst (1 2) decimal.simps) (simp add: all_digits_def digit_value_digit)
  next
    case False
    then have IH: "all_digits (decimal (n div 10))" "digits_value 0 (decimal (n div 10)) = int (n div 10)"
      using 1 by auto
    have d: "digit_value (digit (n mod 10)) = Some (int (n mod 10))" by (simp add: digit_value_digit)
    have "10 * int (n div 10) + int (n mod 10) = int n"
      by (metis mult_div_mod_eq of_nat_add of_nat_mult of_nat_numeral)
    with False IH d digits_value_snoc[OF IH(1) d, of 0] show ?thesis
      by (subst (1 2) decimal.simps) (simp add: all_digits_def)
  qed
qed

lemma digit_char: "digit_value c \<noteq> None \<Longrightarrow> \<not> is_space c \<and> c \<noteq> CHR ''-'' \<and> c \<noteq> CHR ''+''"
  by (auto simp: digit_value_def is_space_def split: if_splits)

lemma decimal_not_empty: "decimal n \<noteq> []"
  by (subst decimal.simps) simp

lemma atoi_decimal:
  assumes "n < 2 ^ 31"
  shows "atoi (decimal n) = int n"
proof -
  obtain c cs where d: "decimal n = c # cs" using decimal_not_empty by (cases "decimal n") auto
  have "\<not> is_space c \<and> c \<noteq> CHR ''-'' \<and> c \<noteq> CHR ''+''"
    using decimal_digits[of n] d by (intro digit_char) (simp add: all_digits_def)
  then have "strtol (decimal n) = int n"
    using decimal_digits[of n] d assms by (simp add: strtol_def Let_def)
  moreover have "signed_take_bit 31 (int n) = int n"
    using assms by (intro signed_take_bit_int_eq_self) auto
  ultimately show ?thesis by (simp add: atoi_def)
qed



text \<open>\<open>inet_addr\<close> answers a malformed address with all ones, which is not what the code looks for.\<close>

lemma malformed_address_accepted:
  "inetAddr E arg = 0xffffffff \<Longrightarrow>
   parse_option E (CHR ''s'', arg) s = Some (s\<lparr>proxyAddr := (proxyAddr s)\<lparr>sa_addr := IPv4 0xffffffff\<rparr>\<rparr>)"
  by (simp add: parse_option_def Let_def)

text \<open>The address to which default services are redirected, as its four octets: 1.0.0.127.\<close>

lemma loopback_octets: "in_addr_octets INADDR_LOOPBACK = [1, 0, 0, 127]"
  by code_simp

section \<open>Which settings are accepted\<close>



section \<open>Setting up NSS\<close>

text \<open>A piece of the set-up: it returns or throws, after calls from a given set only.\<close>

definition sets_up :: "nss_global set \<Rightarrow> unit M \<Rightarrow> bool" where
  "sets_up G m \<longleftrightarrow> (\<forall>w. \<exists>r v h. m w = (r, v) \<and> (r = Ret () \<or> (\<exists>e. r = Throw e)) \<and> hist v = hist w @ h \<and>
     fst ` set h \<subseteq> NssGlobal ` G)"

lemma sets_up_checked: "sets_up {g} (checked_global E g)"
  unfolding sets_up_def by (auto simp: checked_global_def nss_global_call_def tlsCheck_def PR_SetError_def bindM_def seqM_def
      run_extcall run_basic)

lemma sets_up_seq:
  assumes "sets_up G m" "sets_up H n" shows "sets_up (G \<union> H) (seqM m n)"
  unfolding sets_up_def
proof
  fix w :: world
  from assms(1)[unfolded sets_up_def, rule_format, of w] obtain r v h where
    v: "m w = (r, v)" "r = Ret () \<or> (\<exists>e. r = Throw e)" "hist v = hist w @ h" "fst ` set h \<subseteq> NssGlobal ` G" by metis
  from assms(2)[unfolded sets_up_def, rule_format, of v] obtain r' u k where
    u: "n v = (r', u)" "r' = Ret () \<or> (\<exists>e. r' = Throw e)" "hist u = hist v @ k" "fst ` set k \<subseteq> NssGlobal ` H" by metis
  from v(2) show "\<exists>r u h. seqM m n w = (r, u) \<and> (r = Ret () \<or> (\<exists>e. r = Throw e)) \<and> hist u = hist w @ h \<and>
     fst ` set h \<subseteq> NssGlobal ` (G \<union> H)"
  proof
    assume "r = Ret ()"
    with v u show ?thesis by (intro exI[of _ r'] exI[of _ u] exI[of _ "h @ k"]) (auto simp: run_seq)
  next
    assume "\<exists>e. r = Throw e"
    with v show ?thesis by (intro exI[of _ r] exI[of _ v] exI[of _ h]) (auto simp: run_seq)
  qed
qed

lemma configure_calls:
  obtains r v h where "TLSLibrary_configure E w = (r, v)" "r = Ret () \<or> (\<exists>e. r = Throw e)" "hist v = hist w @ h"
    "\<forall>rc. (NssGlobal NSS_Shutdown, rc) \<notin> set h"
proof -
  have "\<exists>G. NSS_Shutdown \<notin> G \<and> sets_up G (TLSLibrary_configure E)"
    unfolding TLSLibrary_configure_def by (rule exI, rule conjI[rotated], (rule sets_up_seq sets_up_checked)+) simp
  then obtain G where G: "NSS_Shutdown \<notin> G" "sets_up G (TLSLibrary_configure E)" by blast
  from G(2)[unfolded sets_up_def, rule_format, of w] obtain r v h where "TLSLibrary_configure E w = (r, v)"
    "r = Ret () \<or> (\<exists>e. r = Throw e)" "hist v = hist w @ h" "fst ` set h \<subseteq> NssGlobal ` G" by metis
  moreover from this(4) G(1) have "\<forall>rc. (NssGlobal NSS_Shutdown, rc) \<notin> set h" by force
  ultimately show thesis by (intro that)
qed

lemma ignored_run: "ignored_global E g w = (Ret (), snd (ignored_global E g w))"
  "hist (snd (ignored_global E g w)) = hist w @ [(NssGlobal g, os E (hist w) (NssGlobal g))]"
  by (simp_all add: ignored_global_def nss_global_call_def bindM_def seqM_def run_extcall run_basic PR_SetError_def)

lemma global_run: "nss_global_call E g w = (Ret (os E (hist w) (NssGlobal g)), snd (nss_global_call E g w))"
  "hist (snd (nss_global_call E g w)) = hist w @ [(NssGlobal g, os E (hist w) (NssGlobal g))]"
  by (simp_all add: nss_global_call_def bindM_def seqM_def run_extcall run_basic PR_SetError_def)

lemma checked_run: "checked_global E g w = ((if c_rc (os E (hist w) (NssGlobal g)) < 0
    then Throw (TLSException (prError (snd (checked_global E g w)))) else Ret ()), snd (checked_global E g w))"
  "hist (snd (checked_global E g w)) = hist w @ [(NssGlobal g, os E (hist w) (NssGlobal g))]"
  by (simp_all add: checked_global_def tlsCheck_def nss_global_call_def bindM_def seqM_def run_extcall run_basic PR_SetError_def)

lemma nspr_destroyed:
  "seqM (NSPRLibrary_destroy E) (throw e) w = (Throw e, snd (NSPRLibrary_destroy E w))"
  "\<exists>rc1 rc2. hist (snd (NSPRLibrary_destroy E w)) = hist w @ [(NssGlobal SSL_ClearSessionCache, rc1), (NssGlobal PR_Cleanup, rc2)]"
  using ignored_run(1)[of E SSL_ClearSessionCache w] ignored_run(2)[of E SSL_ClearSessionCache w]
    ignored_run(1)[of E PR_Cleanup "snd (ignored_global E SSL_ClearSessionCache w)"]
    ignored_run(2)[of E PR_Cleanup "snd (ignored_global E SSL_ClearSessionCache w)"]
  by (auto simp: NSPRLibrary_destroy_def seqM_def bindM_def run_basic split: prod.splits)

text \<open>
  A failed set-up of NSS is taken back. When the constructor of TLSLibrary throws, the last call is the
  clean-up of NSPR, and NSS was shut down exactly if it had been initialised.
\<close>

lemma tls_library_unwound:
  assumes "TLSLibrary_new E dir w = (Throw e, w')"
  shows "fst (last (new_calls w w')) = NssGlobal PR_Cleanup \<and>
    ((\<exists>rc. (NssGlobal NSS_Shutdown, rc) \<in> set (new_calls w w')) \<longleftrightarrow>
     0 \<le> c_rc (os E (hist w @ [(NssGlobal PR_Init, os E (hist w) (NssGlobal PR_Init))]) (NssGlobal (NSS_Init dir))))"
proof -
  let ?init = "(NssGlobal PR_Init, os E (hist w) (NssGlobal PR_Init))"
  let ?rc = "os E (hist w @ [?init]) (NssGlobal (NSS_Init dir))"
  define u where "u = snd (ignored_global E PR_Init w)"
  have u: "NSPRLibrary_new E w = (Ret (), u)" "hist u = hist w @ [?init]"
    using ignored_run[of E PR_Init w] by (simp_all add: NSPRLibrary_new_def u_def)
  define v where "v = snd (checked_global E (NSS_Init dir) u)"
  have v: "hist v = hist w @ [?init, (NssGlobal (NSS_Init dir), ?rc)]"
    using checked_run(2)[of E "NSS_Init dir" u] u(2) by (simp add: v_def)
  let ?last = "\<lambda>e z. seqM (NSPRLibrary_destroy E) (throw e :: unit M) z"
  have fin: "fst (last (new_calls w w')) = NssGlobal PR_Cleanup \<and>
      ((\<exists>rc. (NssGlobal NSS_Shutdown, rc) \<in> set (new_calls w w')) \<longleftrightarrow> (\<exists>rc. (NssGlobal NSS_Shutdown, rc) \<in> set h))"
    if "?last e' z = (Throw e, w')" "hist z = hist w @ h" for e' z h
  proof -
    have "w' = snd (NSPRLibrary_destroy E z)" using that(1) unfolding nspr_destroyed(1) by simp
    with that(2) nspr_destroyed(2)[of E z] show ?thesis by (auto simp: new_calls_def)
  qed
  show ?thesis
  proof (cases "c_rc ?rc < 0")
    case True
    then have "?last (TLSException (prError v)) v = (Throw e, w')"
      using assms u checked_run(1)[of E "NSS_Init dir" u]
      by (simp add: TLSLibrary_new_def NSSLibrary_new_def run_seq run_try v_def)
    from fin[OF this v] True show ?thesis by simp
  next
    case False
    then have init: "NSSLibrary_new E dir u = (Ret (), v)"
      using u checked_run(1)[of E "NSS_Init dir" u] by (simp add: NSSLibrary_new_def v_def)
    obtain r y h where c: "TLSLibrary_configure E v = (r, y)" "r = Ret () \<or> (\<exists>e. r = Throw e)" "hist y = hist v @ h"
      "\<forall>rc. (NssGlobal NSS_Shutdown, rc) \<notin> set h" by (rule configure_calls)
    from c(2) obtain e1 where e1: "r = Throw e1"
      using assms u init c(1) by (auto simp: TLSLibrary_new_def run_seq run_try)
    define z where "z = snd (ignored_global E NSS_Shutdown y)"
    have z: "NSSLibrary_destroy E y = (Ret (), z)" "\<exists>rc. hist z = hist y @ [(NssGlobal NSS_Shutdown, rc)]"
      using ignored_run[of E NSS_Shutdown y] by (auto simp: NSSLibrary_destroy_def z_def)
    then obtain rc where hz: "hist z = hist y @ [(NssGlobal NSS_Shutdown, rc)]" by blast
    have "?last e1 z = (Throw e, w')"
      using assms u init c(1) e1 z(1) by (simp add: TLSLibrary_new_def run_seq run_try run_basic)
    from fin[OF this, of "[?init, (NssGlobal (NSS_Init dir), ?rc)] @ h @ [(NssGlobal NSS_Shutdown, rc)]"] hz c(3) v False
    show ?thesis by auto
  qed
qed

end
