(* ===== verification/Resources.thy ===== *)
theory Resources
  imports Live Scenario
begin

text \<open>
  What \<open>main\<close> takes from NSS and NSPR and gives back. \<open>nss_run\<close> is the discipline the calls on the
  library as a whole have to follow, as a machine whose stack holds what has been taken and not yet
  given back; it refuses a call. The rules \<open>stacked\<close> follow the stack through sequencing, exceptions
  and blocks, and the frame of the methods says that nothing between set-up and shut-down touches it.
\<close>

section \<open>The discipline\<close>

datatype resource = R_NSPR | R_NSS | R_Certificate | R_Key | R_AntiReplay

definition release :: "resource \<Rightarrow> resource list \<Rightarrow> resource list option" where
  "release r st = (case st of [] \<Rightarrow> None | x # xs \<Rightarrow> if x = r then Some xs else None)"

definition acquire :: "resource \<Rightarrow> resource \<Rightarrow> bool \<Rightarrow> resource list \<Rightarrow> resource list option" where
  "acquire r needed got st = (if needed \<notin> set st then None else Some (if got then r # st else st))"

text \<open>
  A resource is given back exactly when it was obtained, after those obtained later; NSS is
  initialised and shut down while NSPR is up, and every other call is made while NSS is up. The
  session cache is cleared while NSPR is up.
\<close>

definition nss_step :: "call \<times> cret \<Rightarrow> resource list \<Rightarrow> resource list option" where
  "nss_step cr st = (case fst cr of NssGlobal g \<Rightarrow> (case g of
       PR_Init \<Rightarrow> if st = [] then Some [R_NSPR] else None
     | PR_Cleanup \<Rightarrow> release R_NSPR st
     | NSS_Init _ \<Rightarrow> acquire R_NSS R_NSPR (0 \<le> c_rc (snd cr)) st
     | NSS_Shutdown \<Rightarrow> release R_NSS st
     | PK11_FindCertFromNickname _ \<Rightarrow> acquire R_Certificate R_NSS (0 \<le> c_rc (snd cr)) st
     | CERT_DestroyCertificate \<Rightarrow> release R_Certificate st
     | PK11_FindKeyByAnyCert \<Rightarrow> acquire R_Key R_Certificate (0 \<le> c_rc (snd cr)) st
     | SECKEY_DestroyPrivateKey \<Rightarrow> release R_Key st
     | SSL_CreateAntiReplayContext \<Rightarrow> acquire R_AntiReplay R_NSS (c_flag (snd cr)) st
     | SSL_ReleaseAntiReplayContext \<Rightarrow> release R_AntiReplay st
     | SSL_ClearSessionCache \<Rightarrow> if R_NSPR \<in> set st then Some st else None
     | _ \<Rightarrow> if R_NSS \<in> set st then Some st else None)
   | _ \<Rightarrow> Some st)"

fun nss_run :: "resource list \<Rightarrow> history \<Rightarrow> resource list option" where
  "nss_run st [] = Some st"
| "nss_run st (e # h) = (case nss_step e st of None \<Rightarrow> None | Some t \<Rightarrow> nss_run t h)"

lemma nss_run_append: "nss_run st (h @ k) = (case nss_run st h of None \<Rightarrow> None | Some t \<Rightarrow> nss_run t k)"
  by (induction h arbitrary: st) (auto split: option.splits)

lemma nss_run_globals: "nss_run st (globals h) = nss_run st h"
proof (induction h arbitrary: st)
  case (Cons e h)
  have "nss_step e st = Some st" if "\<not> global_call (fst e)"
    using that by (auto simp: nss_step_def global_call_def split: call.splits)
  with Cons show ?case by (auto simp: globals_def split: option.splits)
qed (simp add: globals_def)

section \<open>Following the stack\<close>

text \<open>
  From stack \<open>st\<close> the method leaves a stack with \<open>Q a\<close> when it returns \<open>a\<close> and the stack \<open>X\<close> when it
  throws, and makes no call that is refused.
\<close>

definition left :: "('a \<Rightarrow> resource list \<Rightarrow> bool) \<Rightarrow> resource list \<Rightarrow> 'a outcome \<Rightarrow> resource list \<Rightarrow> bool" where
  "left Q X res t \<longleftrightarrow> (case res of Ret a \<Rightarrow> Q a t | Throw e \<Rightarrow> t = X | Abort e \<Rightarrow> True)"

lemma left_simps [simp]: "left Q X (Ret a) t = Q a t" "left Q X (Throw e) t = (t = X)" "left Q X (Abort x) t"
  by (simp_all add: left_def)

definition stacked :: "resource list \<Rightarrow> 'a M \<Rightarrow> ('a \<Rightarrow> resource list \<Rightarrow> bool) \<Rightarrow> resource list \<Rightarrow> bool" where
  "stacked st m Q X \<longleftrightarrow> (\<forall>w. \<exists>t. hist_grows w (snd (m w)) \<and>
     nss_run st (new_calls w (snd (m w))) = Some t \<and> left Q X (fst (m w)) t)"

lemma stackedE:
  assumes "stacked st m Q X" "m w = (res, w')"
  obtains t where "hist_grows w w'" "nss_run st (new_calls w w') = Some t" "left Q X res t"
  using assms unfolding stacked_def by (metis fst_conv snd_conv)

lemma stackedI:
  assumes "\<And>w res w'. m w = (res, w') \<Longrightarrow>
    \<exists>t. hist_grows w w' \<and> nss_run st (new_calls w w') = Some t \<and> left Q X res t"
  shows "stacked st m Q X"
  unfolding stacked_def using assms by (metis prod.collapse)

lemma stacked_pure:
  "Q a st \<Longrightarrow> stacked st (ret a) Q X" "X = st \<Longrightarrow> stacked st (throw e) Q X"
  by (auto simp: stacked_def run_basic hg.R_refl new_calls_def)

lemma stacked_after:
  assumes "hist_grows w v" "nss_run st (new_calls w v) = Some p" "stacked p n Q X" "n v = (res, w')"
  shows "\<exists>t. hist_grows w w' \<and> nss_run st (new_calls w w') = Some t \<and> left Q X res t"
proof -
  obtain t where t: "hist_grows v w'" "nss_run p (new_calls v w') = Some t" "left Q X res t"
    by (rule stackedE[OF assms(3,4)])
  with assms(1,2) show ?thesis
    using new_calls_trans[OF assms(1) t(1)] by (auto simp: nss_run_append intro: hg.R_trans)
qed

lemma stacked_bind:
  assumes "stacked st m P X" "\<And>a p. P a p \<Longrightarrow> stacked p (f a) Q X"
  shows "stacked st (bindM m f) Q X"
proof (rule stackedI)
  fix w res w' assume run: "bindM m f w = (res, w')"
  obtain r v where m: "m w = (r, v)" by fastforce
  obtain p where p: "hist_grows w v" "nss_run st (new_calls w v) = Some p" "left P X r p"
    by (rule stackedE[OF assms(1) m])
  show "\<exists>t. hist_grows w w' \<and> nss_run st (new_calls w w') = Some t \<and> left Q X res t"
  proof (cases r)
    case (Ret a)
    with run m p(3) show ?thesis by (intro stacked_after[OF p(1,2) assms(2)]) (simp_all add: bindM_def)
  qed (use run m p in \<open>auto simp: bindM_def\<close>)
qed

lemma stacked_seq: "stacked st m (\<lambda>_ p. p = t) X \<Longrightarrow> stacked t n Q X \<Longrightarrow> stacked st (seqM m n) Q X"
  unfolding seqM_def by (rule stacked_bind[where P = "\<lambda>_ p. p = t"]) simp_all

lemma stacked_try:
  assumes "stacked st m Q Y" "\<And>e. stacked Y (h e) Q X"
  shows "stacked st (tryM m h) Q X"
proof (rule stackedI)
  fix w res w' assume run: "tryM m h w = (res, w')"
  obtain r v where m: "m w = (r, v)" by fastforce
  obtain p where p: "hist_grows w v" "nss_run st (new_calls w v) = Some p" "left Q Y r p"
    by (rule stackedE[OF assms(1) m])
  show "\<exists>t. hist_grows w w' \<and> nss_run st (new_calls w w') = Some t \<and> left Q X res t"
  proof (cases r)
    case (Throw e)
    with p(3) have "p = Y" by simp
    with run m p(2) Throw show ?thesis by (intro stacked_after[OF p(1) _ assms(2)]) (simp_all add: tryM_def)
  qed (use run m p in \<open>auto simp: tryM_def\<close>)
qed

lemma stacked_weaken:
  assumes "stacked st m P X" "\<And>a p. P a p \<Longrightarrow> Q a p"
  shows "stacked st m Q X"
proof (rule stackedI)
  fix w res w' assume "m w = (res, w')"
  then obtain t where "hist_grows w w'" "nss_run st (new_calls w w') = Some t" "left P X res t"
    by (rule stackedE[OF assms(1)])
  with assms(2) show "\<exists>t. hist_grows w w' \<and> nss_run st (new_calls w w') = Some t \<and> left Q X res t"
    by (cases res) auto
qed

lemma stacked_if:
  "(b \<Longrightarrow> stacked st m Q X) \<Longrightarrow> (\<not> b \<Longrightarrow> stacked st n Q X) \<Longrightarrow> stacked st (if b then m else n) Q X"
  by simp

text \<open>A block gives back what its object held.\<close>

lemma stacked_scoped:
  assumes "stacked st body (\<lambda>status p. status \<noteq> Running \<longrightarrow> p = st) st" "stacked st destroy (\<lambda>_ p. p = t) t"
  shows "stacked st (scoped destroy body) (\<lambda>status p. status \<noteq> Running \<longrightarrow> p = t) t"
proof -
  have "stacked p (if status = Running then ret status else seqM destroy (ret status))
      (\<lambda>status p. status \<noteq> Running \<longrightarrow> p = t) t" if "status \<noteq> Running \<longrightarrow> p = st" for status p
    using that by (intro stacked_if) (auto intro: stacked_pure stacked_seq[OF assms(2)])
  moreover have "stacked st (tryM body (\<lambda>e. seqM destroy (throw e))) (\<lambda>status p. status \<noteq> Running \<longrightarrow> p = st) t"
    by (intro stacked_try[OF assms(1)] stacked_seq[OF assms(2)] stacked_pure refl)
  ultimately show ?thesis unfolding scoped_def by (intro stacked_bind)
qed

section \<open>The methods in between\<close>

text \<open>No call on the library as a whole.\<close>

definition reserved :: "world \<Rightarrow> world \<Rightarrow> bool" where
  "reserved w w' \<longleftrightarrow> hist_grows w w' \<and> globals (hist w') = globals (hist w)"

interpretation rs: world_preorder reserved
  by unfold_locales (auto simp: reserved_def intro: hg.R_refl hg.R_trans)

lemma reserved_frame: "keeps frame m \<Longrightarrow> keeps reserved m"
  by (simp add: keeps_def frame_def reserved_def)

lemma reserved_step: "hist w' = hist w \<Longrightarrow> reserved w w'" "hist w' = hist w @ [(EpollWait, rc)] \<Longrightarrow> reserved w w'"
  by (auto simp: reserved_def hist_grows_def)

lemma stacked_reserved: "keeps reserved m \<Longrightarrow> stacked st m (\<lambda>_ p. p = st) st"
proof (rule stackedI)
  fix w res w' assume "keeps reserved m" "m w = (res, w')"
  then have r: "reserved w w'" using keepsD[of reserved m w] by simp
  then have "globals (new_calls w w') = []" by (auto simp: reserved_def hist_grows_def prefix_def new_calls_def)
  then have "nss_run st (new_calls w w') = Some st" using nss_run_globals[of st "new_calls w w'"] by simp
  with r show "\<exists>t. hist_grows w w' \<and> nss_run st (new_calls w w') = Some t \<and> left (\<lambda>_ p. p = st) st res t"
    by (cases res) (simp_all add: reserved_def)
qed

lemma reserved_loop:
  assumes "\<And>r fd ev. keeps frame (process r fd ev)"
  shows "keeps reserved (threadFun E process n)"
proof (induction n)
  case (Suc n)
  have x: "keeps reserved (extcall E EpollWait)" "keeps reserved (set_entry k e)" for k e
    by (auto simp: keeps_def run_extcall set_entry_def run_basic intro: reserved_step)
  have "keeps reserved (threadFun_pass E process)"
    unfolding threadFun_pass_def Let_def isActive_def
    by (intro rs.keeps_rules x reserved_frame[OF frame_runAs] reserved_frame[OF frame_basic(1)]
        reserved_frame[OF frame_basic(4)] assms)
  with Suc show ?case unfolding threadFun.simps by (intro rs.keeps_rules)
qed (simp add: rs.keeps_rules)

lemma reserved_join: "keeps reserved (Poller_join E)"
proof -
  have "keeps reserved (Poller_join_loop E ns)" for ns
    by (induction ns) (simp_all, (assumption | rule rs.keeps_rules | rule reserved_frame, (rule keeps_intro)+)+)
  then show ?thesis unfolding Poller_join_def by (intro rs.keeps_rules)
qed

lemma reserved_main_loop: "keeps reserved (main_loop E s pc cctx sctx n)"
proof -
  have "keeps reserved (Poller_new E N)" for N
    by (auto simp: keeps_def Poller_new_def bindM_def run_extcall run_basic reserved_def hist_grows_def split: if_splits)
  moreover have "keeps reserved Poller_stop"
    by (auto simp: keeps_def Poller_stop_def run_basic intro: reserved_step)
  moreover have "keeps reserved (main_listeners E s pc cctx sctx)" by (intro reserved_frame keeps_intro)
  moreover have "keeps reserved (threadFun E (dispatch E) n)" by (intro reserved_loop keeps_intro)
  ultimately show ?thesis unfolding main_loop_def by (intro rs.keeps_rules reserved_join)
qed

section \<open>Set-up and shut-down\<close>

lemma stacked_global:
  assumes "\<And>rc. nss_step (NssGlobal g, rc) st = Some (f rc)"
  shows "stacked st (nss_global_call E g) (\<lambda>rc p. p = f rc) X"
    "(\<And>rc. f rc = t) \<Longrightarrow> stacked st (ignored_global E g) (\<lambda>_ p. p = t) Y"
    "(\<And>rc. f rc = (if 0 \<le> c_rc rc then t else Z)) \<Longrightarrow> stacked st (checked_global E g) (\<lambda>_ p. p = t) Z"
  using assms
  by (auto simp: stacked_def nss_global_call_def ignored_global_def checked_global_def tlsCheck_def PR_SetError_def
      bindM_def seqM_def run_extcall run_basic hist_grows_def)

abbreviation library_stack :: "resource list" where
  "library_stack \<equiv> [R_NSS, R_NSPR]"

lemmas step_simps = nss_step_def acquire_def release_def

lemma stacked_ignored:
  "(\<And>rc. nss_step (NssGlobal g, rc) st = Some t) \<Longrightarrow> stacked st (ignored_global E g) (\<lambda>_ p. p = t) X"
  by (rule stacked_global(2)[where f = "\<lambda>_. t"]) simp_all

lemma stacked_library_parts:
  "stacked [] (NSPRLibrary_new E) (\<lambda>_ p. p = [R_NSPR]) X"
  "stacked [R_NSPR] (NSPRLibrary_destroy E) (\<lambda>_ p. p = []) Y"
  "stacked [R_NSPR] (NSSLibrary_new E dir) (\<lambda>_ p. p = library_stack) [R_NSPR]"
  "stacked library_stack (NSSLibrary_destroy E) (\<lambda>_ p. p = [R_NSPR]) Z"
proof -
  show "stacked [R_NSPR] (NSPRLibrary_destroy E) (\<lambda>_ p. p = []) Y"
    unfolding NSPRLibrary_destroy_def
    by (rule stacked_seq[where t = "[R_NSPR]"]; rule stacked_ignored) (simp_all add: step_simps)
  show "stacked [R_NSPR] (NSSLibrary_new E dir) (\<lambda>_ p. p = library_stack) [R_NSPR]"
    unfolding NSSLibrary_new_def
    by (rule stacked_global(3)[where f = "\<lambda>rc. if 0 \<le> c_rc rc then library_stack else [R_NSPR]"])
      (simp_all add: step_simps)
qed (simp_all add: NSPRLibrary_new_def NSSLibrary_destroy_def stacked_ignored step_simps)

lemma stacked_setting:
  assumes "g \<in> {SSL_VersionRangeSetDefault, SSL_ConfigServerSessionIDCache n} \<union> range SSL_OptionSetDefault"
  shows "stacked library_stack (checked_global E g) (\<lambda>_ p. p = library_stack) library_stack"
  by (rule stacked_global(3)[where f = "\<lambda>_. library_stack"]) (use assms in \<open>auto simp: step_simps\<close>)

lemma stacked_configure: "stacked library_stack (TLSLibrary_configure E) (\<lambda>_ p. p = library_stack) library_stack"
  unfolding TLSLibrary_configure_def
  by (intro stacked_seq[where t = library_stack] stacked_setting[where n = SID_CACHE_ENTRIES]; simp)

lemma stacked_library:
  "stacked [] (TLSLibrary_new E dir) (\<lambda>_ p. p = library_stack) []"
  "stacked library_stack (TLSLibrary_destroy E) (\<lambda>_ p. p = []) []"
proof -
  note p = stacked_library_parts
  have "stacked library_stack (tryM (TLSLibrary_configure E) (\<lambda>e. seqM (NSSLibrary_destroy E) (throw e)))
      (\<lambda>_ p. p = library_stack) [R_NSPR]"
    by (intro stacked_try[OF stacked_configure] stacked_seq[OF p(4)] stacked_pure refl)
  then show "stacked [] (TLSLibrary_new E dir) (\<lambda>_ p. p = library_stack) []"
    unfolding TLSLibrary_new_def
    by (intro stacked_seq[OF p(1)] stacked_try[OF stacked_seq[OF p(3)]] stacked_seq[OF p(2)] stacked_pure refl)
  show "stacked library_stack (TLSLibrary_destroy E) (\<lambda>_ p. p = []) []"
    unfolding TLSLibrary_destroy_def by (rule stacked_seq[OF p(4) p(2)])
qed

text \<open>What a context holds.\<close>

definition held :: "tlscontext option \<Rightarrow> resource list" where
  "held ctx = (case ctx of None \<Rightarrow> [] | Some c \<Rightarrow>
     (if tc_antiReplay c then [R_AntiReplay] else []) @ (if tc_server c then [R_Key, R_Certificate] else []))"

lemma stacked_context:
  "stacked library_stack (TLSContext_new E server nn sn) (\<lambda>c p. p = held (Some c) @ library_stack) library_stack"
proof -
  let ?L = library_stack
  let ?k = "R_Key # R_Certificate # ?L"
  have c: "stacked ?L (nss_global_call E (PK11_FindCertFromNickname nn))
      (\<lambda>rc p. p = (if 0 \<le> c_rc rc then R_Certificate # ?L else ?L)) ?L"
    by (rule stacked_global(1)) (simp add: step_simps)
  have k: "stacked (R_Certificate # ?L) (nss_global_call E PK11_FindKeyByAnyCert)
      (\<lambda>rc p. p = (if 0 \<le> c_rc rc then ?k else R_Certificate # ?L)) ?L"
    by (rule stacked_global(1)) (simp add: step_simps)
  have d: "stacked (R_Certificate # ?L) (ignored_global E CERT_DestroyCertificate) (\<lambda>_ p. p = ?L) ?L"
    by (rule stacked_ignored) (simp add: step_simps)
  have a: "stacked ?k (nss_global_call E SSL_CreateAntiReplayContext)
      (\<lambda>rc p. p = (if c_flag rc then R_AntiReplay # ?k else ?k)) ?L"
    by (rule stacked_global(1)) (simp add: step_simps)
  have t: "stacked p (tryM (tlsCheck rc) (\<lambda>e. case e of TLSException _ \<Rightarrow> ret () | _ \<Rightarrow> throw e)) (\<lambda>_ q. q = p) ?L"
    for p and rc :: cret
    by (auto simp: stacked_def tlsCheck_def tryM_def bindM_def run_basic hg.R_refl new_calls_def)
  have made: "stacked ?k (bindM (nss_global_call E SSL_CreateAntiReplayContext) (\<lambda>status.
      seqM (tryM (tlsCheck status) (\<lambda>e. case e of TLSException _ \<Rightarrow> ret () | _ \<Rightarrow> throw e))
           (ret \<lparr>tc_server = True, tc_antiReplay = c_flag status, tc_sni = sn\<rparr>)))
      (\<lambda>c p. p = held (Some c) @ ?L) ?L"
    by (intro stacked_bind[OF a] stacked_seq[OF t] stacked_pure) (simp add: held_def)
  have key: "stacked p (if c_rc rc < 0
        then seqM (ignored_global E CERT_DestroyCertificate) (throw (RuntimeError ''Can't find key''))
        else bindM (nss_global_call E SSL_CreateAntiReplayContext) (\<lambda>status.
          seqM (tryM (tlsCheck status) (\<lambda>e. case e of TLSException _ \<Rightarrow> ret () | _ \<Rightarrow> throw e))
               (ret \<lparr>tc_server = True, tc_antiReplay = c_flag status, tc_sni = sn\<rparr>)))
      (\<lambda>c p. p = held (Some c) @ ?L) ?L"
    if "p = (if 0 \<le> c_rc rc then ?k else R_Certificate # ?L)" for rc p
    using that made stacked_seq[OF d stacked_pure(2)[OF refl]] by (intro stacked_if) simp_all
  have client: "stacked ?L (if sn = '''' then throw (InvalidArgument ''SNI is required'')
      else ret \<lparr>tc_server = False, tc_antiReplay = False, tc_sni = sn\<rparr>) (\<lambda>c p. p = held (Some c) @ ?L) ?L"
    by (intro stacked_if stacked_pure) (simp_all add: held_def)
  have cert: "stacked p (if c_rc rc < 0 then throw (RuntimeError ''Can't find certificate'') else m)
      (\<lambda>c p. p = held (Some c) @ ?L) ?L"
    if "p = (if 0 \<le> c_rc rc then R_Certificate # ?L else ?L)"
      "stacked (R_Certificate # ?L) m (\<lambda>c p. p = held (Some c) @ ?L) ?L" for rc p m
    using that by (intro stacked_if) (simp_all add: stacked_pure)
  show ?thesis
  proof (cases server)
    case True
    then show ?thesis
      unfolding TLSContext_new_def Let_def
      by (simp only: if_True) (intro stacked_bind[OF c] cert stacked_bind[OF k] key)
  next
    case False
    with client show ?thesis by (simp add: TLSContext_new_def)
  qed
qed

lemma stacked_destroy_context: "stacked (held (Some c) @ st) (TLSContext_destroy E c) (\<lambda>_ p. p = st) X"
proof -
  let ?k = "if tc_server c then R_Key # R_Certificate # st else st"
  have "stacked (held (Some c) @ st) (if tc_antiReplay c then antiReplayCtxDeleter E else ret ()) (\<lambda>_ p. p = ?k) X"
    unfolding antiReplayCtxDeleter_def held_def
    by (intro stacked_if stacked_pure stacked_ignored) (simp_all add: step_simps)
  moreover have "stacked ?k (if tc_server c
      then seqM (ignored_global E SECKEY_DestroyPrivateKey) (ignored_global E CERT_DestroyCertificate) else ret ())
      (\<lambda>_ p. p = st) X"
    by (intro stacked_if stacked_pure stacked_seq[where t = "R_Certificate # st"] stacked_ignored)
      (simp_all add: step_simps)
  ultimately show ?thesis unfolding TLSContext_destroy_def by (rule stacked_seq)
qed

lemma stacked_destroy_contexts:
  "stacked (held sctx @ held cctx @ st) (destroy_contexts E cctx sctx) (\<lambda>_ p. p = st) X"
proof -
  have "stacked (held ctx @ t) (case ctx of None \<Rightarrow> ret () | Some c \<Rightarrow> TLSContext_destroy E c) (\<lambda>_ p. p = t) X" for ctx t
    by (cases ctx) (simp_all add: stacked_destroy_context, simp add: held_def stacked_pure)
  then show ?thesis unfolding destroy_contexts_def by (intro stacked_seq)
qed

lemma stacked_contexts:
  "stacked (if useTLS s then library_stack else []) (main_contexts E s)
     (\<lambda>(cctx, sctx) p. p = held sctx @ held cctx @ (if useTLS s then library_stack else []))
     (if useTLS s then library_stack else [])"
proof (cases "useTLS s")
  case True
  have none: "held None = []" by (simp add: held_def)
  show ?thesis
    using True unfolding main_contexts_def
    by (simp, intro conjI impI stacked_bind[OF stacked_context] stacked_pure) (simp_all add: none)
qed (simp add: main_contexts_def stacked_pure held_def)

section \<open>The program\<close>

lemma stacked_main_run:
  "stacked (if useTLS s then library_stack else []) (main_run E s pc n)
     (\<lambda>status p. status \<noteq> Running \<longrightarrow> p = (if useTLS s then library_stack else []))
     (if useTLS s then library_stack else [])"
proof -
  let ?L = "if useTLS s then library_stack else []"
  have "stacked (held sctx @ held cctx @ ?L) (main_loop E s pc cctx sctx n)
      (\<lambda>_ p. p = held sctx @ held cctx @ ?L) (held sctx @ held cctx @ ?L)" for sctx cctx
    by (rule stacked_reserved[OF reserved_main_loop])
  then have "stacked (held sctx @ held cctx @ ?L) (main_loop E s pc cctx sctx n)
      (\<lambda>status p. status \<noteq> Running \<longrightarrow> p = held sctx @ held cctx @ ?L) (held sctx @ held cctx @ ?L)" for sctx cctx
    by (rule stacked_weaken) simp
  then have "stacked (held sctx @ held cctx @ ?L) (scoped (destroy_contexts E cctx sctx) (main_loop E s pc cctx sctx n))
      (\<lambda>status p. status \<noteq> Running \<longrightarrow> p = ?L) ?L" for sctx cctx
    by (intro stacked_scoped stacked_destroy_contexts)
  then show ?thesis
    unfolding main_run_def by (intro stacked_bind[OF stacked_contexts]) auto
qed

lemma stacked_with_library:
  "stacked [] (with_library E s (main_run E s pc n)) (\<lambda>status p. status \<noteq> Running \<longrightarrow> p = []) []"
proof (cases "useTLS s")
  case True
  then show ?thesis
    using stacked_main_run[of s E pc n] unfolding with_library_def
    by (simp, intro stacked_seq[OF stacked_library(1)] stacked_scoped stacked_library(2))
qed (use stacked_main_run[of s E pc n] in \<open>simp add: with_library_def\<close>)

lemma stacked_main: "stacked [] (main E argv n) (\<lambda>status p. status \<noteq> Running \<longrightarrow> p = []) []"
proof (cases "parse_options E argv (initial_settings E)")
  case (Some s)
  have run: "stacked [] (tryM (with_library E t (main_run E t pc n)) (\<lambda>_. ret EXIT_FAILURE))
      (\<lambda>status p. status \<noteq> Running \<longrightarrow> p = []) []" for t pc
    by (intro stacked_try[OF stacked_with_library] stacked_pure) simp
  have "stacked [] (liftO (check_settings s)) (\<lambda>_ p. p = []) []"
    by (cases "check_settings s") (simp_all add: stacked_def run_basic hg.R_refl new_calls_def)
  with Some run show ?thesis
    unfolding main_def
    by (simp, elim stacked_bind) (auto split: option.splits intro: stacked_pure)
qed (simp add: main_def stacked_pure)

text \<open>
  When no anti-replay context can be created, what the uninitialised variable held is kept, and the
  context that is made will release it.
\<close>

lemma antireplay_garbage_kept:
  assumes "\<And>h. \<not> c_rc (os E h (NssGlobal (PK11_FindCertFromNickname nn))) < 0"
    "\<And>h. \<not> c_rc (os E h (NssGlobal PK11_FindKeyByAnyCert)) < 0"
    "\<And>h. c_rc (os E h (NssGlobal SSL_CreateAntiReplayContext)) < 0"
    "\<And>h. c_flag (os E h (NssGlobal SSL_CreateAntiReplayContext))"
  shows "fst (TLSContext_new E True nn sn w) = Ret \<lparr>tc_server = True, tc_antiReplay = True, tc_sni = sn\<rparr>"
  using assms
  by (simp add: TLSContext_new_def nss_global_call_def tlsCheck_def PR_SetError_def bindM_def seqM_def tryM_def
      run_extcall run_basic Let_def)

text \<open>The order of the shut-down: the session cache is cleared when NSS is no longer there.\<close>

lemma teardown_order:
  "\<exists>r1 r2 r3. hist (snd (TLSLibrary_destroy E w)) =
     hist w @ [(NssGlobal NSS_Shutdown, r1), (NssGlobal SSL_ClearSessionCache, r2), (NssGlobal PR_Cleanup, r3)]"
  by (simp add: TLSLibrary_destroy_def NSSLibrary_destroy_def NSPRLibrary_destroy_def ignored_global_def
      nss_global_call_def PR_SetError_def bindM_def seqM_def run_extcall run_basic)


text \<open>A set-up that gets as far as the certificate, for which there is no key.\<close>

lemma legit_global [simp]: "legit h (NssGlobal g) rc"
  by (simp add: legit_def recv_ok_def send_ok_def)


end
