(* ===== verification/ReplyPath.thy ===== *)
theory ReplyPath
  imports Wellformed Client
begin

text \<open>
  The way back from the proxy to the client: the downstreamer takes the two replies off the front of
  what the proxy sends and passes on the rest. The relation \<open>stripped E r\<close> follows the data of a
  downstreamer over its states: what was buffered followed by what the proxy sent is what has been
  taken for replies, followed by what the client was sent, followed by what is still buffered; and
  the client is sent nothing before both replies have been taken off.
\<close>

section \<open>What is taken for a reply\<close>

definition auth_bytes :: "env \<Rightarrow> byte list \<Rightarrow> bool" where
  "auth_bytes E xs \<longleftrightarrow> (\<exists>more rep. parseAuthReply E (xs @ more) = Inr (rep, length xs) \<and>
     av_code rep = SOCKS6_AUTH_REPLY_SUCCESS)"

definition op_bytes :: "env \<Rightarrow> byte list \<Rightarrow> bool" where
  "op_bytes E xs \<longleftrightarrow> (\<exists>more. parseOpReply E (xs @ more) = Inr (SOCKS6_OPERATION_REPLY_SUCCESS, length xs))"

fun taken :: "env \<Rightarrow> ProxifierDownState \<Rightarrow> ProxifierDownState \<Rightarrow> byte list \<Rightarrow> bool" where
  "taken E XD_WAITING_FOR_AUTH_REP XD_WAITING_FOR_AUTH_REP xs = (xs = [])"
| "taken E XD_WAITING_FOR_AUTH_REP XD_WAITING_FOR_OP_REP xs = auth_bytes E xs"
| "taken E XD_WAITING_FOR_AUTH_REP XD_STREAM xs = (\<exists>a b. xs = a @ b \<and> auth_bytes E a \<and> op_bytes E b)"
| "taken E XD_WAITING_FOR_OP_REP XD_WAITING_FOR_OP_REP xs = (xs = [])"
| "taken E XD_WAITING_FOR_OP_REP XD_STREAM xs = op_bytes E xs"
| "taken E XD_STREAM XD_STREAM xs = (xs = [])"
| "taken E _ _ xs = False"

lemma taken_refl: "taken E s s []"
  by (cases s) simp_all

lemma taken_trans: "taken E s t xs \<Longrightarrow> taken E t u ys \<Longrightarrow> taken E s u (xs @ ys)"
  by (cases s; cases t; cases u) auto

lemma taken_stream: "taken E XD_STREAM t xs \<Longrightarrow> t = XD_STREAM \<and> xs = []"
  by (cases t) simp_all

section \<open>The relation\<close>

definition down_at :: "rid \<Rightarrow> ProxifierDownState \<Rightarrow> socket \<Rightarrow> socket \<Rightarrow> world \<Rightarrow> byte list \<Rightarrow> bool" where
  "down_at r st s d w xs \<longleftrightarrow> (\<exists>x xd. reactors w r = Some x \<and> cls x = CProxifierDownstreamer xd \<and> xd_state xd = st \<and>
     sb_ok (buf x) \<and> contents (buf x) = xs \<and> sock_after s (srcSock x) \<and> sock_after d (dstSock x))"

definition stripped :: "env \<Rightarrow> rid \<Rightarrow> world \<Rightarrow> world \<Rightarrow> bool" where
  "stripped E r w w' \<longleftrightarrow> hist_grows w w' \<and> (\<forall>st s d xs. down_at r st s d w xs \<longrightarrow>
     (\<exists>st' xs' reps. down_at r st' s d w' xs' \<and> taken E st st' reps \<and>
        xs @ data_in s (new_calls w w') = reps @ data_out d (new_calls w w') @ xs' \<and>
        (st' \<noteq> XD_STREAM \<longrightarrow> data_out d (new_calls w w') = [])))"

lemma stripped_refl: "stripped E r w w"
  unfolding stripped_def
proof (intro conjI allI impI)
  fix st s d xs assume "down_at r st s d w xs"
  then show "\<exists>st' xs' reps. down_at r st' s d w xs' \<and> taken E st st' reps \<and>
      xs @ data_in s (new_calls w w) = reps @ data_out d (new_calls w w) @ xs' \<and>
      (st' \<noteq> XD_STREAM \<longrightarrow> data_out d (new_calls w w) = [])"
    using taken_refl[of E st] by (intro exI[of _ st] exI[of _ xs] exI[of _ "[]"]) (simp add: new_calls_def)
qed (rule hg.R_refl)

lemma stripped_trans:
  assumes "stripped E r u v" "stripped E r v w"
  shows "stripped E r u w"
  unfolding stripped_def
proof (intro conjI allI impI)
  show "hist_grows u w" using assms by (auto simp: stripped_def intro: hg.R_trans)
next
  fix st s d xs assume "down_at r st s d u xs"
  with assms(1) obtain st1 xs1 reps1 where 1: "down_at r st1 s d v xs1" "taken E st st1 reps1"
    "xs @ data_in s (new_calls u v) = reps1 @ data_out d (new_calls u v) @ xs1"
    "st1 \<noteq> XD_STREAM \<longrightarrow> data_out d (new_calls u v) = []" unfolding stripped_def by meson
  with assms(2) obtain st2 xs2 reps2 where 2: "down_at r st2 s d w xs2" "taken E st1 st2 reps2"
    "xs1 @ data_in s (new_calls v w) = reps2 @ data_out d (new_calls v w) @ xs2"
    "st2 \<noteq> XD_STREAM \<longrightarrow> data_out d (new_calls v w) = []" unfolding stripped_def by meson
  have c: "new_calls u w = new_calls u v @ new_calls v w"
    using assms by (auto simp: stripped_def intro: new_calls_trans)
  have "xs @ data_in s (new_calls u w) = (reps1 @ reps2) @ data_out d (new_calls u w) @ xs2 \<and>
      (st2 \<noteq> XD_STREAM \<longrightarrow> data_out d (new_calls u w) = [])"
  proof (cases "st1 = XD_STREAM")
    case True
    with 2(2) have "st2 = XD_STREAM" "reps2 = []" using taken_stream by auto
    then show ?thesis using 1(3) 2(3) by (simp add: c) (metis append.assoc)
  next
    case False
    with 1 2 show ?thesis by (simp add: c) (metis append.assoc)
  qed
  with 2(1) taken_trans[OF 1(2) 2(2)] show "\<exists>st' xs' reps. down_at r st' s d w xs' \<and> taken E st st' reps \<and>
      xs @ data_in s (new_calls u w) = reps @ data_out d (new_calls u w) @ xs' \<and>
      (st' \<noteq> XD_STREAM \<longrightarrow> data_out d (new_calls u w) = [])" by blast
qed

interpretation sr: world_preorder "stripped E r"
  by unfold_locales (auto intro: stripped_refl stripped_trans)

section \<open>Steps that leave the class of a downstreamer alone\<close>

definition same_class :: "rid \<Rightarrow> world \<Rightarrow> world \<Rightarrow> bool" where
  "same_class r w w' \<longleftrightarrow> (\<forall>x xd. reactors w r = Some x \<and> cls x = CProxifierDownstreamer xd \<longrightarrow>
     (\<exists>x'. reactors w' r = Some x' \<and> cls x' = cls x))"

interpretation sc: world_preorder "same_class r"
  by unfold_locales (simp_all add: same_class_def, metis)

lemma same_heap: "reactors w' = reactors w \<Longrightarrow> same_class r w w'"
  by (auto simp: same_class_def)

lemma same_modR [keeps_intro]:
  "(\<And>x xd. cls x = CProxifierDownstreamer xd \<Longrightarrow> cls (f x) = cls x) \<Longrightarrow> keeps (same_class r) (modR q f)"
  by (auto simp: keeps_def same_class_def modR_def split: option.split)

lemma same_basic [keeps_intro]:
  "keeps (same_class r) (getR q)" "keeps (same_class r) (extcall E c)" "keeps (same_class r) (set_entry n e)"
  "keeps (same_class r) (entry_at fd)" "keeps (same_class r) (getCS s)" "keeps (same_class r) (newCS y)"
  "keeps (same_class r) (getSP t)" "keeps (same_class r) (setSP t z)"
  by (auto simp: keeps_def getR_def run_extcall set_entry_def entry_at_def run_basic getCS_def newCS_def getSP_def
      setSP_def intro!: same_heap split: option.split)

lemma same_fields [keeps_intro]:
  "keeps (same_class r) (modBuf q g)" "keeps (same_class r) (set_streamState q st)"
  "keeps (same_class r) (modPF q h)"
  unfolding modBuf_def set_streamState_def modPF_def by (intro keeps_intro; simp)+

lemma same_poller [keeps_intro]:
  "keeps (same_class r) (Poller_add E q fd ev)" "keeps (same_class r) (Poller_remove E fd force)"
  unfolding Poller_add_def Poller_remove_def runIfActive_def isActive_def Let_def
  by (intro sc.keeps_rules keeps_intro)+

lemma same_uniqfd [keeps_intro]:
  "keeps (same_class r) (UniqRecvFD_reset E fd)" "keeps (same_class r) (UniqSendFD_reset E fd)"
  unfolding uniqfd_defs by (intro sc.keeps_rules keeps_intro)+

lemma same_close [keeps_intro]:
  "keeps (same_class r) (close_srcSock E q)" "keeps (same_class r) (close_dstSock E q)"
  unfolding close_srcSock_def close_dstSock_def reset_srcSock_def reset_dstSock_def
  by (intro sc.keeps_rules keeps_intro; simp)+

lemma same_deactivates [keeps_intro]:
  "keeps (same_class r) (Reactor_deactivate q)" "keeps (same_class r) (ListenReactor_deactivate E q)"
  "keeps (same_class r) (StickReactor_deactivate E q)" "keeps (same_class r) (StreamReactor_deactivate E q)"
  "keeps (same_class r) (TimeoutReactor_deactivate E q)" "keeps (same_class r) (AuthServer_deactivate E q u)"
  unfolding deactivate_defs by (intro sc.keeps_rules keeps_intro; simp)+

lemma same_deactivate [keeps_intro]: "keeps (same_class r) (deactivate E q)"
  unfolding deactivate_def by (intro sc.keeps_rules keeps_intro keeps_class_case)

lemma same_get [keeps_intro]: "keeps (same_class r) (getXU q)" "keeps (same_class r) (getXD q)"
  unfolding getXU_def getXD_def by (intro sc.keeps_rules keeps_intro keeps_class_case)+

lemma same_session [keeps_intro]:
  "keeps (same_class r) (ProxifierDownstreamer_session E p s rep)" "keeps (same_class r) (supplicant_process_reply E t rep)"
  unfolding ProxifierDownstreamer_session_def killSession_def updateWallet_def supplicant_process_reply_def
    ClientSession_new_def setSession_def supplicantDone_def
  by (intro sc.keeps_rules keeps_intro)+

lemma same_low: "keeps below_nss m \<Longrightarrow> keeps (same_class r) m"
  by (auto simp: keeps_def below_nss_def intro: same_heap)

lemma same_tls [keeps_intro]:
  "keeps (same_class r) (nss E t c)" "keeps (same_class r) (tlsHandleErr fd)" "keeps (same_class r) (getT t)"
proof -
  have "keeps below_nss (run_callbacks E t cs)" for cs by (intro keeps_intro)
  then show "keeps (same_class r) (nss E t c)"
    unfolding nss_def
    by (intro sc.keeps_rules keeps_intro same_low) (auto simp: keeps_def PR_SetError_def run_basic below_nss_def data_free_def)
qed (intro same_low keeps_intro)+

lemma same_io [keeps_intro]:
  "keeps (same_class r) (sockRecv E s q)" "keeps (same_class r) (sockSend E s q)"
  unfolding sockRecv_def sockSend_def tlsRead_def tcpRecv_def tlsWrite_def tcpSend_def buf_receive_def buffered_def
  by (intro sc.keeps_rules keeps_intro)+

lemma same_stream [keeps_intro]: "keeps (same_class r) (StreamReactor_process E q)"
  unfolding StreamReactor_process_def StreamReactor_receiving_def StreamReactor_sending_def
  by (intro sc.keeps_rules keeps_intro keeps_choices)

lemma same_enter [keeps_intro]: "keeps (same_class r) (enter_stream E q)"
  unfolding enter_stream_def by (intro sc.keeps_rules keeps_intro)

section \<open>Single steps\<close>

lemma down_at_after:
  assumes "down_at r st s d w xs" "quiet r w w'" "same_class r w w'"
  shows "down_at r st s d w' xs"
proof -
  obtain x xd where x: "reactors w r = Some x" "cls x = CProxifierDownstreamer xd" "xd_state xd = st"
    "sb_ok (buf x)" "contents (buf x) = xs" "sock_after s (srcSock x)" "sock_after d (dstSock x)"
    using assms(1) by (auto simp: down_at_def)
  obtain y where y: "reactors w' r = Some y" "buf y = buf x" "sock_after (srcSock x) (srcSock y)"
    "sock_after (dstSock x) (dstSock y)" using assms(2) x(1) by (auto simp: quiet_def)
  have "cls y = cls x" using assms(3) x(1,2) y(1) by (auto simp: same_class_def)
  with x y show ?thesis unfolding down_at_def by (auto intro: sock_after_trans)
qed

lemma quiet_calls:
  assumes "quiet r w w'" shows "hist_grows w w'" "data_free (new_calls w w')"
  using assms by (auto simp: quiet_def hist_grows_def)

lemma stripped_quiet:
  assumes "quiet r w w'" "same_class r w w'"
  shows "stripped E r w w'"
  unfolding stripped_def
proof (intro conjI allI impI)
  fix st s d xs assume "down_at r st s d w xs"
  from down_at_after[OF this assms] taken_refl[of E st] data_free_no_data[OF quiet_calls(2)[OF assms(1)]]
  show "\<exists>st' xs' reps. down_at r st' s d w' xs' \<and> taken E st st' reps \<and>
      xs @ data_in s (new_calls w w') = reps @ data_out d (new_calls w w') @ xs' \<and>
      (st' \<noteq> XD_STREAM \<longrightarrow> data_out d (new_calls w w') = [])"
    by (intro exI[of _ st] exI[of _ xs] exI[of _ "[]"]) simp
qed (rule quiet_calls(1)[OF assms(1)])

definition in_state :: "rid \<Rightarrow> ProxifierDownState \<Rightarrow> world \<Rightarrow> bool" where
  "in_state r st w \<longleftrightarrow> (\<exists>x xd. reactors w r = Some x \<and> cls x = CProxifierDownstreamer xd \<and> xd_state xd = st \<and>
     sb_ok (buf x))"

lemma in_state_after:
  assumes "in_state r st w" "stripped E r w w'" "same_class r w w'"
  shows "in_state r st w'"
proof -
  obtain x xd where x: "reactors w r = Some x" "cls x = CProxifierDownstreamer xd" "xd_state xd = st" "sb_ok (buf x)"
    using assms(1) by (auto simp: in_state_def)
  then have "down_at r st (srcSock x) (dstSock x) w (contents (buf x))" by (simp add: down_at_def)
  with assms(2) obtain st' xs' where "down_at r st' (srcSock x) (dstSock x) w' xs'"
    unfolding stripped_def by meson
  with assms(3) x show ?thesis by (auto simp: down_at_def in_state_def same_class_def)
qed

lemma in_state_strip:
  assumes "in_state r st w" "stripped E r w w'"
  shows "\<exists>st'. in_state r st' w'"
proof -
  obtain x xd where x: "reactors w r = Some x" "cls x = CProxifierDownstreamer xd" "xd_state xd = st" "sb_ok (buf x)"
    using assms(1) by (auto simp: in_state_def)
  then have "down_at r st (srcSock x) (dstSock x) w (contents (buf x))" by (simp add: down_at_def)
  with assms(2) obtain st' xs' where "down_at r st' (srcSock x) (dstSock x) w' xs'"
    unfolding stripped_def by meson
  then show ?thesis by (auto simp: down_at_def in_state_def)
qed

lemma in_state_down: "in_state r st w \<Longrightarrow> down_at r st' s d w xs \<Longrightarrow> st' = st"
  by (auto simp: in_state_def down_at_def)

text \<open>Once both replies are off, the downstreamer is a relay.\<close>

lemma stripped_relayed:
  assumes "relayed r w w'" "same_class r w w'" "in_state r XD_STREAM w"
  shows "stripped E r w w'"
  unfolding stripped_def
proof (intro conjI allI impI)
  fix st s d xs assume at: "down_at r st s d w xs"
  then have st: "st = XD_STREAM" by (rule in_state_down[OF assms(3)])
  obtain x xd where x: "reactors w r = Some x" "cls x = CProxifierDownstreamer xd" "xd_state xd = st"
    "sb_ok (buf x)" "contents (buf x) = xs" "sock_after s (srcSock x)" "sock_after d (dstSock x)"
    using at by (auto simp: down_at_def)
  obtain y where y: "reactors w' r = Some y" "sb_ok (buf y)" "sock_after s (srcSock y)" "sock_after d (dstSock y)"
    "contents (buf x) @ data_in s (new_calls w w') = data_out d (new_calls w w') @ contents (buf y)"
    using assms(1) x unfolding relayed_def by blast
  have "cls y = cls x" using assms(2) x(1,2) y(1) by (auto simp: same_class_def)
  with x y have "down_at r st s d w' (contents (buf y))" by (auto simp: down_at_def)
  with y(5) x(5) st show "\<exists>st' xs' reps. down_at r st' s d w' xs' \<and> taken E st st' reps \<and>
      xs @ data_in s (new_calls w w') = reps @ data_out d (new_calls w w') @ xs' \<and>
      (st' \<noteq> XD_STREAM \<longrightarrow> data_out d (new_calls w w') = [])"
    by (intro exI[of _ st] exI[of _ "contents (buf y)"] exI[of _ "[]"]) simp
qed (use assms(1) in \<open>simp add: relayed_def\<close>)

lemma stripped_recv:
  fixes w :: world
  assumes "io_ok E" "reactors w r = Some x"
  shows "stripped E r w (snd (sockRecv E (srcSock x) r w))"
  unfolding stripped_def
proof (intro conjI allI impI)
  let ?w = "snd (sockRecv E (srcSock x) r w)"
  show "hist_grows w ?w" using keepsD[OF frame_socket(2), of w] by (simp add: frame_def)
  fix st s d xs assume at: "down_at r st s d w xs"
  then obtain xd where x: "cls x = CProxifierDownstreamer xd" "xd_state xd = st" "sb_ok (buf x)" "contents (buf x) = xs"
    "sock_after s (srcSock x)" "sock_after d (dstSock x)" using assms(2) by (auto simp: down_at_def)
  have "read_law s r (sockRecv E (srcSock x) r)" by (rule sockRecv_law[OF assms(1) x(5)])
  with assms(2) x(3) obtain b h where h: "hist ?w = hist w @ h" "reactors ?w = (reactors w)(r \<mapsto> x\<lparr>buf := b\<rparr>)" "sb_ok b"
    "contents b = contents (buf x) @ data_in s h" "\<forall>d. data_out d h = []"
    unfolding read_law_def by (metis prod.collapse)
  then have "down_at r st s d ?w (xs @ data_in s h)" using x by (simp add: down_at_def)
  with h(1,5) taken_refl[of E st] show "\<exists>st' xs' reps. down_at r st' s d ?w xs' \<and> taken E st st' reps \<and>
      xs @ data_in s (new_calls w ?w) = reps @ data_out d (new_calls w ?w) @ xs' \<and>
      (st' \<noteq> XD_STREAM \<longrightarrow> data_out d (new_calls w ?w) = [])"
    by (intro exI[of _ st] exI[of _ "xs @ data_in s h"] exI[of _ "[]"]) simp
qed

text \<open>A reply is taken off the front of the buffer, with other work before and after, and the state moves on.\<close>

lemma stripped_drop:
  fixes w :: world
  assumes x: "reactors w r = Some x" "sb_ok (buf x)" and at: "in_state r st w"
    and u: "quiet r w u" "same_class r w u"
    and n: "n \<le> length (contents (buf x))" "modBuf r (unuse (of_nat n)) u = (Ret (), v)"
    and z: "quiet r v z" "same_class r v z"
    and f: "modXD r f z = (Ret (), w')" "\<And>d. xd_state (f d) = st'" "taken E st st' (take n (contents (buf x)))"
  shows "stripped E r w w'" "in_state r st' w'"
proof -
  obtain xd where xd: "cls x = CProxifierDownstreamer xd" "xd_state xd = st" using at x(1) by (auto simp: in_state_def)
  obtain y where y: "reactors u r = Some y" "buf y = buf x" "sock_after (srcSock x) (srcSock y)"
    "sock_after (dstSock x) (dstSock y)" "cls y = cls x"
    using u x(1) xd(1) by (auto simp: quiet_def same_class_def)
  have l: "0 \<le> int n" "int n \<le> int (length (contents (buf y)))" using n(1) y(2) by simp_all
  have by': "sb_ok (buf y)" using x(2) y(2) by simp
  let ?y = "y\<lparr>buf := leave_bytes n (buf y)\<rparr>"
  note un = unuse_run[OF y(1) by' l, simplified]
  have v: "v = u\<lparr>reactors := (reactors u)(r \<mapsto> ?y)\<rparr>" using un(1) n(2) by simp
  then have vr: "reactors v r = Some ?y" "cls ?y = CProxifierDownstreamer xd" using y(5) xd by simp_all
  obtain q where q: "reactors z r = Some q" "buf q = leave_bytes n (buf y)" "sock_after (srcSock y) (srcSock q)"
    "sock_after (dstSock y) (dstSock q)" "cls q = CProxifierDownstreamer xd"
    using z vr unfolding quiet_def same_class_def by fastforce
  have w': "reactors w' r = Some (q\<lparr>cls := CProxifierDownstreamer (f xd)\<rparr>)" "hist w' = hist z"
    using f(1) q(1,5) by (auto simp: modXD_def run_modR)
  then show "in_state r st' w'" using f(2) q(2) un(2) by (simp add: in_state_def)
  obtain h k where h: "hist u = hist w @ h" "data_free h" "hist z = hist v @ k" "data_free k"
    using u(1) z(1) by (auto simp: quiet_def)
  then have calls: "hist w' = hist w @ h @ k" "data_free (h @ k)" using w'(2) v by simp_all
  note nodata = data_free_no_data[OF calls(2)]
  show "stripped E r w w'"
    unfolding stripped_def
  proof (intro conjI allI impI)
    fix st0 s d xs assume a: "down_at r st0 s d w xs"
    then have s: "st0 = st" "xs = contents (buf x)" "sock_after s (srcSock x)" "sock_after d (dstSock x)"
      using x(1) xd by (auto simp: down_at_def)
    have "down_at r st' s d w' (drop n xs)"
      unfolding down_at_def using w'(1) f(2) q un(2,3) y s by (auto intro: sock_after_trans)
    with s(1,2) f(3) calls(1) nodata show "\<exists>st1 xs' reps. down_at r st1 s d w' xs' \<and> taken E st0 st1 reps \<and>
        xs @ data_in s (new_calls w w') = reps @ data_out d (new_calls w w') @ xs' \<and>
        (st1 \<noteq> XD_STREAM \<longrightarrow> data_out d (new_calls w w') = [])"
      by (intro exI[of _ st'] exI[of _ "drop n xs"] exI[of _ "take n xs"]) simp
  qed (use calls(1) in \<open>simp add: hist_grows_def\<close>)
qed

section \<open>Whole methods\<close>

text \<open>A method that starts in state \<open>st\<close> and does not end the program.\<close>

definition moves :: "env \<Rightarrow> rid \<Rightarrow> ProxifierDownState \<Rightarrow> 'a M \<Rightarrow> bool" where
  "moves E r st m \<longleftrightarrow> (\<forall>w res w'. in_state r st w \<and> m w = (res, w') \<and> (\<forall>e. res \<noteq> Abort e) \<longrightarrow> stripped E r w w')"

lemma movesI:
  assumes "\<And>w res w'. in_state r st w \<Longrightarrow> m w = (res, w') \<Longrightarrow> (\<And>e. res \<noteq> Abort e) \<Longrightarrow> stripped E r w w'"
  shows "moves E r st m"
  using assms by (simp add: moves_def)

lemma movesD: "moves E r st m \<Longrightarrow> in_state r st w \<Longrightarrow> m w = (res, w') \<Longrightarrow> (\<And>e. res \<noteq> Abort e) \<Longrightarrow> stripped E r w w'"
  unfolding moves_def by blast

lemma moves_quiet: "keeps (quiet r) m \<Longrightarrow> keeps (same_class r) m \<Longrightarrow> moves E r st m"
  by (rule movesI) (metis keepsD snd_conv stripped_quiet)

lemma moves_relay: "keeps (relayed r) m \<Longrightarrow> keeps (same_class r) m \<Longrightarrow> moves E r XD_STREAM m"
  by (rule movesI) (metis keepsD snd_conv stripped_relayed)

lemma moves_pure: "moves E r st (ret a)" "moves E r st (throw e)" "moves E r st (abort x)"
  by (auto intro!: movesI simp: run_basic stripped_refl)

lemma moves_cases:
  "moves E r st m \<Longrightarrow> moves E r st n \<Longrightarrow> moves E r st (if b then m else n)"
  "moves E r st n \<Longrightarrow> (\<And>a. moves E r st (f a)) \<Longrightarrow> moves E r st (case x of None \<Rightarrow> n | Some a \<Rightarrow> f a)"
  by (auto split: option.split)

text \<open>A first step that keeps the state.\<close>

lemma moves_first:
  assumes "m w = (r1, v)" "bindM m f w = (res, w')" "\<And>e. res \<noteq> Abort e" "in_state r st w"
    and "stripped E r w v" "same_class r w v" "\<And>a. moves E r st (f a)"
  shows "stripped E r w w'"
proof (cases r1)
  case (Ret a)
  then have "f a v = (res, w')" using assms(1,2) by (simp add: run_bind)
  from movesD[OF assms(7) in_state_after[OF assms(4,5,6)] this assms(3)] assms(5) show ?thesis by (rule stripped_trans[rotated])
qed (use assms in \<open>simp_all add: run_bind\<close>)

lemma moves_bind:
  assumes "keeps (quiet r) m" "keeps (same_class r) m" "\<And>a. moves E r st (f a)"
  shows "moves E r st (bindM m f)"
proof (rule movesI)
  fix w res w' assume run: "in_state r st w" "bindM m f w = (res, w')" "\<And>e. res \<noteq> Abort e"
  obtain r1 v where m: "m w = (r1, v)" by fastforce
  have "quiet r w v" "same_class r w v" using keepsD[OF assms(1), of w] keepsD[OF assms(2), of w] m by simp_all
  with run show "stripped E r w w'" by (intro moves_first[OF m run(2,3,1)] stripped_quiet assms(3))
qed

lemma moves_seq:
  "keeps (quiet r) m \<Longrightarrow> keeps (same_class r) m \<Longrightarrow> moves E r st n \<Longrightarrow> moves E r st (seqM m n)"
  unfolding seqM_def by (rule moves_bind)

lemma moves_recv:
  assumes "io_ok E" "\<And>x d n. moves E r st (f x d n)"
  shows "moves E r st (bindM (getR r) (\<lambda>x. bindM (getXD r) (\<lambda>d. bindM (sockRecv E (srcSock x) r) (f x d))))"
    "moves E r st (bindM (getR r) (\<lambda>x. bindM (sockRecv E (srcSock x) r) (f x d)))"
proof -
  have recv: "stripped E r w w'" if "in_state r st w" "reactors w r = Some x"
      "bindM (sockRecv E (srcSock x) r) (f x d) w = (res, w')" "\<And>e. res \<noteq> Abort e" for w w' x d res
  proof -
    obtain r1 v where m: "sockRecv E (srcSock x) r w = (r1, v)" by fastforce
    have "stripped E r w v" "same_class r w v"
      using stripped_recv[OF assms(1) that(2)] keepsD[OF same_io(1)[of r E "srcSock x" r], of w] m by simp_all
    then show ?thesis by (intro moves_first[OF m that(3,4,1)] assms(2))
  qed
  show "moves E r st (bindM (getR r) (\<lambda>x. bindM (sockRecv E (srcSock x) r) (f x d)))"
  proof (rule movesI)
    fix w res w' assume w: "in_state r st w" and run: "bindM (getR r) (\<lambda>x. bindM (sockRecv E (srcSock x) r) (f x d)) w = (res, w')"
      and ok: "\<And>e. res \<noteq> Abort e"
    then obtain x where x: "reactors w r = Some x" by (auto simp: in_state_def)
    with run have "bindM (sockRecv E (srcSock x) r) (f x d) w = (res, w')" by (simp add: bindM_def[of "getR r"] run_getR)
    with w x ok show "stripped E r w w'" by (intro recv)
  qed
  show "moves E r st (bindM (getR r) (\<lambda>x. bindM (getXD r) (\<lambda>d. bindM (sockRecv E (srcSock x) r) (f x d))))"
  proof (rule movesI)
    fix w res w' assume w: "in_state r st w" and ok: "\<And>e. res \<noteq> Abort e"
      and run: "bindM (getR r) (\<lambda>x. bindM (getXD r) (\<lambda>d. bindM (sockRecv E (srcSock x) r) (f x d))) w = (res, w')"
    then obtain x xd where x: "reactors w r = Some x" "cls x = CProxifierDownstreamer xd" by (auto simp: in_state_def)
    then have "getXD r w = (Ret xd, w)" by (simp add: getXD_def bindM_def run_getR run_basic)
    with run x have "bindM (sockRecv E (srcSock x) r) (f x xd) w = (res, w')"
      by (simp add: bindM_def[of "getR r"] bindM_def[of "getXD r"] run_getR)
    with w x(1) ok show "stripped E r w w'" by (intro recv)
  qed
qed

section \<open>The events of a downstreamer\<close>

lemma buffered_at:
  assumes "down_at r st s d w xs"
  shows "buffered r w = (Ret xs, w)"
  using assms buffered_run by (auto simp: down_at_def)

lemma modXD_run: "in_state r st w \<Longrightarrow> \<exists>w'. modXD r f w = (Ret (), w')"
  by (auto simp: in_state_def modXD_def run_modR)

lemma moves_enter: "io_ok E \<Longrightarrow> moves E r XD_STREAM (enter_stream E r)"
  by (intro moves_relay keeps_intro)
    (unfold enter_stream_def, intro rel.keeps_rules keeps_intro relayed_process)

text \<open>The operation reply.\<close>

lemma moves_op_reply:
  assumes E: "io_ok E" "parse_ok E" and f: "\<And>e. moves E r XD_WAITING_FOR_OP_REP (f e)"
  shows "moves E r XD_WAITING_FOR_OP_REP (bindM (buffered r) (\<lambda>bb. case parseOpReply E bb of
      Inl e \<Rightarrow> f e
    | Inr (code, used) \<Rightarrow> if code \<noteq> SOCKS6_OPERATION_REPLY_SUCCESS then ret ()
        else seqM (modBuf r (unuse (of_nat used)))
          (seqM (modXD r (\<lambda>d. d\<lparr>xd_upstreamer := None, xd_state := XD_STREAM\<rparr>)) (enter_stream E r))))"
    (is "moves E r ?st ?m")
proof (rule movesI)
  fix w res w' assume w: "in_state r ?st w" and run: "?m w = (res, w')" and ok: "\<And>e. res \<noteq> Abort e"
  obtain x where x: "reactors w r = Some x" "sb_ok (buf x)" using w by (auto simp: in_state_def)
  let ?c = "contents (buf x)"
  have b: "buffered r w = (Ret ?c, w)" by (rule buffered_run[OF x])
  show "stripped E r w w'"
  proof (cases "parseOpReply E ?c")
    case (Inl e)
    with run b have "f e w = (res, w')" by (simp add: bindM_def)
    from movesD[OF f w this ok] show ?thesis .
  next
    case (Inr p)
    obtain code n where p: "p = (code, n)" by fastforce
    show ?thesis
    proof (cases "code = SOCKS6_OPERATION_REPLY_SUCCESS")
      case False
      with run b Inr p show ?thesis by (simp add: bindM_def run_basic stripped_refl)
    next
      case True
      have n: "n \<le> length ?c" using parse_okD(2)[OF E(2)] Inr p by blast
      then have l: "0 \<le> int n" "int n \<le> int (length ?c)" by simp_all
      obtain v where v: "modBuf r (unuse (of_nat n)) w = (Ret (), v)"
        using unuse_run(1)[OF x l] by simp
      let ?f = "\<lambda>d. d\<lparr>xd_upstreamer := None, xd_state := XD_STREAM\<rparr>"
      have iv: "\<exists>k. modXD r ?f v = (Ret (), k)"
        using unuse_run(1)[OF x l] v by (auto simp: modXD_def run_modR)
      then obtain k where k: "modXD r ?f v = (Ret (), k)" by blast
      have "op_bytes E (take n ?c)"
        unfolding op_bytes_def using Inr p True n by (intro exI[of _ "drop n ?c"]) (simp add: min_absorb2)
      then have t: "taken E ?st XD_STREAM (take n ?c)" by simp
      note d = stripped_drop[OF x w quiet.R_refl sc.R_refl n v quiet.R_refl sc.R_refl k _ t]
      have "enter_stream E r k = (res, w')"
        using run b Inr p True v k by (simp add: bindM_def[of "buffered r"] run_seq)
      from movesD[OF moves_enter[OF E(1)] d(2) this ok] d(1) show ?thesis by (auto intro: stripped_trans)
    qed
  qed
qed

lemma moves_exn_case:
  assumes "\<And>a b. moves E r st (f1 a b)" "\<And>a. moves E r st (f2 a)" "\<And>a. moves E r st (f3 a)" "\<And>a. moves E r st (f4 a)"
    "\<And>a. moves E r st (f5 a)" "\<And>a. moves E r st (f6 a)" "moves E r st f7" "moves E r st f8" "\<And>a. moves E r st (f9 a)"
  shows "moves E r st (case e of RescheduleException a b \<Rightarrow> f1 a b | SystemError a \<Rightarrow> f2 a
     | RuntimeError a \<Rightarrow> f3 a | LengthError a \<Rightarrow> f4 a | InvalidArgument a \<Rightarrow> f5 a
     | TLSException a \<Rightarrow> f6 a | BadVersionException \<Rightarrow> f7 | EndOfBufferException \<Rightarrow> f8 | S6MException a \<Rightarrow> f9 a)"
  using assms by (simp split: exn.split)

lemma moves_add: "moves E' r st (Poller_add E r fd ev)"
  by (intro moves_quiet keeps_intro)

lemma moves_deactivate: "moves E' r st (deactivate E r)"
  by (intro moves_quiet keeps_intro)

lemma moves_opRep:
  assumes "io_ok E" "parse_ok E"
  shows "moves E r XD_WAITING_FOR_OP_REP (ProxifierDownstreamer_opRep E r b)"
proof (cases b)
  case True
  then show ?thesis
    unfolding ProxifierDownstreamer_opRep_def
    by (simp only: not_True_eq_False if_False)
      (intro moves_bind[OF keeps_quiet_basic(1) same_basic(1)] moves_bind[OF quiet.keeps_pure(1) sc.keeps_pure(1)]
        moves_cases moves_pure moves_op_reply moves_exn_case moves_add assms)
next
  case False
  then show ?thesis
    unfolding ProxifierDownstreamer_opRep_def
    by (simp only: not_False_eq_True if_True)
      (intro moves_recv(2) moves_cases moves_pure moves_op_reply moves_exn_case moves_add assms)
qed

text \<open>The authentication reply, which is followed by the operation reply if that has come.\<close>

lemma quiet_reply [keeps_intro]: "keeps (quiet r) (supplicant_process_reply E s rep)"
  unfolding supplicant_process_reply_def ClientSession_new_def setSession_def supplicantDone_def
  by (intro quiet.keeps_rules keeps_intro; simp add: data_call_def)

lemma drop_auth:
  fixes w :: world
  assumes E: "io_ok E" "parse_ok E" and w: "in_state r XD_WAITING_FOR_AUTH_REP w"
    and x: "reactors w r = Some x" "sb_ok (buf x)"
    and rep: "parseAuthReply E (contents (buf x)) = Inr (rep, n)" "av_code rep = SOCKS6_AUTH_REPLY_SUCCESS"
    and u: "quiet r w u" "same_class r w u"
    and m: "keeps (quiet r) m" "keeps (same_class r) m"
    and run: "seqM (modBuf r (unuse (of_nat n))) (seqM m (seqM (modXD r (\<lambda>d. d\<lparr>xd_state := XD_WAITING_FOR_OP_REP\<rparr>))
      (ProxifierDownstreamer_opRep E r True))) u = (res, w')" "\<And>e. res \<noteq> Abort e"
    and nothrow: "\<And>v e. fst (m v) \<noteq> Throw e"
  shows "stripped E r w w'"
proof -
  let ?c = "contents (buf x)" and ?f = "\<lambda>d. d\<lparr>xd_state := XD_WAITING_FOR_OP_REP\<rparr>"
  have n: "n \<le> length ?c" using parse_okD(1)[OF E(2) rep(1)] .
  obtain y where "reactors u r = Some y" using u(1) x(1) by (auto simp: quiet_def)
  then obtain v where v: "modBuf r (unuse (of_nat n)) u = (Ret (), v)" by (simp add: modBuf_def run_modR)
  obtain o' z where z: "m v = (o', z)" by fastforce
  with run(1) v have rest: "(case o' of Ret _ \<Rightarrow> seqM (modXD r ?f) (ProxifierDownstreamer_opRep E r True) z
      | Throw e \<Rightarrow> (Throw e, z) | Abort e \<Rightarrow> (Abort e, z)) = (res, w')"
    by (simp add: run_seq) (auto simp: seqM_def bindM_def split: outcome.splits)
  have ret: "o' = Ret ()" using rest run(2) nothrow[of v] z by (cases o') auto
  have qz: "quiet r v z" "same_class r v z" using keepsD[OF m(1), of v] keepsD[OF m(2), of v] z by simp_all
  have "\<exists>q. reactors v r = Some q" using v \<open>reactors u r = Some y\<close> by (auto simp: modBuf_def run_modR)
  then obtain q where "reactors z r = Some q" using qz(1) by (auto simp: quiet_def)
  then obtain k where k: "modXD r ?f z = (Ret (), k)" by (simp add: modXD_def run_modR)
  have "auth_bytes E (take n ?c)"
    unfolding auth_bytes_def using rep n by (intro exI[of _ "drop n ?c"] exI[of _ rep]) (simp add: min_absorb2)
  then have t: "taken E XD_WAITING_FOR_AUTH_REP XD_WAITING_FOR_OP_REP (take n ?c)" by simp
  note d = stripped_drop[OF x w u n v qz k _ t]
  have "ProxifierDownstreamer_opRep E r True k = (res, w')" using rest ret k by (simp add: run_seq)
  from movesD[OF moves_opRep[OF E] d(2) this run(2)] d(1) show ?thesis by (auto intro: stripped_trans)
qed

text \<open>Handing a reply to the supplicant does not throw.\<close>

definition no_throw :: "'a M \<Rightarrow> bool" where
  "no_throw m \<longleftrightarrow> (\<forall>w e. fst (m w) \<noteq> Throw e)"

lemma nothrow_rules:
  "no_throw (ret a)" "no_throw (abort x)" "no_throw (modify g)" "no_throw (modR q h)" "no_throw (getR q)" "no_throw (extcall E c)"
  "no_throw (getSP s)" "no_throw (newCS y)"
  "no_throw m \<Longrightarrow> (\<And>a. no_throw (f a)) \<Longrightarrow> no_throw (bindM m f)"
  by (auto simp: no_throw_def run_basic modR_def getR_def run_extcall getSP_def newCS_def bindM_def
      split: option.split prod.splits outcome.splits) (metis fst_conv outcome.distinct)+

lemma nothrow_reply: "no_throw (supplicant_process_reply E s rep)"
  unfolding supplicant_process_reply_def ClientSession_new_def setSession_def supplicantDone_def modPF_def setSP_def seqM_def
  by (intro nothrow_rules; simp split: option.split; intro conjI allI impI nothrow_rules; simp?)

lemma quiet_prefix:
  assumes m: "keeps (quiet r) m" "keeps (same_class r) m" and w: "quiet r w0 w" "same_class r w0 w"
    and run: "bindM m f w = (res, w')" "\<And>e. res \<noteq> Abort e"
    and on: "\<And>a u. quiet r w0 u \<Longrightarrow> same_class r w0 u \<Longrightarrow> f a u = (res, w') \<Longrightarrow> stripped E r w0 w'"
  shows "stripped E r w0 w'"
proof -
  obtain o' u where u: "m w = (o', u)" by fastforce
  have q: "quiet r w0 u" "same_class r w0 u"
    using quiet.R_trans[OF w(1) keepsD[OF m(1), of w]] sc.R_trans[OF w(2) keepsD[OF m(2), of w]] u by simp_all
  show ?thesis
  proof (cases o')
    case (Ret a)
    with run(1) u have "f a u = (res, w')" by (simp add: bindM_def)
    then show ?thesis by (rule on[OF q])
  next
    case (Throw e)
    with run(1) u have "u = w'" by (simp add: bindM_def)
    with stripped_quiet[OF q] show ?thesis by simp
  next
    case (Abort e)
    with run(1) u have "res = Abort e" by (simp add: bindM_def)
    with run(2) show ?thesis by blast
  qed
qed

lemma moves_auth_reply:
  assumes E: "io_ok E" "parse_ok E" and f: "\<And>e. moves E r XD_WAITING_FOR_AUTH_REP (f e)"
    and s: "\<And>rep up. keeps (quiet r) (s rep up)" "\<And>rep up. keeps (same_class r) (s rep up)"
    and m: "\<And>rep. keeps (quiet r) (m rep)" "\<And>rep. keeps (same_class r) (m rep)" "\<And>rep. no_throw (m rep)"
  shows "moves E r XD_WAITING_FOR_AUTH_REP (bindM (buffered r) (\<lambda>bb. case parseAuthReply E bb of
      Inl e \<Rightarrow> f e
    | Inr (rep, n) \<Rightarrow> (case ou of
          None \<Rightarrow> abort NullDereference
        | Some u \<Rightarrow> bindM (getXU u) (\<lambda>up. seqM (s rep up)
            (if av_code rep \<noteq> SOCKS6_AUTH_REPLY_SUCCESS then deactivate E r
             else seqM (modBuf r (unuse (of_nat n))) (seqM (m rep)
               (seqM (modXD r (\<lambda>d. d\<lparr>xd_state := XD_WAITING_FOR_OP_REP\<rparr>)) (ProxifierDownstreamer_opRep E r True))))))))"
    (is "moves E r ?st ?m")
proof (rule movesI)
  fix w res w' assume w: "in_state r ?st w" and run: "?m w = (res, w')" and ok: "\<And>e. res \<noteq> Abort e"
  obtain x where x: "reactors w r = Some x" "sb_ok (buf x)" using w by (auto simp: in_state_def)
  have b: "buffered r w = (Ret (contents (buf x)), w)" by (rule buffered_run[OF x])
  show "stripped E r w w'"
  proof (cases "parseAuthReply E (contents (buf x))")
    case (Inl e)
    with run b have "f e w = (res, w')" by (simp add: bindM_def)
    from movesD[OF f w this ok] show ?thesis .
  next
    case (Inr q)
    obtain rep n where q: "parseAuthReply E (contents (buf x)) = Inr (rep, n)" using Inr by (cases q) simp
    let ?go = "if av_code rep \<noteq> SOCKS6_AUTH_REPLY_SUCCESS then deactivate E r
             else seqM (modBuf r (unuse (of_nat n))) (seqM (m rep)
               (seqM (modXD r (\<lambda>d. d\<lparr>xd_state := XD_WAITING_FOR_OP_REP\<rparr>)) (ProxifierDownstreamer_opRep E r True)))"
    have rest: "stripped E r w w'" if u: "quiet r w u" "same_class r w u" and go: "?go u = (res, w')" for u
    proof (cases "av_code rep = SOCKS6_AUTH_REPLY_SUCCESS")
      case True
      with go have go: "seqM (modBuf r (unuse (of_nat n))) (seqM (m rep)
          (seqM (modXD r (\<lambda>d. d\<lparr>xd_state := XD_WAITING_FOR_OP_REP\<rparr>)) (ProxifierDownstreamer_opRep E r True))) u = (res, w')"
        by simp
      show ?thesis by (rule drop_auth[OF E w x q True u m(1,2) go ok]) (use m(3) in \<open>simp add: no_throw_def\<close>)
    next
      case False
      with go have "deactivate E r u = (res, w')" by simp
      then have "quiet r u w'" "same_class r u w'"
        using keepsD[OF keeps_quiet_deactivate, of r u E r] keepsD[OF same_deactivate, of r u E r] by simp_all
      with u show ?thesis by (blast intro: stripped_quiet quiet.R_trans sc.R_trans)
    qed
    show ?thesis
    proof (cases ou)
      case None
      with run b q have "res = Abort NullDereference" by (simp add: bindM_def run_basic)
      with ok show ?thesis by blast
    next
      case (Some u)
      with run b q have "bindM (getXU u) (\<lambda>up. seqM (s rep up) ?go) w = (res, w')" by (simp add: bindM_def[of "buffered r"])
      then show ?thesis
        by (rule quiet_prefix[OF quiet_getXU same_get(1) quiet.R_refl sc.R_refl _ ok])
          (unfold seqM_def[of "s rep _"], rule quiet_prefix[OF s _ _ _ ok], (assumption | rule rest)+)
    qed
  qed
qed

lemma moves_authRep:
  assumes "io_ok E" "parse_ok E"
  shows "moves E r XD_WAITING_FOR_AUTH_REP (ProxifierDownstreamer_authRep E r)"
proof -
  have m: "keeps (quiet r) (case o' of None \<Rightarrow> ret () | Some s \<Rightarrow> supplicant_process_reply E s rep)"
    "keeps (same_class r) (case o' of None \<Rightarrow> ret () | Some s \<Rightarrow> supplicant_process_reply E s rep)"
    "no_throw (case o' of None \<Rightarrow> ret () | Some s \<Rightarrow> supplicant_process_reply E s rep)" for o' rep
    by (cases o'; simp add: nothrow_rules nothrow_reply quiet_reply same_session quiet.keeps_pure sc.keeps_pure)+
  show ?thesis
    unfolding ProxifierDownstreamer_authRep_def
    by (intro moves_recv(1) moves_cases moves_auth_reply moves_pure moves_exn_case moves_add moves_deactivate
        quiet_session same_session m assms)
qed

lemma process_strip:
  assumes E: "io_ok E" "parse_ok E" and w: "in_state r st w"
    and run: "ProxifierDownstreamer_process E r w = (res, w')" "\<And>e. res \<noteq> Abort e"
  shows "stripped E r w w'"
proof -
  obtain x d where x: "reactors w r = Some x" "cls x = CProxifierDownstreamer d" "xd_state d = st"
    using w by (auto simp: in_state_def)
  then have g: "getXD r w = (Ret d, w)" by (simp add: getXD_def bindM_def run_getR run_basic)
  have st: "moves E r XD_STREAM (StreamReactor_process E r)"
    by (intro moves_relay keeps_intro relayed_process E)
  have "stripped E r w w'" if "st = s" "moves E r s m" "ProxifierDownstreamer_process E r w = m w" for s m
    using movesD[OF that(2) _ _ run(2), of w w'] that(1,3) w run(1) by simp
  from this[OF _ moves_authRep[OF E]] this[OF _ moves_opRep[OF E]] this[OF _ st] x(3)
  show ?thesis
    by (cases st) (simp_all add: ProxifierDownstreamer_process_def bindM_def[of "getXD r"] g)
qed

section \<open>Any number of events\<close>

fun downstream_events :: "env \<Rightarrow> rid \<Rightarrow> nat \<Rightarrow> unit M" where
  "downstream_events E r 0 = ret ()"
| "downstream_events E r (Suc n) =
     seqM (Poller_runAs E r (ProxifierDownstreamer_process E r)) (downstream_events E r n)"

lemma runAs_strip:
  assumes E: "io_ok E" "parse_ok E" and w: "in_state r st w"
    and run: "Poller_runAs E r (ProxifierDownstreamer_process E r) w = (res, w')" "\<And>e. res \<noteq> Abort e"
  shows "stripped E r w w'"
proof -
  obtain o' v where v: "ProxifierDownstreamer_process E r w = (o', v)" by fastforce
  show ?thesis
  proof (cases o')
    case (Throw e)
    have "stripped E r w v" by (rule process_strip[OF E w v]) (simp add: Throw)
    moreover have "moves E r st' (case e of RescheduleException fd ev \<Rightarrow> Poller_add E r fd ev | _ \<Rightarrow> deactivate E r)" for st'
      by (intro moves_exn_case moves_add moves_deactivate)
    moreover obtain st' where "in_state r st' v" using in_state_strip[OF w calculation(1)] by blast
    moreover have "(case e of RescheduleException fd ev \<Rightarrow> Poller_add E r fd ev | _ \<Rightarrow> deactivate E r) v = (res, w')"
      using v Throw run(1) by (simp add: Poller_runAs_def tryM_def)
    ultimately show ?thesis using run(2) by (blast intro: stripped_trans movesD)
  qed (use process_strip[OF E w v] run v in \<open>auto simp: Poller_runAs_def tryM_def\<close>)
qed

lemma events_strip:
  assumes E: "io_ok E" "parse_ok E"
  shows "in_state r st w \<Longrightarrow> downstream_events E r n w = (Ret (), w') \<Longrightarrow> stripped E r w w'"
proof (induction n arbitrary: st w)
  case 0
  then show ?case by (simp add: run_basic stripped_refl)
next
  case (Suc n)
  let ?m = "Poller_runAs E r (ProxifierDownstreamer_process E r)"
  obtain o' v where v: "?m w = (o', v)" by fastforce
  with Suc.prems(2) have o': "o' = Ret ()" and go: "downstream_events E r n v = (Ret (), w')"
    by (cases o'; simp add: seqM_def bindM_def)+
  have s: "stripped E r w v" by (rule runAs_strip[OF E Suc.prems(1) v]) (simp add: o')
  obtain st' where "in_state r st' v" using in_state_strip[OF Suc.prems(1) s] by blast
  with s Suc.IH[OF _ go] show ?case by (blast intro: stripped_trans)
qed

section \<open>What the client is sent\<close>

text \<open>
  C16: what the client is sent. From any state of a downstreamer that waits for the authentication
  reply and over any number of its events, handlers of exceptions included: what was buffered, followed
  by everything the proxy has sent, is what has been taken off for replies (nothing, a successful
  authentication reply, or that and a successful operation reply, each as long as its parser said),
  followed by what the client was sent, followed by what is buffered. Before both replies
  are off, the client is sent nothing.
\<close>

theorem replies_then_data:
  fixes w :: world
  assumes "io_ok E" "parse_ok E" "reactors w r = Some x" "sb_ok (buf x)"
    and "cls x = CProxifierDownstreamer xd" "xd_state xd = XD_WAITING_FOR_AUTH_REP"
    and "downstream_events E r n w = (Ret (), w')"
  shows "\<exists>x' xd' reps. reactors w' r = Some x' \<and> cls x' = CProxifierDownstreamer xd' \<and>
    taken E XD_WAITING_FOR_AUTH_REP (xd_state xd') reps \<and>
    contents (buf x) @ data_in (srcSock x) (new_calls w w') =
      reps @ data_out (dstSock x) (new_calls w w') @ contents (buf x') \<and>
    (xd_state xd' = XD_STREAM \<or> data_out (dstSock x) (new_calls w w') = [])"
proof -
  have "stripped E r w w'"
    by (rule events_strip[OF assms(1,2) _ assms(7)]) (use assms(3-6) in \<open>auto simp: in_state_def\<close>)
  moreover have "down_at r XD_WAITING_FOR_AUTH_REP (srcSock x) (dstSock x) w (contents (buf x))"
    using assms(3-6) by (simp add: down_at_def)
  ultimately show ?thesis unfolding stripped_def down_at_def by blast
qed

text \<open>
  The proxy sends the two replies, of one byte each, and the byte 9 in one piece.
\<close>

definition reply_scenario :: "cret list \<Rightarrow> env" where
  "reply_scenario as = (scenario as)\<lparr>
     parseAuthReply := (\<lambda>xs. case xs of [] \<Rightarrow> Inl EndOfBufferException
       | _ \<Rightarrow> Inr (\<lparr>av_code = SOCKS6_AUTH_REPLY_SUCCESS, av_rejected = False, av_isOK = True, av_sessionID = None,
                    av_untrusted = False, av_advertised = (0, 0)\<rparr>, 1)),
     parseOpReply := (\<lambda>xs. case xs of [] \<Rightarrow> Inl EndOfBufferException
       | _ \<Rightarrow> Inr (SOCKS6_OPERATION_REPLY_SUCCESS, 1))\<rparr>"

lemma reply_scenario_fields [simp]:
  "os (reply_scenario as) = os (scenario as)" "io_ok (reply_scenario as)" "parse_ok (reply_scenario as)"
  "parseAuthReply (reply_scenario as) (x # xs) = Inr (\<lparr>av_code = SOCKS6_AUTH_REPLY_SUCCESS, av_rejected = False,
     av_isOK = True, av_sessionID = None, av_untrusted = False, av_advertised = (0, 0)\<rparr>, 1)"
  "parseOpReply (reply_scenario as) (x # xs) = Inr (SOCKS6_OPERATION_REPLY_SUCCESS, 1)"
proof -
  show "io_ok (reply_scenario as)"
    using scenario_io_ok[of as] unfolding io_ok_def reply_scenario_def by simp
  show "parse_ok (reply_scenario as)"
    using scenario_parse_ok[of as] unfolding parse_ok_def reply_scenario_def by (auto split: list.splits)
qed (simp_all add: reply_scenario_def)

definition reply_reactor :: reactor where
  "reply_reactor = (new_reactor (CProxifierDownstreamer \<lparr>xd_proxifier = 0, xd_upstreamer = Some 1,
       xd_state = XD_WAITING_FOR_AUTH_REP, xd_supplicant = None\<rparr>))
     \<lparr>srcSock := \<lparr>sk_fd = 5, sk_tls = None\<rparr>, dstSock := \<lparr>sk_fd = 6, sk_tls = None\<rparr>\<rparr>"

definition reply_world :: world where
  "reply_world = client_world\<lparr>reactors := (reactors client_world)(2 \<mapsto> reply_reactor), nextRid := 3\<rparr>"

lemma reply_run:
  "\<exists>w'. downstream_events (reply_scenario [delivers [0, 0, 9], returns 1, returns 0]) 2 1 reply_world = (Ret (), w') \<and>
     data_out \<lparr>sk_fd = 6, sk_tls = None\<rparr> (hist w') = [9]"
  by (simp add: ProxifierDownstreamer_process_def ProxifierDownstreamer_authRep_def getXD_def getXU_def
      ProxifierDownstreamer_opRep_def ProxifierDownstreamer_session_def modXD_def enter_stream_def run_simps stream_simps buffer_simps
        scenario_simps client_world_def client_reactor_def scenario_client_def reply_world_def reply_reactor_def
        Let_def block_def blit_def upt_rec data_out_def out_of_def)

theorem replies_then_data_witness:
  "\<exists>w' x' xd' reps. downstream_events (reply_scenario [delivers [0, 0, 9], returns 1, returns 0]) 2 1 reply_world = (Ret (), w') \<and>
     reactors w' 2 = Some x' \<and> cls x' = CProxifierDownstreamer xd' \<and> xd_state xd' = XD_STREAM \<and>
     data_in \<lparr>sk_fd = 5, sk_tls = None\<rparr> (hist w') = reps @ [9] @ contents (buf x')"
proof -
  let ?E = "reply_scenario [delivers [0, 0, 9], returns 1, returns 0]"
  obtain w' where run: "downstream_events ?E 2 1 reply_world = (Ret (), w')" and
    out: "data_out \<lparr>sk_fd = 6, sk_tls = None\<rparr> (hist w') = [9]" using reply_run by blast
  have w: "reactors reply_world 2 = Some reply_reactor" "sb_ok (buf reply_reactor)" "contents (buf reply_reactor) = []"
    "srcSock reply_reactor = \<lparr>sk_fd = 5, sk_tls = None\<rparr>" "dstSock reply_reactor = \<lparr>sk_fd = 6, sk_tls = None\<rparr>"
    "hist reply_world = []"
    by (simp_all add: reply_world_def reply_reactor_def new_reactor_def client_world_def empty_world_def
        sb_ok_def BUF_SIZE_def new_buffer_def contents_def usedSize_def)
  let ?d = "\<lparr>xd_proxifier = 0, xd_upstreamer = Some 1, xd_state = XD_WAITING_FOR_AUTH_REP, xd_supplicant = None\<rparr>"
  have c: "cls reply_reactor = CProxifierDownstreamer ?d" "xd_state ?d = XD_WAITING_FOR_AUTH_REP"
    by (simp_all add: reply_reactor_def new_reactor_def)
  from replies_then_data[OF _ _ w(1,2) c run] obtain x' xd' reps where
    "reactors w' 2 = Some x'" "cls x' = CProxifierDownstreamer xd'"
    "contents (buf reply_reactor) @ data_in (srcSock reply_reactor) (new_calls reply_world w') =
      reps @ data_out (dstSock reply_reactor) (new_calls reply_world w') @ contents (buf x')"
    "xd_state xd' = XD_STREAM \<or> data_out (dstSock reply_reactor) (new_calls reply_world w') = []"
    by auto
  with run out w show ?thesis by (auto simp: new_calls_def)
qed

end
