(* ===== verification/EarlyPath.thy ===== *)
theory EarlyPath
  imports Client Transport Program
begin

text \<open>
  The client's data over an encrypted connection to the proxy. Part of what is buffered may be sent
  before the handshake is complete (0-RTT data); the server may accept that part or not, and the
  client learns it at the end of the handshake. The theory follows a ProxifierUpstreamer from its start
  on: before the handshake nothing is taken off the buffer, the handshake takes off what was accepted,
  and afterwards the upstreamer is a lossless path, as without TLS.
\<close>

section \<open>Steps that leave class and TLS objects alone\<close>

definition idle :: "rid \<Rightarrow> world \<Rightarrow> world \<Rightarrow> bool" where
  "idle r w w' \<longleftrightarrow> tlsObjs w' = tlsObjs w \<and> nextRid w' = nextRid w \<and>
     (\<forall>x. reactors w r = Some x \<longrightarrow> (\<exists>x'. reactors w' r = Some x' \<and> cls x' = cls x))"

interpretation idle: world_preorder "idle r"
  by unfold_locales (auto simp: idle_def)

lemma idle_basic [keeps_intro]:
  "keeps (idle r) (getR q)" "keeps (idle r) (extcall E c)" "keeps (idle r) (set_entry n e)"
  "keeps (idle r) (entry_at fd)" "(\<And>x. cls (f x) = cls x) \<Longrightarrow> keeps (idle r) (modR q f)"
  by (auto simp: keeps_def idle_def getR_def run_extcall set_entry_def entry_at_def run_basic modR_def
      split: option.split)

lemma idle_poller [keeps_intro]:
  "keeps (idle r) (Poller_add E q fd ev)" "keeps (idle r) (Poller_remove E fd force)"
  unfolding Poller_add_def Poller_remove_def runIfActive_def isActive_def Let_def
  by (intro idle.keeps_rules keeps_intro)+

lemma idle_deactivates [keeps_intro]:
  "keeps (idle r) (Reactor_deactivate q)" "keeps (idle r) (ListenReactor_deactivate E q)"
  "keeps (idle r) (StickReactor_deactivate E q)" "keeps (idle r) (StreamReactor_deactivate E q)"
  "keeps (idle r) (TimeoutReactor_deactivate E q)" "keeps (idle r) (AuthServer_deactivate E q u)"
  unfolding deactivate_defs by (intro idle.keeps_rules keeps_intro; simp)+

lemma idle_deactivate [keeps_intro]: "keeps (idle r) (deactivate E q)"
  unfolding deactivate_def by (intro idle.keeps_rules keeps_intro keeps_class_case)

lemma idle_connected [keeps_intro]: "keeps (idle r) (checkConnected E fd)"
  unfolding checkConnected_def by (intro idle.keeps_rules keeps_intro)

section \<open>After the handshake: the state does not go back\<close>

fun late_class :: "rclass \<Rightarrow> bool" where
  "late_class (CProxifierUpstreamer u) = (xu_state u = XU_SENDING_REQ \<or> xu_state u = XU_STREAM)"
| "late_class _ = False"

definition late :: "rid \<Rightarrow> world \<Rightarrow> bool" where
  "late r w \<longleftrightarrow> r < nextRid w \<and> (\<exists>x. reactors w r = Some x \<and> late_class (cls x))"

lemma late_modR [keeps_intro]:
  "(\<And>x. late_class (cls x) \<Longrightarrow> late_class (cls (f x))) \<Longrightarrow> keeps (preserves (late r)) (modR q f)"
  by (auto simp: keeps_def preserves_def late_def modR_def split: option.split)

lemma late_basic [keeps_intro]:
  "keeps (preserves (late r)) (getR q)" "keeps (preserves (late r)) (extcall E c)"
  "keeps (preserves (late r)) (set_entry n e)" "keeps (preserves (late r)) (entry_at fd)"
  "q \<noteq> r \<Longrightarrow> keeps (preserves (late r)) (deleteR q)" "keeps (preserves (late r)) (modT t g)"
  by (auto simp: keeps_def preserves_def late_def getR_def run_extcall set_entry_def entry_at_def run_basic deleteR_def
      modT_def split: option.split)

lemma late_new:
  assumes "\<And>s. s \<noteq> r \<Longrightarrow> keeps (preserves (late r)) (f s)"
  shows "keeps (preserves (late r)) (bindM (newR y) f)"
proof (rule keepsI, unfold preserves_def, rule impI)
  fix w :: world assume w: "late r w"
  then have "late r (w\<lparr>reactors := (reactors w)(nextRid w \<mapsto> y), nextRid := Suc (nextRid w)\<rparr>)" "nextRid w \<noteq> r"
    by (auto simp: late_def)
  with keepsD[OF assms[of "nextRid w"]] show "late r (snd (bindM (newR y) f w))"
    by (auto simp: bindM_def newR_def preserves_def)
qed

lemma late_fields [keeps_intro]:
  "keeps (preserves (late r)) (modBuf q g)" "keeps (preserves (late r)) (set_streamState q st)"
  "(\<And>u. xu_state (h u) = XU_SENDING_REQ \<or> xu_state (h u) = XU_STREAM) \<Longrightarrow> keeps (preserves (late r)) (modXU q h)"
  unfolding modBuf_def set_streamState_def modXU_def by (intro keeps_intro; auto split: rclass.splits)+

lemma late_low: "keeps below_nss m \<Longrightarrow> keeps (preserves (late r)) m"
  by (auto simp: keeps_def below_nss_def preserves_def late_def)

lemma late_tls [keeps_intro]:
  "keeps (preserves (late r)) (nss E t c)" "keeps (preserves (late r)) (tlsHandleErr fd)" "keeps (preserves (late r)) (getT t)"
proof -
  have "keeps below_nss (run_callbacks E t cs)" for cs by (intro keeps_intro)
  then show "keeps (preserves (late r)) (nss E t c)"
    unfolding nss_def
    by (intro pres.keeps_rules keeps_intro late_low) (auto simp: keeps_def PR_SetError_def run_basic below_nss_def data_free_def)
qed (intro late_low keeps_intro)+

lemma late_poller [keeps_intro]:
  "keeps (preserves (late r)) (Poller_add E q fd ev)" "keeps (preserves (late r)) (Poller_remove E fd force)"
  unfolding Poller_add_def Poller_remove_def runIfActive_def isActive_def Let_def
  by (intro pres.keeps_rules keeps_intro)+

lemma late_uniqfd [keeps_intro]:
  "keeps (preserves (late r)) (UniqRecvFD_reset E fd)" "keeps (preserves (late r)) (UniqSendFD_reset E fd)"
  "keeps (preserves (late r)) (UniqRecvFD_destroy E fd)" "keeps (preserves (late r)) (UniqSendFD_destroy E fd)"
  "keeps (preserves (late r)) (UniqFD_assign fd rc)"
  unfolding uniqfd_defs by (intro pres.keeps_rules keeps_intro)+

lemma late_close [keeps_intro]:
  "keeps (preserves (late r)) (close_srcSock E q)" "keeps (preserves (late r)) (close_dstSock E q)"
  unfolding close_srcSock_def close_dstSock_def reset_srcSock_def reset_dstSock_def
  by (intro pres.keeps_rules keeps_intro; simp)+

lemma late_deactivates [keeps_intro]:
  "keeps (preserves (late r)) (Reactor_deactivate q)" "keeps (preserves (late r)) (ListenReactor_deactivate E q)"
  "keeps (preserves (late r)) (StickReactor_deactivate E q)" "keeps (preserves (late r)) (StreamReactor_deactivate E q)"
  "keeps (preserves (late r)) (TimeoutReactor_deactivate E q)" "keeps (preserves (late r)) (AuthServer_deactivate E q u)"
  unfolding deactivate_defs by (intro pres.keeps_rules keeps_intro; simp)+

lemma late_deactivate [keeps_intro]: "keeps (preserves (late r)) (deactivate E q)"
  unfolding deactivate_def by (intro pres.keeps_rules keeps_intro keeps_class_case)

lemma late_runAs: "keeps (preserves (late r)) m \<Longrightarrow> keeps (preserves (late r)) (Poller_runAs E q m)"
  unfolding Poller_runAs_def by (intro pres.keeps_rules keeps_exn_case keeps_intro)

lemma late_io [keeps_intro]:
  "keeps (preserves (late r)) (sockRecv E s q)" "keeps (preserves (late r)) (sockSend E s q)"
  unfolding sockRecv_def sockSend_def tlsRead_def tcpRecv_def tlsWrite_def tcpSend_def buf_receive_def buffered_def
  by (intro pres.keeps_rules keeps_intro)+

lemma late_stream [keeps_intro]:
  "keeps (preserves (late r)) (StreamReactor_process E q)" "keeps (preserves (late r)) (StreamReactor_start E q)"
  unfolding StreamReactor_process_def StreamReactor_receiving_def StreamReactor_sending_def StreamReactor_start_def Let_def
  by (intro pres.keeps_rules keeps_intro keeps_choices)+

lemma late_dup [keeps_intro]:
  "keeps (preserves (late r)) (dup_srcSock E q u)" "keeps (preserves (late r)) (dup_dstSock E q u)"
  unfolding dup_srcSock_def dup_dstSock_def duplicate_for_read_def duplicate_for_write_def setReadFD_def setWriteFD_def
  by (intro pres.keeps_rules keeps_intro; simp)+

lemma late_destroy [keeps_intro]: "q \<noteq> r \<Longrightarrow> keeps (preserves (late r)) (StreamReactor_destroy E q)"
  unfolding StreamReactor_destroy_def by (intro pres.keeps_rules keeps_intro; assumption?)

lemma late_getXU [keeps_intro]: "keeps (preserves (late r)) (getXU q)"
  unfolding getXU_def by (intro pres.keeps_rules keeps_intro keeps_class_case)

lemma late_downstreamer [keeps_intro]: "keeps (preserves (late r)) (ProxifierDownstreamer_new E u)"
  unfolding ProxifierDownstreamer_new_def construct_def
  by (intro pres.keeps_rules keeps_intro late_new; assumption?)

lemma late_sendReq [keeps_intro]: "keeps (preserves (late r)) (ProxifierUpstreamer_sendReq E q)"
  unfolding ProxifierUpstreamer_sendReq_def Poller_assign_def enter_stream_def
  by (intro pres.keeps_rules keeps_intro late_runAs; simp)

section \<open>The account of a connection\<close>

text \<open>
  \<open>c0\<close> is what the buffer holds after the start. Until the handshake is over it stays there, and the
  early data, if any, are a front part of it (\<open>holds_back\<close>). After it, either the early data have
  counted, or all data were sent again (\<open>speaks\<close>).
\<close>

definition holds_back :: "rid \<Rightarrow> nat \<Rightarrow> socket \<Rightarrow> socket \<Rightarrow> byte list \<Rightarrow> ProxifierUpState \<Rightarrow> world \<Rightarrow> world \<Rightarrow> bool" where
  "holds_back r t s d c0 st v w \<longleftrightarrow> hist_grows v w \<and> r < nextRid w \<and> data_in s (new_calls v w) = [] \<and>
     (\<exists>x u y. reactors w r = Some x \<and> cls x = CProxifierUpstreamer u \<and> xu_state u = st \<and> sb_ok (buf x) \<and>
        contents (buf x) = c0 \<and> sock_after s (srcSock x) \<and> sock_after d (dstSock x) \<and> tlsObjs w t = Some y \<and>
        (if hs_state y = S_WANT_HANDSHAKE
         then 0 \<le> earlyWritten y \<and> earlyWritten y \<le> int (length c0) \<and>
           data_out d (new_calls v w) = take (nat (earlyWritten y)) c0
         else data_out d (new_calls v w) = []))"

definition speaks :: "rid \<Rightarrow> nat \<Rightarrow> socket \<Rightarrow> socket \<Rightarrow> byte list \<Rightarrow> world \<Rightarrow> world \<Rightarrow> bool" where
  "speaks r t s d c0 v w \<longleftrightarrow> hist_grows v w \<and> r < nextRid w \<and>
     (\<exists>x early rest. reactors w r = Some x \<and> sb_ok (buf x) \<and> sock_after s (srcSock x) \<and> sock_after d (dstSock x) \<and>
        prefix early c0 \<and> data_out d (new_calls v w) = early @ rest \<and>
        (early = [] \<and> c0 @ data_in s (new_calls v w) = rest @ contents (buf x) \<or>
         (\<exists>h info k. new_calls v w = h @ (SSL_GetChannelInfo t, info) # k \<and> data_out d h = early \<and>
            c0 @ data_in s (new_calls v w) = (if c_flag info then early else []) @ rest @ contents (buf x))))"

lemma speaks_later:
  assumes "speaks r t s d c0 v w" "piped (\<lambda>_. True) r w w'"
  shows "speaks r t s d c0 v w'"
proof -
  obtain x early rest where x: "hist_grows v w" "r < nextRid w" "reactors w r = Some x" "sb_ok (buf x)"
    "sock_after s (srcSock x)" "sock_after d (dstSock x)" "prefix early c0" "data_out d (new_calls v w) = early @ rest"
    and acc: "early = [] \<and> c0 @ data_in s (new_calls v w) = rest @ contents (buf x) \<or>
     (\<exists>h info k. new_calls v w = h @ (SSL_GetChannelInfo t, info) # k \<and> data_out d h = early \<and>
        c0 @ data_in s (new_calls v w) = (if c_flag info then early else []) @ rest @ contents (buf x))"
    using assms(1) unfolding speaks_def by blast
  have fr: "frame w w'" and mv: "moved (\<lambda>_. True) r w w'" using assms(2) x(2) by (auto simp: piped_def)
  obtain z where z: "reactors w' r = Some z" "sb_ok (buf z)" "sock_after s (srcSock z)" "sock_after d (dstSock z)"
    "contents (buf x) @ data_in s (new_calls w w') = data_out d (new_calls w w') @ contents (buf z)"
    using mv x unfolding moved_def by blast
  have g: "hist_grows w w'" "r < nextRid w'" using fr x(2) frame_nextRid[OF fr] by (auto simp: frame_def)
  have c: "new_calls v w' = new_calls v w @ new_calls w w'" by (rule new_calls_trans[OF x(1) g(1)])
  let ?rest = "rest @ data_out d (new_calls w w')"
  have on: "c0 @ data_in s (new_calls v w') = front @ ?rest @ contents (buf z)"
    if "c0 @ data_in s (new_calls v w) = front @ rest @ contents (buf x)" for front
  proof -
    have "c0 @ data_in s (new_calls v w') = (c0 @ data_in s (new_calls v w)) @ data_in s (new_calls w w')" by (simp add: c)
    also have "\<dots> = front @ rest @ (contents (buf x) @ data_in s (new_calls w w'))" by (simp add: that)
    also have "\<dots> = front @ ?rest @ contents (buf z)" by (simp add: z(5))
    finally show ?thesis .
  qed
  have 1: "early = [] \<and> c0 @ data_in s (new_calls v w') = ?rest @ contents (buf z) \<or>
     (\<exists>h info k. new_calls v w' = h @ (SSL_GetChannelInfo t, info) # k \<and> data_out d h = early \<and>
        c0 @ data_in s (new_calls v w') = (if c_flag info then early else []) @ ?rest @ contents (buf z))"
    using acc
  proof (elim disjE exE conjE)
    assume "early = []" "c0 @ data_in s (new_calls v w) = rest @ contents (buf x)"
    with on[of "[]"] show ?thesis by simp
  next
    fix h info k
    assume h: "new_calls v w = h @ (SSL_GetChannelInfo t, info) # k" "data_out d h = early"
      "c0 @ data_in s (new_calls v w) = (if c_flag info then early else []) @ rest @ contents (buf x)"
    have "new_calls v w' = h @ (SSL_GetChannelInfo t, info) # (k @ new_calls w w')" using h(1) c by simp
    with h(2) on[OF h(3)] show ?thesis by blast
  qed
  have 2: "data_out d (new_calls v w') = early @ ?rest" using c x(8) by simp
  show ?thesis
    unfolding speaks_def
    by (intro conjI exI[of _ z] exI[of _ early] exI[of _ ?rest] hg.R_trans[OF x(1) g(1)] g(2) z(1-4) x(7) 1 2)
qed

lemma same_history:
  "new_calls v (w\<lparr>reactors := h\<rparr>) = new_calls v w" "hist_grows v (w\<lparr>reactors := h\<rparr>) \<longleftrightarrow> hist_grows v w"
  by (simp_all add: new_calls_def hist_grows_def)

lemma nothing_early_speaks:
  assumes "holds_back r t s d c0 st v w" "tlsObjs w t = Some y" "hs_state y \<noteq> S_WANT_HANDSHAKE"
  shows "speaks r t s d c0 v w"
proof -
  obtain x where x: "reactors w r = Some x" "sb_ok (buf x)" "contents (buf x) = c0" "sock_after s (srcSock x)"
    "sock_after d (dstSock x)" "data_out d (new_calls v w) = []"
    using assms unfolding holds_back_def by auto
  with assms(1) show ?thesis
    unfolding speaks_def holds_back_def by (intro conjI exI[of _ x] exI[of _ "[]"]) auto
qed

lemma holds_back_quiet:
  assumes "holds_back r t s d c0 st v w" "quiet r w w'" "idle r w w'"
  shows "holds_back r t s d c0 st v w'"
proof -
  obtain h where h: "hist w' = hist w @ h" "data_free h" using assms(2) by (auto simp: quiet_def)
  have g: "hist_grows v w" "hist_grows w w'" using assms(1) h(1) by (auto simp: holds_back_def hist_grows_def)
  have c: "new_calls v w' = new_calls v w @ h" using new_calls_trans[OF g] h(1) by (simp add: new_calls_def)
  obtain x u y where x: "reactors w r = Some x" "cls x = CProxifierUpstreamer u" "xu_state u = st" "sb_ok (buf x)"
    "contents (buf x) = c0" "sock_after s (srcSock x)" "sock_after d (dstSock x)" "tlsObjs w t = Some y"
    "if hs_state y = S_WANT_HANDSHAKE then 0 \<le> earlyWritten y \<and> earlyWritten y \<le> int (length c0) \<and>
       data_out d (new_calls v w) = take (nat (earlyWritten y)) c0 else data_out d (new_calls v w) = []"
    using assms(1) unfolding holds_back_def by blast
  obtain z where z: "reactors w' r = Some z" "buf z = buf x" "sock_after (srcSock x) (srcSock z)"
    "sock_after (dstSock x) (dstSock z)" "cls z = cls x"
    using assms(2,3) x(1) unfolding quiet_def idle_def by fastforce
  have "data_in s (new_calls v w') = []" "data_out d (new_calls v w') = data_out d (new_calls v w)"
    using assms(1) data_free_no_data[OF h(2)] by (simp_all add: c holds_back_def)
  then show ?thesis
    unfolding holds_back_def
    using hg.R_trans[OF g] assms x z by (auto simp: holds_back_def idle_def intro: sock_after_trans)
qed

section \<open>The handshake\<close>

lemma nss_still:
  assumes "tlsObjs w t = Some y" "\<not> data_call c"
  obtains rc v where "nss E t c w = (Ret rc, v)" "below_nss w v" "tlsObjs v = tlsObjs w"
proof -
  obtain u where u: "nss E t c w = (Ret (os E (hist u) c), u\<lparr>hist := hist u @ [(c, os E (hist u) c)],
      prError := (if c_rc (os E (hist u) c) < 0 then c_prerr (os E (hist u) c) else prError u)\<rparr>)"
    "run_callbacks E t (nssCallbacks E (hist w) c) w = (Ret (), u)" "tlsObjs u = tlsObjs w"
    by (rule nss_run[OF assms(1)])
  have "below_nss w u" using keepsD[OF keeps_low_callbacks, of w] u(2) by (metis snd_conv)
  with u assms(2) show thesis
    by (intro that[OF u(1)]) (auto simp: below_nss_def)
qed

lemma still_back:
  assumes "holds_back r t s d c0 st v w" "below_nss w w'" "tlsObjs w' = tlsObjs w"
  shows "holds_back r t s d c0 st v w'"
  using assms(2,3) by (intro holds_back_quiet[OF assms(1)]) (auto simp: quiet_def idle_def below_nss_def)

lemma thrown:
  assumes "seqM (if b then bindM (getT t) (\<lambda>x. tlsHandleErr (g x)) else ret ()) m w = (Throw e, w')"
    and "tlsObjs w t = Some y"
  shows "w' = w \<or> m w = (Throw e, w')"
proof (cases b)
  case True
  with assms show ?thesis
    by (cases rule: tlsHandleErr_cases[of "g y" w]) (auto simp: seqM_def bindM_def getT_def)
qed (use assms in \<open>simp add: seqM_def bindM_def run_basic\<close>)

lemma force_throws:
  assumes t: "tlsObjs w t = Some y" and x: "reactors w r = Some x"
    and run: "clientHandshake_force E t r w = (Throw e, w')"
  shows "below_nss w w' \<and> tlsObjs w' = tlsObjs w"
proof -
  obtain rc v where v: "nss E t (SSL_ForceHandshake t) w = (Ret rc, v)" "below_nss w v" "tlsObjs v = tlsObjs w"
    by (rule nss_still[OF t, of "SSL_ForceHandshake t" E]) simp_all
  have tv: "tlsObjs v t = Some y" using v(3) t by simp
  obtain info u where u: "nss E t (SSL_GetChannelInfo t) v = (Ret info, u)" "below_nss v u" "tlsObjs u = tlsObjs v"
    by (rule nss_still[OF tv, of "SSL_GetChannelInfo t" E]) simp_all
  let ?last = "seqM (if c_flag info then bindM (getT t) (\<lambda>x. modBuf r (unuse (word_of_int (earlyWritten x)))) else ret ())
     (modT t (\<lambda>x. x\<lparr>hs_state := S_LAISEZ_FAIRE\<rparr>))"
  let ?next = "bindM (nss E t (SSL_GetChannelInfo t)) (\<lambda>info.
     seqM (if c_rc info < 0 then bindM (getT t) (\<lambda>x. tlsHandleErr (writeFD x)) else ret ())
     (seqM (if c_flag info then bindM (getT t) (\<lambda>x. modBuf r (unuse (word_of_int (earlyWritten x)))) else ret ())
     (modT t (\<lambda>x. x\<lparr>hs_state := S_LAISEZ_FAIRE\<rparr>))))"
  have "w' = v \<or> ?next v = (Throw e, w')"
    using run unfolding clientHandshake_force_def run_bind(1)[of "nss E t (SSL_ForceHandshake t)", OF v(1)]
    by (rule thrown[OF _ tv])
  then show ?thesis
  proof
    assume "?next v = (Throw e, w')"
    then have "seqM (if c_rc info < 0 then bindM (getT t) (\<lambda>x. tlsHandleErr (writeFD x)) else ret ()) ?last u = (Throw e, w')"
      unfolding run_bind(1)[of "nss E t (SSL_GetChannelInfo t)", OF u(1)] .
    moreover have tu: "tlsObjs u t = Some y" using u(3) tv by simp
    ultimately have "w' = u \<or> ?last u = (Throw e, w')" by (rule thrown)
    moreover have "reactors u r = Some x" using x v(2) u(2) by (simp add: below_nss_def)
    then have "fst (?last u) = Ret ()"
      using tu by (auto simp: seqM_def bindM_def getT_def modT_def modBuf_def run_modR run_basic)
    ultimately have "w' = u" by auto
    with v u show ?thesis using low.R_trans by auto
  qed (use v in simp)
qed

lemma early_throws:
  assumes io: "io_ok E" and t: "tlsObjs w t = Some y" and x: "reactors w r = Some x" "sb_ok (buf x)"
    and run: "clientHandshake_early E t r w = (Throw e, w')"
  obtains h where "hist w' = hist w @ h" "reactors w' = reactors w" "tlsObjs w' = tlsObjs w" "nextRid w' = nextRid w"
    "\<forall>s. data_in s h = []" "\<forall>d. data_out d h = []"
proof -
  let ?c = "PR_Write t (contents (buf x))"
  obtain u where u: "nss E t ?c w = (Ret (os E (hist u) ?c), u\<lparr>hist := hist u @ [(?c, os E (hist u) ?c)],
      prError := (if c_rc (os E (hist u) ?c) < 0 then c_prerr (os E (hist u) ?c) else prError u)\<rparr>)"
    "run_callbacks E t (nssCallbacks E (hist w) ?c) w = (Ret (), u)" "tlsObjs u = tlsObjs w" "reactors u = reactors w"
    by (rule nss_run[OF t])
  let ?rc = "os E (hist u) ?c"
  let ?v = "u\<lparr>hist := hist u @ [(?c, ?rc)], prError := (if c_rc ?rc < 0 then c_prerr ?rc else prError u)\<rparr>"
  have bl: "below_nss w u" using keepsD[OF keeps_low_callbacks, of w] u(2) by (metis snd_conv)
  then obtain k where k: "hist u = hist w @ k" "data_free k" by (rule below_nssD)
  have tv: "tlsObjs ?v t = Some y" using u(3) t by simp
  have "c_rc ?rc < 0 \<and> w' = ?v"
    using run tv unfolding clientHandshake_early_def
    by (cases rule: tlsHandleErr_cases[of "writeFD y" ?v])
      (auto simp: bindM_def seqM_def buffered_run[OF x] u(1) getT_def modT_def run_basic split: if_splits)
  with u k bl data_free_no_data[OF k(2)] show thesis
    by (intro that[of "k @ [(?c, ?rc)]"]) (auto simp: in_of_call below_nss_def)
qed

lemma holds_backE:
  assumes "holds_back r t s d c0 st v w"
  obtains x u y where "hist_grows v w" "r < nextRid w" "data_in s (new_calls v w) = []" "reactors w r = Some x"
    "cls x = CProxifierUpstreamer u" "xu_state u = st" "sb_ok (buf x)" "contents (buf x) = c0"
    "sock_after s (srcSock x)" "sock_after d (dstSock x)" "tlsObjs w t = Some y"
    "if hs_state y = S_WANT_HANDSHAKE then 0 \<le> earlyWritten y \<and> earlyWritten y \<le> int (length c0) \<and>
       data_out d (new_calls v w) = take (nat (earlyWritten y)) c0 else data_out d (new_calls v w) = []"
  using assms unfolding holds_back_def by blast

lemma frame_early: "keeps frame (clientHandshake_early E t r)"
  unfolding clientHandshake_early_def by (intro fr.keeps_rules keeps_intro shared_call_simps)

lemma frame_force: "keeps frame (clientHandshake_force E t r)"
  unfolding clientHandshake_force_def by (intro fr.keeps_rules keeps_intro shared_call_simps)

lemma data_out_tls:
  assumes "sk_tls d = Some t" shows "data_out d h = early_bytes t h"
proof -
  have "out_of d e = out_of \<lparr>sk_fd = -1, sk_tls = Some t\<rparr> e" for e
    using assms by (simp add: out_of_def split: call.split)
  then have "out_of d = out_of \<lparr>sk_fd = -1, sk_tls = Some t\<rparr>" by (rule ext)
  then show ?thesis by (simp only: early_bytes_def data_out_def)
qed

lemma early_back:
  assumes io: "io_ok E" and d: "sk_tls d = Some t" and hb: "holds_back r t s d c0 st v w"
    and y: "tlsObjs w t = Some y" "hs_state y = S_WANT_EARLY"
    and run: "clientHandshake_early E t r w = (res, w')" "\<And>e. res \<noteq> Abort e"
  shows "holds_back r t s d c0 st v w'"
    "res = Ret () \<Longrightarrow> \<exists>z. tlsObjs w' t = Some z \<and> hs_state z = S_WANT_HANDSHAKE"
proof -
  obtain x u where b: "hist_grows v w" "r < nextRid w" "data_in s (new_calls v w) = []" "reactors w r = Some x"
    "cls x = CProxifierUpstreamer u" "xu_state u = st" "sb_ok (buf x)" "contents (buf x) = c0"
    "sock_after s (srcSock x)" "sock_after d (dstSock x)" "data_out d (new_calls v w) = []"
    using hb y by (elim holds_backE) auto
  have fr: "frame w w'" using keepsD[OF frame_early, of w] run(1) by (metis snd_conv)
  then have g: "hist_grows w w'" "r < nextRid w'" using b(2) frame_nextRid[OF fr] by (auto simp: frame_def)
  have c: "new_calls v w' = new_calls v w @ new_calls w w'" by (rule new_calls_trans[OF b(1) g(1)])
  have "holds_back r t s d c0 st v w' \<and> (res = Ret () \<longrightarrow> (\<exists>z. tlsObjs w' t = Some z \<and> hs_state z = S_WANT_HANDSHAKE))"
  proof (cases res)
    case (Ret a)
    then have r: "clientHandshake_early E t r w = (Ret (), w')" using run(1) by simp
    obtain h n where e: "hist w' = hist w @ h" "reactors w' = reactors w" "n \<le> length c0" "early_bytes t h = take n c0"
      "\<forall>s. data_in s h = []" "tlsObjs w' t = Some (y\<lparr>earlyWritten := int n, hs_state := S_WANT_HANDSHAKE\<rparr>)"
      by (rule early_run[OF io y(1) b(4,7) r]) (simp add: b(8))
    have "data_out d h = early_bytes t h" using d by (rule data_out_tls)
    moreover have "new_calls w w' = h" using e(1) by (simp add: new_calls_def)
    ultimately have "data_out d (new_calls v w') = take n c0" "data_in s (new_calls v w') = []"
      using e b by (simp_all add: c)
    with e b hg.R_trans[OF b(1) g(1)] g(2) show ?thesis by (simp add: holds_back_def)
  next
    case (Throw e)
    with run(1) have r: "clientHandshake_early E t r w = (Throw e, w')" by simp
    obtain h where e: "hist w' = hist w @ h" "reactors w' = reactors w" "tlsObjs w' = tlsObjs w" "nextRid w' = nextRid w"
      "\<forall>s. data_in s h = []" "\<forall>d. data_out d h = []"
      by (rule early_throws[OF io y(1) b(4,7) r])
    moreover have "new_calls w w' = h" using e(1) by (simp add: new_calls_def)
    ultimately have "data_out d (new_calls v w') = []" "data_in s (new_calls v w') = []"
      using b by (simp_all add: c)
    with e b y hg.R_trans[OF b(1) g(1)] g(2) Throw show ?thesis by (simp add: holds_back_def)
  qed (use run(2) in simp)
  then show "holds_back r t s d c0 st v w'" "res = Ret () \<Longrightarrow> \<exists>z. tlsObjs w' t = Some z \<and> hs_state z = S_WANT_HANDSHAKE"
    by simp_all
qed

definition upstreamer_at :: "rid \<Rightarrow> world \<Rightarrow> bool" where
  "upstreamer_at r w \<longleftrightarrow> (\<exists>x u. reactors w r = Some x \<and> cls x = CProxifierUpstreamer u)"

lemma force_done:
  assumes hb: "holds_back r t s d c0 st v w"
    and y: "tlsObjs w t = Some y" "hs_state y = S_WANT_HANDSHAKE"
    and r: "clientHandshake_force E t r w = (Ret (), w')"
  shows "speaks r t s d c0 v w' \<and> upstreamer_at r w'"
proof -
  obtain x u where b: "hist_grows v w" "r < nextRid w" "data_in s (new_calls v w) = []" "reactors w r = Some x"
    "cls x = CProxifierUpstreamer u" "xu_state u = st" "sb_ok (buf x)" "contents (buf x) = c0"
    "sock_after s (srcSock x)" "sock_after d (dstSock x)" "0 \<le> earlyWritten y" "earlyWritten y \<le> int (length c0)"
    "data_out d (new_calls v w) = take (nat (earlyWritten y)) c0"
    using hb y by (elim holds_backE) auto
  obtain h x' where f: "hist w' = hist w @ h" "data_free h" "reactors w' r = Some x'" "sb_ok (buf x')"
    "x' = x\<lparr>buf := buf x'\<rparr>" "h \<noteq> []" "fst (last h) = SSL_GetChannelInfo t"
    "contents (buf x') = (if accepted_early (hist w') then drop (nat (earlyWritten y)) c0 else c0)"
    by (rule force_run[OF y(1) b(4,7) _ _ r]) (use b(8,11,12) in auto)
  have fr: "frame w w'" using keepsD[OF frame_force, of w] r by (metis snd_conv)
  have g: "hist_grows v w'" "r < nextRid w'"
    using b(1,2) f(1) frame_nextRid[OF fr] by (auto simp: hist_grows_def)
  have c: "new_calls v w' = new_calls v w @ h"
    using new_calls_trans[OF b(1), of w'] f(1) by (simp add: new_calls_def hist_grows_def)
  have sock: "srcSock x' = srcSock x" "dstSock x' = dstSock x" "cls x' = cls x" by (subst f(5), simp)+
  let ?early = "take (nat (earlyWritten y)) c0" and ?info = "snd (last h)"
  have h: "h = butlast h @ [(SSL_GetChannelInfo t, ?info)]"
    using f(6,7) by (metis append_butlast_last_id prod.collapse)
  with c have info: "new_calls v w' = (new_calls v w @ butlast h) @ (SSL_GetChannelInfo t, ?info) # []" by simp
  have "data_free (butlast h)" using f(2) h data_free_append by metis
  then have early: "data_out d (new_calls v w @ butlast h) = ?early"
    using b(13) data_free_no_data by simp
  have "accepted_early (hist w') \<longleftrightarrow> c_flag ?info" using f(1,6) by (simp add: accepted_early_def)
  with f(8) have left: "c0 = (if c_flag ?info then ?early else []) @ contents (buf x')" by simp
  have io': "data_in s (new_calls v w') = []" "data_out d (new_calls v w') = ?early @ []"
    using b(3,13) data_free_no_data[OF f(2)] by (simp_all add: c)
  with left have all: "c0 @ data_in s (new_calls v w') = (if c_flag ?info then ?early else []) @ [] @ contents (buf x')"
    by (simp only: append_Nil append_Nil2)
  have after: "sock_after s (srcSock x')" "sock_after d (dstSock x')" using b(9,10) sock by simp_all
  have "speaks r t s d c0 v w'"
    unfolding speaks_def
    by (intro conjI exI[of _ x'] exI[of _ ?early] exI[of _ "[]"] disjI2 exI[of _ "new_calls v w @ butlast h"]
        exI[of _ ?info] exI[of _ "[]"] g f(3,4) after take_is_prefix io'(2) info early all)
  with f(3) sock b(5) show ?thesis by (auto simp: upstreamer_at_def)
qed

lemma force_back:
  assumes hb: "holds_back r t s d c0 st v w"
    and y: "tlsObjs w t = Some y" "hs_state y = S_WANT_HANDSHAKE"
    and run: "clientHandshake_force E t r w = (res, w')" "\<And>e. res \<noteq> Abort e"
  shows "if res = Ret () then speaks r t s d c0 v w' \<and> upstreamer_at r w' else holds_back r t s d c0 st v w'"
proof (cases res)
  case (Ret a)
  with force_done[OF hb y] run(1) show ?thesis by simp
next
  case (Throw e)
  obtain x where "reactors w r = Some x" using hb by (rule holds_backE)
  with force_throws[OF y(1)] run(1) Throw have "below_nss w w' \<and> tlsObjs w' = tlsObjs w" by simp
  with still_back[OF hb] Throw show ?thesis by simp
qed (use run(2) in simp)

lemma handshake_back:
  assumes io: "io_ok E" and d: "sk_tls d = Some t" and hb: "holds_back r t s d c0 st v w"
    and run: "tls_clientHandshake E t r w = (res, w')" "\<And>e. res \<noteq> Abort e"
  shows "if res = Ret () then speaks r t s d c0 v w' \<and> upstreamer_at r w' else holds_back r t s d c0 st v w'"
proof -
  obtain x u y where b: "reactors w r = Some x" "cls x = CProxifierUpstreamer u" "tlsObjs w t = Some y"
    using hb by (rule holds_backE)
  have hs: "tls_clientHandshake E t r w = (case hs_state y of
       S_WANT_EARLY \<Rightarrow> seqM (clientHandshake_early E t r) (clientHandshake_force E t r)
     | S_WANT_HANDSHAKE \<Rightarrow> clientHandshake_force E t r
     | S_LAISEZ_FAIRE \<Rightarrow> ret ()) w"
    using b(3) by (simp add: tls_clientHandshake_def bindM_def getT_def)
  show ?thesis
  proof (cases "hs_state y")
    case S_WANT_EARLY
    obtain o' z where z: "clientHandshake_early E t r w = (o', z)" by fastforce
    with run hs S_WANT_EARLY have rest: "(case o' of Ret _ \<Rightarrow> clientHandshake_force E t r z
        | Throw e \<Rightarrow> (Throw e, z) | Abort e \<Rightarrow> (Abort e, z)) = (res, w')"
      by (simp add: seqM_def bindM_def split: outcome.splits)
    have na: "o' \<noteq> Abort e" for e
    proof
      assume "o' = Abort e"
      with rest have "res = Abort e" by simp
      with run(2) show False by blast
    qed
    note e = early_back[OF io d hb b(3) S_WANT_EARLY z na]
    show ?thesis
    proof (cases o')
      case (Ret a)
      with e(2) obtain q where "tlsObjs z t = Some q" "hs_state q = S_WANT_HANDSHAKE" by auto
      with force_back[OF e(1)] rest Ret run(2) show ?thesis by simp
    qed (use rest e(1) na in auto)
  next
    case S_WANT_HANDSHAKE
    with force_back[OF hb b(3)] run hs show ?thesis by simp
  next
    case S_LAISEZ_FAIRE
    with run hs have "res = Ret ()" "w' = w" by (simp_all add: run_basic)
    with nothing_early_speaks[OF hb b(3)] S_LAISEZ_FAIRE b show ?thesis by (auto simp: upstreamer_at_def)
  qed
qed

section \<open>The events\<close>

lemma quiet_connected: "keeps (quiet r) (checkConnected E fd)"
  unfolding checkConnected_def by (intro quiet.keeps_rules keeps_intro data_call_simps)

text \<open>An upstreamer that was started is in one of the two phases.\<close>

definition accounted :: "rid \<Rightarrow> nat \<Rightarrow> socket \<Rightarrow> socket \<Rightarrow> byte list \<Rightarrow> world \<Rightarrow> world \<Rightarrow> bool" where
  "accounted r t s d c0 v w \<longleftrightarrow>
     (\<exists>st. (st = XU_CONNECTING \<or> st = XU_HANDSHAKING) \<and> holds_back r t s d c0 st v w) \<or>
     speaks r t s d c0 v w \<and> late r w"

lemma accounted_later:
  assumes "speaks r t s d c0 v w" "late r w" "keeps (piped (\<lambda>_. True) r) m" "keeps (preserves (late r)) m" "m w = (res, w')"
  shows "accounted r t s d c0 v w'"
  using speaks_later[OF assms(1)] keepsD[OF assms(3), of w] keepsD[OF assms(4), of w] assms(2,5)
  by (simp add: accounted_def preserves_def)

lemma accounted_handshake:
  assumes io: "io_ok E" and d: "sk_tls d = Some t" and hb: "holds_back r t s d c0 st v w"
    and st: "st = XU_CONNECTING \<or> st = XU_HANDSHAKING"
    and run: "ProxifierUpstreamer_handshake E r w = (res, w')" "\<And>e. res \<noteq> Abort e"
  shows "accounted r t s d c0 v w'"
proof -
  obtain x where x: "reactors w r = Some x" "sock_after d (dstSock x)" using hb by (rule holds_backE)
  have hs: "clientHandshake E (dstSock x) r = tls_clientHandshake E t r"
    using x(2) d by (auto simp: clientHandshake_def sock_after_def)
  obtain o' u where u: "tls_clientHandshake E t r w = (o', u)" by fastforce
  let ?rest = "seqM (modXU r (\<lambda>d. d\<lparr>xu_state := XU_SENDING_REQ\<rparr>)) (ProxifierUpstreamer_sendReq E r)"
  have rest: "(case o' of Ret _ \<Rightarrow> ?rest u | Throw e \<Rightarrow> (Throw e, u) | Abort e \<Rightarrow> (Abort e, u)) = (res, w')"
    using run(1) hs u by (simp add: ProxifierUpstreamer_handshake_def bindM_def[of "getR r"] run_getR(1)[OF x(1)]
      seqM_def[of "tls_clientHandshake E t r"] bindM_def[of "tls_clientHandshake E t r"] split: outcome.splits)
  have na: "o' \<noteq> Abort e" for e
  proof
    assume "o' = Abort e"
    with rest have "res = Abort e" by simp
    with run(2) show False by blast
  qed
  note hsb = handshake_back[OF io d hb u na]
  show ?thesis
  proof (cases o')
    case (Ret a)
    with hsb have sp: "speaks r t s d c0 v u" and up: "upstreamer_at r u" by simp_all
    from up obtain y k where y: "reactors u r = Some y" "cls y = CProxifierUpstreamer k" by (auto simp: upstreamer_at_def)
    obtain z where z: "modXU r (\<lambda>d. d\<lparr>xu_state := XU_SENDING_REQ\<rparr>) u = (Ret (), z)" "late r z"
      using y sp by (auto simp: modXU_def run_modR late_def speaks_def)
    have "speaks r t s d c0 v z"
      using speaks_later[OF sp] keepsD[OF piped_basic(2)[where P = "\<lambda>_. True" and r = r and s = r and
          f = "\<lambda>d. d\<lparr>xu_state := XU_SENDING_REQ\<rparr>"], of u] z(1) by simp
    moreover have "ProxifierUpstreamer_sendReq E r z = (res, w')" using rest Ret z(1) by (simp add: run_seq)
    ultimately show ?thesis
      by (intro accounted_later[OF _ z(2) piped_sendReq[OF io] late_sendReq])
  qed (use rest hsb na st in \<open>auto simp: accounted_def\<close>)
qed

lemma accounted_connecting:
  assumes io: "io_ok E" and d: "sk_tls d = Some t" and st: "holds_back r t s d c0 XU_CONNECTING v w"
    and run: "ProxifierUpstreamer_connecting E r w = (res, w')" "\<And>e. res \<noteq> Abort e"
  shows "accounted r t s d c0 v w'"
proof -
  obtain x where x: "reactors w r = Some x" using st by (rule holds_backE)
  let ?hand = "seqM (modXU r (\<lambda>d. d\<lparr>xu_state := XU_HANDSHAKING\<rparr>)) (ProxifierUpstreamer_handshake E r)"
  obtain o' q where q: "checkConnected E (sk_fd (dstSock x)) w = (o', q)" by fastforce
  have rest: "(case o' of Ret _ \<Rightarrow> ?hand q | Throw e \<Rightarrow> (Throw e, q) | Abort e \<Rightarrow> (Abort e, q)) = (res, w')"
    using run(1) x q by (simp add: ProxifierUpstreamer_connecting_def bindM_def[of "getR r"] run_getR seqM_def[of "checkConnected E fd" for fd]
        bindM_def[of "checkConnected E fd" for fd] split: outcome.splits)
  have hb: "holds_back r t s d c0 XU_CONNECTING v q"
    using holds_back_quiet[OF st] keepsD[OF quiet_connected[of r E "sk_fd (dstSock x)"], of w]
    keepsD[OF idle_connected[of r E "sk_fd (dstSock x)"], of w] q by simp
  show ?thesis
  proof (cases o')
    case (Ret a)
    obtain y k where y: "reactors q r = Some y" "cls y = CProxifierUpstreamer k" using hb by (rule holds_backE)
    obtain z where z: "modXU r (\<lambda>d. d\<lparr>xu_state := XU_HANDSHAKING\<rparr>) q = (Ret (), z)"
      using y by (simp add: modXU_def run_modR)
    have "holds_back r t s d c0 XU_HANDSHAKING v z"
      using hb z y by (auto simp: holds_back_def modXU_def run_modR same_history split: if_splits)
    moreover have "ProxifierUpstreamer_handshake E r z = (res, w')" using rest Ret z by (simp add: run_seq)
    ultimately show ?thesis by (rule accounted_handshake[OF io d _ disjI2[OF refl] _ run(2)])
  next
    case (Throw e)
    with rest hb show ?thesis by (auto simp: accounted_def)
  next
    case (Abort e)
    with rest have "res = Abort e" by simp
    with run(2) show ?thesis by blast
  qed
qed

lemma accounted_process:
  assumes io: "io_ok E" and d: "sk_tls d = Some t" and acc: "accounted r t s d c0 v w"
    and run: "ProxifierUpstreamer_process E r w = (res, w')" "\<And>e. res \<noteq> Abort e"
  shows "accounted r t s d c0 v w'"
proof (cases "speaks r t s d c0 v w \<and> late r w")
  case True
  then obtain x u where x: "reactors w r = Some x" "cls x = CProxifierUpstreamer u"
    "xu_state u = XU_SENDING_REQ \<or> xu_state u = XU_STREAM"
    unfolding late_def by (metis late_class.elims(2))
  then have "getXU r w = (Ret u, w)" by (simp add: getXU_def bindM_def run_getR run_basic)
  with x(3) run(1) have "ProxifierUpstreamer_sendReq E r w = (res, w') \<or> StreamReactor_process E r w = (res, w')"
    by (auto simp: ProxifierUpstreamer_process_def bindM_def[of "getXU r"])
  with True show ?thesis
    by (auto intro: accounted_later[OF _ _ piped_sendReq[OF io] late_sendReq]
        accounted_later[OF _ _ piped_stream[OF io] late_stream(1)])
next
  case False
  with acc obtain st where st: "st = XU_CONNECTING \<or> st = XU_HANDSHAKING" "holds_back r t s d c0 st v w"
    by (auto simp: accounted_def)
  obtain x u where x: "reactors w r = Some x" "cls x = CProxifierUpstreamer u" "xu_state u = st"
    using st(2) by (rule holds_backE)
  then have g: "getXU r w = (Ret u, w)" by (simp add: getXU_def bindM_def run_getR run_basic)
  show ?thesis
  proof (cases "st = XU_HANDSHAKING")
    case True
    with run(1) g x(3) have "ProxifierUpstreamer_handshake E r w = (res, w')"
      by (simp add: ProxifierUpstreamer_process_def bindM_def[of "getXU r"])
    from accounted_handshake[OF io d st(2,1) this run(2)] show ?thesis .
  next
    case False
    with run(1) g x(3) st(1) have "ProxifierUpstreamer_connecting E r w = (res, w')"
      by (simp add: ProxifierUpstreamer_process_def bindM_def[of "getXU r"])
    from accounted_connecting[OF io d _ this run(2)] st False show ?thesis by simp
  qed
qed

lemma accounted_runAs:
  assumes io: "io_ok E" and d: "sk_tls d = Some t" and acc: "accounted r t s d c0 v w"
    and run: "Poller_runAs E r (ProxifierUpstreamer_process E r) w = (res, w')" "\<And>e. res \<noteq> Abort e"
  shows "accounted r t s d c0 v w'"
proof -
  let ?m = "ProxifierUpstreamer_process E r"
  let ?h = "\<lambda>e. case e of RescheduleException fd ev \<Rightarrow> Poller_add E r fd ev | _ \<Rightarrow> deactivate E r"
  obtain o' u where u: "?m w = (o', u)" by fastforce
  with run(1) have rest: "(case o' of Ret a \<Rightarrow> (Ret a, u) | Throw e \<Rightarrow> ?h e u | Abort e \<Rightarrow> (Abort e, u)) = (res, w')"
    by (simp add: Poller_runAs_def tryM_def split: outcome.splits)
  have na: "o' \<noteq> Abort e" for e
  proof
    assume "o' = Abort e"
    with rest have "res = Abort e" by simp
    with run(2) show False by blast
  qed
  note a = accounted_process[OF io d acc u na]
  show ?thesis
  proof (cases o')
    case (Throw e)
    with rest have h: "?h e u = (res, w')" by simp
    have k: "keeps (quiet r) (?h e)" "keeps (idle r) (?h e)" "keeps (piped (\<lambda>_. True) r) (?h e)" "keeps (preserves (late r)) (?h e)"
      by (auto split: exn.split intro!: keeps_intro piped_quiet)
    from a consider (held) st where "st = XU_CONNECTING \<or> st = XU_HANDSHAKING" "holds_back r t s d c0 st v u"
      | (sent) "speaks r t s d c0 v u" "late r u" unfolding accounted_def by blast
    then show ?thesis
    proof cases
      case (held st)
      with holds_back_quiet[OF held(2)] keepsD[OF k(1), of u] keepsD[OF k(2), of u] h
      show ?thesis by (auto simp: accounted_def)
    next
      case sent
      then show ?thesis by (rule accounted_later[OF _ _ k(3,4) h])
    qed
  qed (use rest a na in auto)
qed

lemma accounted_events:
  assumes io: "io_ok E" and d: "sk_tls d = Some t"
  shows "accounted r t s d c0 v w \<Longrightarrow> upstream_events E r n w = (Ret (), w') \<Longrightarrow> accounted r t s d c0 v w'"
proof (induction n arbitrary: w)
  case (Suc n)
  let ?m = "Poller_runAs E r (ProxifierUpstreamer_process E r)"
  obtain o' u where u: "?m w = (o', u)" by fastforce
  with Suc.prems(2) have o': "o' = Ret ()" and go: "upstream_events E r n u = (Ret (), w')"
    by (cases o'; simp add: seqM_def bindM_def)+
  have "accounted r t s d c0 v u" by (rule accounted_runAs[OF io d Suc.prems(1) u]) (simp add: o')
  from Suc.IH[OF this go] show ?case .
qed (simp add: run_basic)

section \<open>The start\<close>

text \<open>The start writes nothing to a TLS connection, and leaves the upstreamer connecting.\<close>

definition connecting :: "rid \<Rightarrow> nat \<Rightarrow> world \<Rightarrow> bool" where
  "connecting r t w \<longleftrightarrow> (\<exists>x u y. reactors w r = Some x \<and> cls x = CProxifierUpstreamer u \<and> xu_state u = XU_CONNECTING \<and>
     tlsObjs w t = Some y \<and> hs_state y \<noteq> S_WANT_HANDSHAKE)"

definition prepares :: "rid \<Rightarrow> nat \<Rightarrow> world \<Rightarrow> world \<Rightarrow> bool" where
  "prepares r t w w' \<longleftrightarrow> (\<exists>h. hist w' = hist w @ h \<and> early_bytes t h = []) \<and> (connecting r t w \<longrightarrow> connecting r t w')"

interpretation prepares: world_preorder "prepares r t"
proof unfold_locales
  fix u v w assume a: "prepares r t u v" "prepares r t v w"
  then obtain h k where "hist v = hist u @ h" "early_bytes t h = []" "hist w = hist v @ k" "early_bytes t k = []"
    by (auto simp: prepares_def)
  then have "hist w = hist u @ (h @ k) \<and> early_bytes t (h @ k) = []" by (simp add: early_bytes_def)
  with a show "prepares r t u w" by (auto simp: prepares_def)
qed (simp add: prepares_def early_bytes_def)

definition unwritten :: "nat \<Rightarrow> call \<Rightarrow> bool" where
  "unwritten t c \<longleftrightarrow> (\<forall>xs. c \<noteq> PR_Write t xs)"

lemma early_bytes_single: "unwritten t c \<Longrightarrow> early_bytes t [(c, rc)] = []"
  by (auto simp: unwritten_def early_bytes_def data_out_def out_of_def split: call.split)

lemma prepares_call [keeps_intro]: "unwritten t c \<Longrightarrow> keeps (prepares r t) (extcall E c)"
  by (auto simp: keeps_def prepares_def run_extcall connecting_def early_bytes_single)

lemma prepares_modR [keeps_intro]: "(\<And>x. cls (f x) = cls x) \<Longrightarrow> keeps (prepares r t) (modR q f)"
  by (auto simp: keeps_def prepares_def modR_def connecting_def early_bytes_def split: option.split)

lemma prepares_basic [keeps_intro]:
  "keeps (prepares r t) (getR q)" "keeps (prepares r t) (set_entry n e)" "keeps (prepares r t) (getT t')"
  "keeps (prepares r t) (getCS k)" "keeps (prepares r t) (liftO z)"
  "(\<And>y. hs_state y \<noteq> S_WANT_HANDSHAKE \<Longrightarrow> hs_state (g y) \<noteq> S_WANT_HANDSHAKE) \<Longrightarrow> keeps (prepares r t) (modT t' g)"
  by (auto simp: keeps_def prepares_def getR_def set_entry_def run_basic getT_def getCS_def modT_def connecting_def
      early_bytes_def split: option.split outcome.split)

lemma unwritten_simps [simp]:
  "unwritten t (Recv fd n)" "unwritten t (NssRecv fd n)" "unwritten t (NssSend fd xs)" "unwritten t (PR_Read t' n)"
  "unwritten t (EpollCtl epo fd ev)" "unwritten t (SetSockOpt fd opt val)" "unwritten t (Connect fd a)"
  "unwritten t (SendToTFO fd xs a)" "unwritten t (SSL_Disable0RTT t')" "unwritten t (TfoPayloadSize fd)"
  "unwritten t (WalletExtract k)" "unwritten t (GetSockName fd)" "unwritten t (GetPeerName fd)"
  by (simp_all add: unwritten_def)

lemma prepares_layer [keeps_intro]: "keeps (prepares r t) (METHODS E t' c)"
proof -
  have e: "keeps (prepares r t) (PR_SetError pe)" "keeps (prepares r t) (set_blockDirection bd)" for pe bd
    by (auto simp: keeps_def prepares_def PR_SetError_def set_blockDirection_def run_basic connecting_def early_bytes_def)
  then have m: "keeps (prepares r t) (mapError err)" "keeps (prepares r t) (mapError_override ov err)" for err ov
    unfolding mapError_override_def mapError_def by (intro prepares.keeps_rules e)+
  show ?thesis
    unfolding METHODS_def tls_layer_defs
    by (cases c) (auto intro!: prepares.keeps_rules keeps_intro e m)
qed

lemma prepares_nss [keeps_intro]: "unwritten t c \<Longrightarrow> keeps (prepares r t) (nss E t' c)"
proof -
  assume c: "unwritten t c"
  have "keeps (prepares r t) (run_callbacks E t' cs)" for cs
    by (induction cs) (auto intro!: prepares.keeps_rules keeps_intro)
  moreover have "keeps (prepares r t) (PR_SetError pe)" for pe
    by (auto simp: keeps_def prepares_def PR_SetError_def run_basic connecting_def early_bytes_def)
  ultimately show ?thesis
    unfolding nss_def by (intro prepares.keeps_rules keeps_intro c)
qed

lemma prepares_read [keeps_intro]: "keeps (prepares r t) (sockRecv E s q)"
  unfolding sockRecv_def tlsRead_def tcpRecv_def buf_receive_def modBuf_def tlsHandleErr_def
  by (intro prepares.keeps_rules keeps_intro unwritten_simps; simp)

lemma prepares_start: "keeps (prepares r t) (ProxifierUpstreamer_start E q)"
  unfolding ProxifierUpstreamer_start_def ProxifierUpstreamer_request_def getXU_def getPF_def getToken_def
    sockConnect_def tcpSendTFO_def tcpConnect_def tcpDeferredConnect_def tlsDisableEarlyData_def nss_checked_def
    StreamReactor_start_def modBuf_def set_streamState_def Poller_add_def runIfActive_def isActive_def Let_def
  by (intro prepares.keeps_rules keeps_intro unwritten_simps keeps_choices keeps_exn_case keeps_class_case keeps_client_choices;
      simp)

lemma start_holds_back:
  fixes w :: world
  assumes io: "io_ok E" and x: "reactors w r = Some x" "sb_ok (buf x)" "r < nextRid w" "sk_tls (dstSock x) = Some t"
    and con: "connecting r t w" and start: "ProxifierUpstreamer_start E r w = (Ret (), v)"
  obtains req bytes c0 where "packRequest E req (unat HEADROOM) = Inr bytes"
    "take (length bytes mod 256) bytes @ contents (buf x) @ data_in (srcSock x) (new_calls w v) = c0"
    "data_out (dstSock x) (new_calls w v) = []"
    "holds_back r t (srcSock x) (dstSock x) c0 XU_CONNECTING v v" "hist_grows w v"
proof -
  obtain req bytes y where y: "packRequest E req (unat HEADROOM) = Inr bytes" "reactors v r = Some y"
    "sb_ok (buf y)" "sock_after (srcSock x) (srcSock y)" "sock_after (dstSock x) (dstSock y)"
    "take (length bytes mod 256) bytes @ contents (buf x) @ data_in (srcSock x) (new_calls w v) =
       data_out (dstSock x) (new_calls w v) @ contents (buf y)" "frame w v"
    by (rule start_moves[OF io x(1-3) start])
  have p: "prepares r t w v" using keepsD[OF prepares_start[of r t E r], of w] start by simp
  then obtain h where "hist v = hist w @ h" "early_bytes t h = []" by (auto simp: prepares_def)
  then have o: "data_out (dstSock x) (new_calls w v) = []"
    using data_out_tls[OF x(4)] by (simp add: new_calls_def)
  have "connecting r t v" using p con by (simp add: prepares_def)
  then obtain u z where u: "cls y = CProxifierUpstreamer u" "xu_state u = XU_CONNECTING" "tlsObjs v t = Some z"
    "hs_state z \<noteq> S_WANT_HANDSHAKE" using y(2) by (auto simp: connecting_def)
  have "r < nextRid v" "hist_grows w v" using x(3) frame_nextRid[OF y(7)] y(7) by (auto simp: frame_def)
  then show thesis
    using y u o by (intro that[of req bytes "contents (buf y)"]) (auto simp: holds_back_def new_calls_def intro: hg.R_refl)
qed

lemma verdict_shift:
  assumes "new_calls w w' = new_calls w v @ new_calls v w'" "data_out d (new_calls w v) = []"
    and "\<exists>h info k. new_calls v w' = h @ (SSL_GetChannelInfo t, info) # k \<and> data_out d h = early \<and> Q info"
  shows "\<exists>h info k. new_calls w w' = h @ (SSL_GetChannelInfo t, info) # k \<and> data_out d h = early \<and> Q info"
proof -
  obtain h info k where "new_calls v w' = h @ (SSL_GetChannelInfo t, info) # k" "data_out d h = early" "Q info"
    using assms(3) by blast
  with assms(1,2) show ?thesis by (intro exI[of _ "new_calls w v @ h"] exI[of _ info] exI[of _ k]) simp
qed

lemma encrypted_stream:
  fixes w :: world
  assumes io: "io_ok E" and x: "reactors w r = Some x" "sb_ok (buf x)" "r < nextRid w" "sk_tls (dstSock x) = Some t"
    and con: "connecting r t w" and start: "ProxifierUpstreamer_start E r w = (Ret (), v)"
    and run: "upstream_events E r n v = (Ret (), w')"
  defines "sent bytes \<equiv> take (length bytes mod 256) bytes @ contents (buf x) @ data_in (srcSock x) (new_calls w w')"
  obtains req bytes x' early rest where "packRequest E req (unat HEADROOM) = Inr bytes" "reactors w' r = Some x'"
    "data_out (dstSock x) (new_calls w w') = early @ rest" "prefix early (sent bytes)"
    "rest = [] \<and> sent bytes = contents (buf x') \<or> early = [] \<and> sent bytes = rest @ contents (buf x') \<or>
     (\<exists>h info k. new_calls w w' = h @ (SSL_GetChannelInfo t, info) # k \<and> data_out (dstSock x) h = early \<and>
        sent bytes = (if c_flag info then early else []) @ rest @ contents (buf x'))"
proof -
  let ?s = "srcSock x" and ?d = "dstSock x"
  obtain req bytes c0 where b: "packRequest E req (unat HEADROOM) = Inr bytes"
    "take (length bytes mod 256) bytes @ contents (buf x) @ data_in ?s (new_calls w v) = c0"
    "data_out ?d (new_calls w v) = []" "holds_back r t ?s ?d c0 XU_CONNECTING v v" "hist_grows w v"
    by (rule start_holds_back[OF io x con start])
  have "accounted r t ?s ?d c0 v v" using b(4) by (auto simp: accounted_def)
  then have acc: "accounted r t ?s ?d c0 v w'" by (rule accounted_events[OF io x(4) _ run])
  then have g: "hist_grows v w'" by (auto simp: accounted_def holds_back_def speaks_def)
  note c = new_calls_trans[OF b(5) g]
  have sent: "sent bytes = c0 @ data_in ?s (new_calls v w')" by (simp add: sent_def c b(2)[symmetric])
  have out: "data_out ?d (new_calls w w') = data_out ?d (new_calls v w')" by (simp add: c b(3))
  from acc consider (held) st where "holds_back r t ?s ?d c0 st v w'" | (spoken) "speaks r t ?s ?d c0 v w'"
    by (auto simp: accounted_def)
  then show thesis
  proof cases
    case held
    then obtain z k y where z: "reactors w' r = Some z" "cls z = CProxifierUpstreamer k" "contents (buf z) = c0" "data_in ?s (new_calls v w') = []"
      "tlsObjs w' t = Some y"
      "if hs_state y = S_WANT_HANDSHAKE then 0 \<le> earlyWritten y \<and> earlyWritten y \<le> int (length c0) \<and>
         data_out ?d (new_calls v w') = take (nat (earlyWritten y)) c0 else data_out ?d (new_calls v w') = []"
      by (rule holds_backE)
    then have "prefix (data_out ?d (new_calls w w')) (sent bytes)"
      by (auto simp: out sent take_is_prefix split: if_splits)
    with b(1) z show thesis
      by (intro that[of req bytes z "data_out ?d (new_calls w w')" "[]"]) (simp_all add: sent)
  next
    case spoken
    then obtain z early rest where z: "reactors w' r = Some z" "prefix early c0" "data_out ?d (new_calls v w') = early @ rest"
      and k: "early = [] \<and> c0 @ data_in ?s (new_calls v w') = rest @ contents (buf z) \<or>
       (\<exists>h info k. new_calls v w' = h @ (SSL_GetChannelInfo t, info) # k \<and> data_out ?d h = early \<and>
          c0 @ data_in ?s (new_calls v w') = (if c_flag info then early else []) @ rest @ contents (buf z))"
      unfolding speaks_def by blast
    have "early = [] \<and> sent bytes = rest @ contents (buf z) \<or>
     (\<exists>h info k. new_calls w w' = h @ (SSL_GetChannelInfo t, info) # k \<and> data_out ?d h = early \<and>
        sent bytes = (if c_flag info then early else []) @ rest @ contents (buf z))"
      using k verdict_shift[OF c b(3), where early = early and t = t and
          Q = "\<lambda>info. c0 @ data_in ?s (new_calls v w') = (if c_flag info then early else []) @ rest @ contents (buf z)"]
      unfolding sent by argo
    moreover have "prefix early (sent bytes)" using z(2) by (simp add: sent prefix_prefix)
    ultimately show thesis using b(1) z(1,3) out by (intro that[of req bytes z early rest]) simp_all
  qed
qed

section \<open>What the proxy is sent over TLS\<close>

text \<open>
  C15: the stream to the proxy over TLS, 0-RTT data included. For a fresh connection whose TLS object is new,
  from its start on and over any number of events, let \<open>sent\<close> be the front of the packed request (its length
  modulo 256) followed by everything the client has sent. What was written to the TLS connection is
  \<open>early @ rest\<close> with \<open>early\<close> a front part of \<open>sent\<close>, and either the handshake is not over and everything is still
  buffered; or no early data were written and \<open>sent\<close> is \<open>rest\<close> followed by what is buffered; or \<open>early\<close> was written
  before the end of the handshake, and if the server then reported it as accepted, \<open>sent\<close> is \<open>early\<close>, \<open>rest\<close> and
  what is buffered, and if not, all of it is sent again: \<open>sent\<close> is \<open>rest\<close> and what is buffered.
\<close>

theorem encrypted_request_then_data:
  fixes w :: world
  assumes "io_ok E" and "reactors w r = Some x" and "sb_ok (buf x)" and "contents (buf x) = []" and "r < nextRid w"
    and "cls x = CProxifierUpstreamer u" and "xu_state u = XU_CONNECTING"
    and "sk_tls (dstSock x) = Some t" and "tlsObjs w t = Some y" and "hs_state y = S_WANT_EARLY"
    and "ProxifierUpstreamer_start E r w = (Ret (), v)" and "upstream_events E r n v = (Ret (), w')"
  shows "\<exists>req bytes x' early rest. packRequest E req (unat HEADROOM) = Inr bytes \<and> reactors w' r = Some x' \<and>
    (let sent = take (length bytes mod 256) bytes @ data_in (srcSock x) (new_calls w w')
     in data_out (dstSock x) (new_calls w w') = early @ rest \<and> prefix early sent \<and>
        (rest = [] \<and> sent = contents (buf x') \<or>
         early = [] \<and> sent = rest @ contents (buf x') \<or>
         (\<exists>h info k. new_calls w w' = h @ (SSL_GetChannelInfo t, info) # k \<and> data_out (dstSock x) h = early \<and>
            sent = (if c_flag info then early else []) @ rest @ contents (buf x'))))"
proof -
  have con: "connecting r t w" using assms(2,6,7,9,10) by (auto simp: connecting_def)
  show ?thesis
    by (rule encrypted_stream[OF assms(1-3,5,8) con assms(11,12)], unfold assms(4) append_Nil Let_def) blast
qed

text \<open>The server accepts the three bytes that are written before the handshake.\<close>

definition early_scenario :: "cret list \<Rightarrow> env" where
  "early_scenario as = (scenario as)\<lparr>recommend := (\<lambda>_ _ _. \<lparr>rec_useToken = False, rec_tfoPayload = 0, rec_earlyData = True\<rparr>)\<rparr>"

lemma early_scenario_fields [simp]:
  "os (early_scenario as) = os (scenario as)" "nssCallbacks (early_scenario as) h c = []" "io_ok (early_scenario as)"
  "recommend (early_scenario as) req tls n = \<lparr>rec_useToken = False, rec_tfoPayload = 0, rec_earlyData = True\<rparr>"
  "packRequest (early_scenario as) req k = (if k = 0 then Inl EndOfBufferException else Inr [6])"
  "saFamily (early_scenario as) a = AF_INET"
proof -
  show "io_ok (early_scenario as)"
    using scenario_io_ok[of as] unfolding io_ok_def early_scenario_def by simp
qed (simp_all add: early_scenario_def scenario_def)

definition early_reactor :: reactor where
  "early_reactor = client_reactor\<lparr>dstSock := \<lparr>sk_fd = 8, sk_tls = Some 0\<rparr>\<rparr>"

definition early_world :: world where
  "early_world = client_world\<lparr>reactors := (reactors client_world)(1 \<mapsto> early_reactor),
     tlsObjs := [0 \<mapsto> \<lparr>hs_state = S_WANT_EARLY, earlyWritten = 0, readFD = 8, writeFD = 8\<rparr>], nextTls := 1\<rparr>"

definition early_answers :: "cret list" where
  "early_answers = [delivers [1, 2], failed EINVAL, returns 0, returns 0, returns 0, returns 0, returns 3, returns 0,
     (returns 0)\<lparr>c_flag := True\<rparr>, returns 9, returns 4, returns 0, failed EAGAIN, returns 0]"

lemma early_run_to_end:
  "\<exists>v w'. ProxifierUpstreamer_start (early_scenario early_answers) 1 early_world = (Ret (), v) \<and>
     upstream_events (early_scenario early_answers) 1 1 v = (Ret (), w') \<and>
     data_out \<lparr>sk_fd = 8, sk_tls = Some 0\<rparr> (hist w') = [6, 1, 2]"
  apply (simp add: ProxifierUpstreamer_start_def ProxifierUpstreamer_request_def run_simps stream_simps
        scenario_simps getXU_def getPF_def client_world_def client_reactor_def scenario_client_def
        scenario_proxifier_def getCredentials_def sockConnect_def tcpConnect_def StreamReactor_start_def Let_def
        tcpDeferredConnect_def early_answers_def
        HEADROOM_def prepend_def makeHeadroom_def early_world_def early_reactor_def buffer_simps)
  by (simp add: ProxifierUpstreamer_process_def ProxifierUpstreamer_connecting_def ProxifierUpstreamer_handshake_def
        ProxifierUpstreamer_sendReq_def checkConnected_def modXU_def clientHandshake_def tls_clientHandshake_def
        clientHandshake_early_def clientHandshake_force_def nss_def getT_def modT_def ProxifierDownstreamer_new_def
        newR_def construct_def dup_srcSock_def dup_dstSock_def duplicate_for_read_def duplicate_for_write_def
        UniqFD_assign_def setReadFD_def setWriteFD_def Poller_assign_def enter_stream_def
      run_simps stream_simps
        scenario_simps getXU_def StreamReactor_start_def Let_def
        buffer_simps block_def blit_def upt_rec data_out_def out_of_def)

theorem encrypted_request_then_data_witness:
  "\<exists>v w' x' early rest. ProxifierUpstreamer_start (early_scenario early_answers) 1 early_world = (Ret (), v) \<and>
     upstream_events (early_scenario early_answers) 1 1 v = (Ret (), w') \<and> reactors w' 1 = Some x' \<and>
     early @ rest = [6, 1, 2] \<and> prefix early (6 # data_in \<lparr>sk_fd = 7, sk_tls = None\<rparr> (hist w'))"
proof -
  let ?E = "early_scenario early_answers"
  obtain v w' where start: "ProxifierUpstreamer_start ?E 1 early_world = (Ret (), v)"
    and run: "upstream_events ?E 1 1 v = (Ret (), w')"
    and out: "data_out \<lparr>sk_fd = 8, sk_tls = Some 0\<rparr> (hist w') = [6, 1, 2]" using early_run_to_end by blast
  have w: "reactors early_world 1 = Some early_reactor" "sb_ok (buf early_reactor)" "contents (buf early_reactor) = []"
    "1 < nextRid early_world" "cls early_reactor = CProxifierUpstreamer scenario_client" "xu_state scenario_client = XU_CONNECTING"
    "sk_tls (dstSock early_reactor) = Some 0" "hist early_world = []" "srcSock early_reactor = \<lparr>sk_fd = 7, sk_tls = None\<rparr>"
    "dstSock early_reactor = \<lparr>sk_fd = 8, sk_tls = Some 0\<rparr>"
    "tlsObjs early_world 0 = Some \<lparr>hs_state = S_WANT_EARLY, earlyWritten = 0, readFD = 8, writeFD = 8\<rparr>"
    using client_world_simps by (simp_all add: early_world_def early_reactor_def client_reactor_def new_reactor_def scenario_client_def)
  from encrypted_request_then_data[OF _ w(1-7,11) _ start run] obtain req bytes x' early rest where
    "packRequest ?E req (unat HEADROOM) = Inr bytes" "reactors w' 1 = Some x'"
    "data_out (dstSock early_reactor) (new_calls early_world w') = early @ rest"
    "prefix early (take (length bytes mod 256) bytes @ data_in (srcSock early_reactor) (new_calls early_world w'))"
    by (auto simp: Let_def)
  moreover from this(1) have "bytes = [6]" by (auto split: if_splits)
  ultimately show ?thesis using start run out w(8-10) by (auto simp: new_calls_def)
qed

end
