(* ===== verification/Spec2Isabelle.thy ===== *)
theory Spec2Isabelle
  imports MemLoop Progress Replies BufferSpec Expiry Client Sessions Descriptors Transport Startup Resources ReplyPath EarlyPath
begin

text \<open>
  A verification development for sixtysocks, a SOCKS 6 proxy and proxifier in C++ (file names below
  are relative to \<^verbatim>\<open>src/\<close>).

  \<^bold>\<open>The program.\<close> One thread runs an event loop (\<^verbatim>\<open>core/poller.cc\<close>) over one-shot epoll registrations. A
  registration belongs to a reactor (\<^verbatim>\<open>core/reactor.hh\<close>): an object with a flag \<open>active\<close>, a virtual method
  \<open>process\<close> for its events and a virtual method \<open>deactivate\<close>. A method that would block throws a
  RescheduleException, which \<open>runAs\<close> turns into a new registration; any other exception deactivates the
  reactor. Reactors are listeners (\<^verbatim>\<open>core/listenreactor.cc\<close>), which accept connections; stream reactors
  (\<^verbatim>\<open>core/streamreactor.cc\<close>), which copy bytes from one socket to another through a buffer
  (\<^verbatim>\<open>core/streambuffer.hh\<close>); reactors with one socket (\<^verbatim>\<open>core/stickreactor.cc\<close>); and timers
  (\<^verbatim>\<open>core/timeoutreactor.cc\<close>). A socket (\<^verbatim>\<open>core/socket.hh\<close>) is plain TCP or carries a TLS object
  (\<^verbatim>\<open>tls/tls.cc\<close>) on top of NSS. The proxy (\<^verbatim>\<open>proxy/\<close>) reads a request, authenticates it
  (\<^verbatim>\<open>proxy/authutil.cc\<close>, \<^verbatim>\<open>authentication/\<close>), connects to the remote side and relays in both directions. The
  proxifier (\<^verbatim>\<open>proxifier/\<close>) accepts redirected connections and forwards each of them to a proxy behind a
  request; one connection at a time asks for a session. \<^verbatim>\<open>sixtysocks.cc\<close> reads the command line, sets up
  NSS and runs the loop.

  \<^bold>\<open>How it is modelled.\<close> A method is a function from a \<open>world\<close> to an outcome and the world it leaves; the
  outcome is a value, a C++ exception, or an end the language or the program's asserts give no way back
  from (undefined behaviour, a failed assert, termination). The world holds the objects, the poller
  and the history of all calls to the surroundings. The surroundings (the operating system, NSS,
  libsocks6msg, libsocks6util) are a parameter \<open>env\<close> that answers each call as a function of the history.
  What is assumed of them is stated by name in the theorems that need it: \<open>io_ok\<close> (a read or write
  reports no more bytes than were asked for), \<open>epoll_wait_ok\<close> (an event belongs to an armed descriptor),
  \<open>bank_ok\<close> (a token bank gives a token out once), \<open>parse_ok\<close> (a parsed message is no longer than the input),
  \<open>pack_ok\<close> (a packed message fits the room given), \<open>fd_limit\<close> (descriptors are below the size of the table).

  \<^bold>\<open>The model.\<close>
  \<^item> \<^verbatim>\<open>Prelude\<close>: machine types, errors, exceptions, outcomes, the combinators of methods with their program
    logic; the locale \<open>world_preorder\<close> lifts a reflexive and transitive relation on states to methods, and
    most invariants below are interpretations of it.
  \<^item> \<^verbatim>\<open>World\<close>: one record or datatype per class, the heap, the calls.
  \<^item> \<^verbatim>\<open>StreamBuffer\<close> (\<^verbatim>\<open>core/streambuffer.hh\<close>), \<^verbatim>\<open>Reactor\<close> (\<^verbatim>\<open>core/uniqfd.hh\<close>, \<^verbatim>\<open>core/reactor\<close>, \<^verbatim>\<open>core/poller\<close>,
    every \<open>deactivate\<close>), \<^verbatim>\<open>TLS\<close> (\<^verbatim>\<open>tls/tls\<close>), \<^verbatim>\<open>Socket\<close> (\<^verbatim>\<open>core/socket.hh\<close>), \<^verbatim>\<open>StreamReactor\<close>
    (\<^verbatim>\<open>core/streamreactor\<close>, \<^verbatim>\<open>core/stickreactor\<close>), \<^verbatim>\<open>Listen\<close> (\<^verbatim>\<open>core/listenreactor\<close>), \<^verbatim>\<open>Timeout\<close> (\<^verbatim>\<open>core/timer\<close>,
    \<^verbatim>\<open>core/timeoutreactor\<close>).
  \<^item> \<^verbatim>\<open>Auth\<close> (\<^verbatim>\<open>authentication/\<close>, \<^verbatim>\<open>proxy/authutil\<close>, \<^verbatim>\<open>proxy/serversession.hh\<close>, the tables of
    \<^verbatim>\<open>proxy/proxy\<close>), \<^verbatim>\<open>ProxyConn\<close> (the rest of \<^verbatim>\<open>proxy/\<close>).
  \<^item> \<^verbatim>\<open>Proxifier\<close> (\<^verbatim>\<open>proxifier/\<close>), \<^verbatim>\<open>Program\<close> (\<^verbatim>\<open>tls/tlslibrary\<close>, \<^verbatim>\<open>tls/tlscontext\<close>, \<^verbatim>\<open>sixtysocks.cc\<close>, and
    \<open>dispatch\<close>, the virtual method \<open>process\<close>).

  \<^bold>\<open>What is shown.\<close>
  \<^item> \<^verbatim>\<open>BufferSpec\<close>: the buffer refines a queue of bytes with head room.
  \<^item> \<^verbatim>\<open>Relay\<close>, \<^verbatim>\<open>StreamInv\<close> and this theory: a stream reactor neither loses, invents nor reorders bytes, with
    any sockets and any splitting of the data; its state says whether its buffer is empty.
  \<^item> \<^verbatim>\<open>Progress\<close>: between plain sockets it never gets stuck and never runs into undefined behaviour, and it
    empties its buffer if the destination accepts data.
  \<^item> \<^verbatim>\<open>PollTable\<close>, \<^verbatim>\<open>Live\<close>, \<^verbatim>\<open>EventLoop\<close>: the poller's table agrees with the epoll calls and names live
    reactors over the whole of \<open>main\<close>; what an event does; deactivation is final; the accept loop; the end.
  \<^item> \<^verbatim>\<open>Wellformed\<close>: in every state of a proxy each object has a class of the proxy side and a well-formed buffer.
  \<^item> \<^verbatim>\<open>MemSafe\<close>, \<^verbatim>\<open>ClientSafe\<close>, \<^verbatim>\<open>MemLoop\<close>: no run of a proxy, or of a proxifier without TLS, accesses a buffer or
    the poller's table out of bounds, if the descriptors fit the table; a logic of invariants that no method
    leaves and values that methods return.
  \<^item> \<^verbatim>\<open>Descriptors\<close>: a stream reactor closes each of its descriptors exactly once.
  \<^item> \<^verbatim>\<open>ProxyGate\<close>, \<^verbatim>\<open>Sessions\<close> and this theory: who is let in, that nobody else causes a connection, that a
    token counts once, that sessions are distinct, lasting and resumable.
  \<^item> \<^verbatim>\<open>Replies\<close>: how requests without a connection and failed connection attempts are answered.
  \<^item> \<^verbatim>\<open>TimerQueue\<close>, \<^verbatim>\<open>Expiry\<close>: the timer queues stay ordered, so that expiry triggers exactly what is due.
  \<^item> \<^verbatim>\<open>ClientPath\<close>, \<^verbatim>\<open>Supplication\<close>, \<^verbatim>\<open>Client\<close>: the proxy is sent the request and then the client's data; one
    supplicant at a time, and the right to supplicate is never lost.
  \<^item> \<^verbatim>\<open>EarlyPath\<close>: the same over TLS: data written before the handshake count if the server accepts them and
    are sent again if it does not.
  \<^item> \<^verbatim>\<open>ReplyPath\<close>: the two replies, and nothing else, are taken off what the proxy sends before the client is
    sent the rest.
  \<^item> \<^verbatim>\<open>Transport\<close>: blocking, early data and construction of TLS objects.
  \<^item> \<^verbatim>\<open>Resources\<close>: what \<open>main\<close> takes from NSS it gives back, in reverse order, on every way out.
  \<^item> \<^verbatim>\<open>Startup\<close>: ports, the verdict on the settings, the unwinding of a failed set-up.
  \<^item> \<^verbatim>\<open>Scenario\<close>: concrete surroundings and states in which the theorems are tried.

  \<^bold>\<open>Bounds.\<close> Two loops of the code have no bound: the search for a free session identifier
  (\<open>spawnSession\<close>) and the accept loop. They are followed for \<open>fuel E\<close> passes and abort with OutOfFuel
  after that, for any value of \<open>fuel\<close>; \<open>authentication_returns\<close> and \<open>accept_loop_ends\<close> say how much is
  enough. The event loop is followed for a number \<open>n\<close> of passes and then reports that it is running; the
  theorems hold for every \<open>n\<close>. The spin lock taken by \<open>Proxifier_start\<close> aborts when it is held, which on
  one thread is a loop that does not end.

  \<^bold>\<open>Not modelled.\<close>
  \<^item> When an object is destroyed. The code counts references; the model has every destructor as an
    operation, but the moment the last reference disappears is not determined by it, except for
    constructors that throw. In particular the moment a TLS object is released is not modelled, nor is
    the second deletion of the password checker by two proxies. Contexts and the library are released
    when \<open>main\<close> leaves their block.
  \<^item> Threads: the code that would start them is commented out (\<^verbatim>\<open>core/poller.cc\<close>, \<^verbatim>\<open>sixtysocks.cc\<close>), so the
    critical sections of spin mutexes are single steps.
  \<^item> That the kernel forgets a registration when a descriptor is closed: only the epoll calls count.
  \<^item> Log output, and the option parser \<open>getopt\<close>, whose results are the argument of \<open>main\<close>.
  \<^item> The inside of NSS, libsocks6msg and libsocks6util: fields of \<open>env\<close>.
\<close>

section \<open>The relay\<close>

text \<open>
  C1: losslessness of a relay. Whatever sockets (plain or TLS) a stream reactor connects, however
  many events it handles and however the system calls split the data: what was buffered followed by
  what its source delivered is what its destination accepted followed by what is still buffered.
\<close>

theorem relay_lossless:
  assumes "io_ok E" and "reactors w r = Some x" and "sb_ok (buf x)"
    and "pump E r n w = (res, w')"
  shows "\<exists>x'. reactors w' r = Some x' \<and> sb_ok (buf x') \<and>
    contents (buf x) @ data_in (srcSock x) (new_calls w w') =
      data_out (dstSock x) (new_calls w w') @ contents (buf x')"
proof -
  have "relayed r w w'" using keepsD[OF relayed_pump[OF assms(1), of r n], of w] assms(4) by simp
  with assms(2,3) show ?thesis unfolding relayed_def by (metis sock_after_refl)
qed

theorem relay_lossless_witness:
  "\<exists>x'. reactors (snd (pump (scenario [delivers [1, 2, 3], returns 2, returns 0]) 0 1 stream_world)) 0 = Some x' \<and>
     data_out \<lparr>sk_fd = 6, sk_tls = None\<rparr>
       (hist (snd (pump (scenario [delivers [1, 2, 3], returns 2, returns 0]) 0 1 stream_world))) @
       contents (buf x') = [1, 2, 3]"
proof -
  let ?E = "scenario [delivers [1, 2, 3], returns 2, returns 0]"
  obtain res w' where run: "pump ?E 0 1 stream_world = (res, w')" by fastforce
  have "data_in \<lparr>sk_fd = 5, sk_tls = None\<rparr> (hist (snd (pump ?E 0 1 stream_world))) = [1, 2, 3]"
    by (simp add: run_simps stream_simps buffer_simps scenario_simps in_of_def data_in_def)
  moreover have "\<exists>x'. reactors w' 0 = Some x' \<and> sb_ok (buf x') \<and>
    contents (buf stream_reactor) @ data_in (srcSock stream_reactor) (new_calls stream_world w') =
      data_out (dstSock stream_reactor) (new_calls stream_world w') @ contents (buf x')"
    by (rule relay_lossless[OF _ _ _ run]) (simp_all add: stream_world_def stream_reactor_def new_reactor_def)
  ultimately show ?thesis
    using run by (simp add: stream_reactor_def new_reactor_def new_calls_def stream_world_def empty_world_def)
      metis
qed

text \<open>
  C2: the invariant of a stream reactor. However many events it handles, it is in state SS_SENDING
  exactly when its buffer holds bytes, and no read asks for zero bytes and no write offers none, so
  a transfer of zero bytes can only be the end of the stream.
\<close>

theorem stream_invariant:
  assumes "io_ok E" and "stream_ok r w" and "pump E r n w = (res, w')"
  shows "stream_ok r w' \<and> (\<forall>e \<in> set (new_calls w w'). sized_call (fst e))"
  using keepsD[OF pump_stream_step[OF assms(1), of r n], of w] assms(2,3)
  by (simp add: stream_step_def sized_def)

theorem stream_invariant_witness:
  "stream_ok 0 (snd (pump (scenario [delivers [1, 2], returns 1]) 0 7 stream_world))"
proof -
  obtain res w' where run: "pump (scenario [delivers [1, 2], returns 1]) 0 7 stream_world = (res, w')"
    by fastforce
  from stream_invariant[OF scenario_io_ok stream_world_ok run] run show ?thesis by simp
qed

section \<open>Authentication\<close>



text \<open>
  C4: who is let in. The authentication reply says SUCCESS exactly when the request names a known
  session by eight bytes or, naming none, passes the password check, and when moreover the token
  that comes with a session, if any, was withdrawn from a bank.
\<close>

theorem authentication_decision:
  assumes "sessions_ok p w" and "is_proxy p d w" and "authenticate E opts p w = (Ret rep, w')"
  shows "ar_code rep = SOCKS6_AUTH_REPLY_SUCCESS \<longleftrightarrow> admitted d opts (new_calls w w')"
  using assms by (rule authenticate_success_iff)

theorem authentication_decision_witness:
  "fst (authenticate (scenario []) scenario_request 0 (proxy_world scenario_proxy)) =
     Ret \<lparr>ar_code = SOCKS6_AUTH_REPLY_SUCCESS, ar_opts = [UserPasswordReply True]\<rparr> \<and>
   admitted scenario_proxy scenario_request []"
proof -
  let ?w = "proxy_world scenario_proxy"
  have run: "authenticate (scenario []) scenario_request 0 ?w =
      (Ret \<lparr>ar_code = SOCKS6_AUTH_REPLY_SUCCESS, ar_opts = [UserPasswordReply True]\<rparr>, ?w)"
    by (simp add: authenticate_def authenticate_user_def authenticate_session_def
        authenticate_idempotence_def scenario_request_def bindM_def run_tables[OF proxy_world_proxy]
        Let_def check_def signal_def set_code_def run_basic)
  from authentication_decision[OF _ proxy_world_proxy run] run show ?thesis
    by (simp add: new_calls_def)
qed

text \<open>
  C5: a token is spent once. In any sequence of authentications, if a request that names a session
  and a token was let in, every later request with the same session and token is refused.
\<close>

theorem token_single_use:
  assumes "bank_ok E" and "sessions_ok p w" and "authenticate_all E p rqs w = (Ret reps, w')"
    and "i < j" and "j < length rqs"
    and "rq_sessionID (rqs ! i) = Some raw" and "rq_token (rqs ! i) = Some token"
    and "rq_sessionID (rqs ! j) = Some raw" and "rq_token (rqs ! j) = Some token"
    and "ar_code (reps ! i) = SOCKS6_AUTH_REPLY_SUCCESS"
  shows "ar_code (reps ! j) = SOCKS6_AUTH_REPLY_FAILURE"
  using granted_token_refused[OF assms] by (cases "ar_code (reps ! j)") auto

theorem token_single_use_witness:
  "map ar_code (case authenticate_all (scenario [returns 0, returns 1]) 0
       [resume_request 7, resume_request 7] session_world of (Ret reps, _) \<Rightarrow> reps | _ \<Rightarrow> []) =
     [SOCKS6_AUTH_REPLY_SUCCESS, SOCKS6_AUTH_REPLY_FAILURE]"
proof -
  let ?E = "scenario [returns 0, returns 1]"
  let ?rqs = "[resume_request 7, resume_request 7]"
  have "\<exists>a b w'. authenticate_all ?E 0 ?rqs session_world = (Ret [a, b], w') \<and>
      ar_code a = SOCKS6_AUTH_REPLY_SUCCESS"
    by (simp add: bindM_def resumed_run run_basic Let_def) (simp add: scenario_simps spent_def)
  then obtain a b w' where run: "authenticate_all ?E 0 ?rqs session_world = (Ret [a, b], w')"
    and a: "ar_code a = SOCKS6_AUTH_REPLY_SUCCESS" by blast
  have "ar_code ([a, b] ! 1) = SOCKS6_AUTH_REPLY_FAILURE"
    by (rule token_single_use[OF _ _ run, of 0 1 "u64_bytes 5" 7])
      (simp_all add: a resume_request_def)
  with run a show ?thesis by simp
qed

end
